(* ===== verification/Prelude.thy ===== *)
theory Prelude
  imports Main "HOL-Library.Word"
begin

text \<open>
  Shared vocabulary of the development: the machine integer types of the Rust sources, the
  outcome of a fallible Rust function (a value, an error value, or a panic), byte slices, and
  the little-endian codecs that every on-disk and on-device format of the program uses.

  \<^item> \<open>u8\<close>, \<open>u16\<close>, \<open>u32\<close>, \<open>u64\<close>, \<open>i32\<close> are words, so \<open>+\<close> wraps as a release build does;
    \<open>usize\<close> is \<open>nat\<close> on a 64-bit target, with the bound \<open>2 ^ 64\<close> written where code tests it.
  \<^item> \<open>('a, 'e) outcome\<close> is \<open>Result<'a, 'e>\<close> together with \<open>Panic\<close>, the unwinding exit of an
    index, capacity or \<open>panic!\<close> failure.
  \<^item> \<open>subslice a b xs\<close> is the Rust slice \<open>xs[a..b]\<close> on its valid range, \<open>overwrite\<close> is
    \<open>copy_from_slice\<close> into such a slice.
  \<^item> the locale \<open>byte_codec\<close> states what a fixed-width field codec promises; it is interpreted
    on the three integer widths below.
\<close>

unbundle bit_operations_syntax

type_synonym u8 = "8 word"
type_synonym u16 = "16 word"
type_synonym u32 = "32 word"
type_synonym u64 = "64 word"
type_synonym i32 = "32 word"
type_synonym usize = nat
type_synonym bytes = "u8 list"

named_theorems byte_simps \<open>lengths and round trips of the byte codecs\<close>

named_theorems slice_simps \<open>rewriting of slices and of overwritten slices\<close>

subsection \<open>Outcomes of fallible functions\<close>

datatype ('a, 'e) outcome = Ok 'a | Err 'e | Panic

primrec obind :: "('a, 'e) outcome \<Rightarrow> ('a \<Rightarrow> ('b, 'e) outcome) \<Rightarrow> ('b, 'e) outcome" where
  "obind (Ok x) f = f x"
| "obind (Err e) f = Err e"
| "obind Panic f = Panic"

primrec omap_err :: "('e \<Rightarrow> 'f) \<Rightarrow> ('a, 'e) outcome \<Rightarrow> ('a, 'f) outcome" where
  "omap_err h (Ok x) = Ok x"
| "omap_err h (Err e) = Err (h e)"
| "omap_err h Panic = Panic"

definition ok_or :: "'e \<Rightarrow> 'a option \<Rightarrow> ('a, 'e) outcome" where
  "ok_or e x = (case x of None \<Rightarrow> Err e | Some v \<Rightarrow> Ok v)"

definition or_panic :: "'a option \<Rightarrow> ('a, 'e) outcome" where
  "or_panic x = (case x of None \<Rightarrow> Panic | Some v \<Rightarrow> Ok v)"

primrec omap_list :: "('a \<Rightarrow> ('b, 'e) outcome) \<Rightarrow> 'a list \<Rightarrow> ('b list, 'e) outcome" where
  "omap_list f [] = Ok []"
| "omap_list f (x # xs) = obind (f x) (\<lambda>y. obind (omap_list f xs) (\<lambda>ys. Ok (y # ys)))"

lemma obind_Ok_iff [simp]: "obind m f = Ok y \<longleftrightarrow> (\<exists>x. m = Ok x \<and> f x = Ok y)"
  by (cases m) auto

lemma omap_err_Ok_iff [simp]: "omap_err h m = Ok y \<longleftrightarrow> m = Ok y"
  by (cases m) auto

lemma ok_or_Ok_iff [simp]: "ok_or e x = Ok v \<longleftrightarrow> x = Some v"
  by (auto simp: ok_or_def split: option.splits)

lemma ok_or_not_Panic [simp]: "ok_or e x \<noteq> Panic"
  by (auto simp: ok_or_def split: option.splits)

lemma or_panic_Ok_iff [simp]: "or_panic x = Ok v \<longleftrightarrow> x = Some v"
  by (auto simp: or_panic_def split: option.splits)

lemma ok_or_simps [simp]: "ok_or e None = Err e" "ok_or e (Some v) = Ok v"
  by (simp_all add: ok_or_def)

lemma or_panic_simps [simp]: "or_panic None = Panic" "or_panic (Some v) = Ok v"
  by (simp_all add: or_panic_def)

lemma omap_list_Ok_iff:
  "omap_list f xs = Ok ys \<longleftrightarrow> length ys = length xs \<and> (\<forall>i < length xs. f (xs ! i) = Ok (ys ! i))"
proof (induction xs arbitrary: ys)
  case Nil
  then show ?case by auto
next
  case (Cons x xs)
  show ?case
  proof (cases ys)
    case Nil
    then show ?thesis by simp
  next
    case (Cons y ys')
    then show ?thesis
      using Cons.IH [of ys'] by (auto simp: nth_Cons split: nat.splits)
  qed
qed

lemma omap_list_length: "omap_list f xs = Ok ys \<Longrightarrow> length ys = length xs"
  by (simp add: omap_list_Ok_iff)

lemma omap_list_all_Ok: "(\<And>x. x \<in> set xs \<Longrightarrow> f x = Ok (g x)) \<Longrightarrow> omap_list f xs = Ok (map g xs)"
  by (induction xs) auto

subsection \<open>Counters that do not wrap\<close>

lemma word_less_succ: "(b :: 'a::len word) + 1 \<noteq> 0 \<Longrightarrow> b < b + 1"
  by (simp add: word_less_nat_alt add.commute unatSuc)

lemma word_less_add_one: "(a :: 'a::len word) < b \<Longrightarrow> b + 1 \<noteq> 0 \<Longrightarrow> a < b + 1"
  by (blast intro: less_trans word_less_succ)

lemma word_pos_add_one: "(b :: 'a::len word) + 1 \<noteq> 0 \<Longrightarrow> 0 < b + 1"
  by (simp add: word_neq_0_conv)

subsection \<open>Slices\<close>

definition subslice :: "nat \<Rightarrow> nat \<Rightarrow> 'a list \<Rightarrow> 'a list" where
  "subslice a b xs = take (b - a) (drop a xs)"

definition overwrite :: "nat \<Rightarrow> 'a list \<Rightarrow> 'a list \<Rightarrow> 'a list" where
  "overwrite off new xs = take off xs @ new @ drop (off + length new) xs"

lemma length_subslice [simp]: "length (subslice a b xs) = min (b - a) (length xs - a)"
  by (simp add: subslice_def min.commute)

lemma length_overwrite [simp]: "off + length new \<le> length xs \<Longrightarrow> length (overwrite off new xs) = length xs"
  by (simp add: overwrite_def)

lemma nth_subslice: "i < b - a \<Longrightarrow> a + i < length xs \<Longrightarrow> subslice a b xs ! i = xs ! (a + i)"
  by (simp add: subslice_def)

lemma nth_overwrite:
  "off + length new \<le> length xs \<Longrightarrow> i < length xs \<Longrightarrow>
   overwrite off new xs ! i = (if off \<le> i \<and> i < off + length new then new ! (i - off) else xs ! i)"
  by (auto simp: overwrite_def nth_append min_def)

lemma overwrite_Nil [simp]: "overwrite off [] xs = xs"
  by (simp add: overwrite_def)

lemma overwrite_same:
  "a \<le> b \<Longrightarrow> b \<le> length xs \<Longrightarrow> overwrite a (subslice a b xs) xs = xs"
  by (auto simp: list_eq_iff_nth_eq nth_overwrite nth_subslice)

lemma subslice_append1 [slice_simps]: "b \<le> length xs \<Longrightarrow> subslice a b (xs @ ys) = subslice a b xs"
  by (cases "a \<le> b") (auto simp: subslice_def)

lemma subslice_append2 [slice_simps]:
  "length xs \<le> a \<Longrightarrow> subslice a b (xs @ ys) = subslice (a - length xs) (b - length xs) ys"
  by (auto simp: subslice_def)

lemma subslice_exact: "length xs = a \<Longrightarrow> length ys = n \<Longrightarrow> subslice a (a + n) (xs @ ys @ zs) = ys"
  by (simp add: subslice_def)

lemma subslice_whole [slice_simps]: "length xs \<le> n \<Longrightarrow> subslice 0 n xs = xs"
  by (simp add: subslice_def)

lemma subslice_subslice:
  "c \<le> d \<Longrightarrow> d \<le> b - a \<Longrightarrow> subslice c d (subslice a b xs) = subslice (a + c) (a + d) xs"
  by (simp add: subslice_def drop_take min_def add.commute)

subsection \<open>Little-endian byte strings\<close>

primrec to_le :: "nat \<Rightarrow> 'a::len word \<Rightarrow> bytes" where
  "to_le 0 w = []"
| "to_le (Suc n) w = (ucast w :: u8) # to_le n (drop_bit 8 w)"

primrec from_le :: "bytes \<Rightarrow> 'a::len word" where
  "from_le [] = 0"
| "from_le (b # bs) = ucast b OR push_bit 8 (from_le bs)"

abbreviation le_u16 :: "u16 \<Rightarrow> bytes" where "le_u16 \<equiv> to_le 2"
abbreviation le_u32 :: "u32 \<Rightarrow> bytes" where "le_u32 \<equiv> to_le 4"
abbreviation le_u64 :: "u64 \<Rightarrow> bytes" where "le_u64 \<equiv> to_le 8"

lemma length_to_le [simp, byte_simps]: "length (to_le n w) = n"
  by (induction n arbitrary: w) auto

lemma from_le_to_le_take: "from_le (to_le n w) = take_bit (8 * n) w"
proof (induction n arbitrary: w)
  case 0
  then show ?case by simp
next
  case (Suc n)
  show ?case
    by (rule bit_word_eqI) (auto simp: Suc.IH bit_simps not_less)
qed

lemma from_le_to_le: "LENGTH('a) \<le> 8 * n \<Longrightarrow> from_le (to_le n (w :: 'a::len word)) = w"
  by (simp add: from_le_to_le_take take_bit_word_eq_self)

lemma bit_from_le_Cons:
  "bit (from_le (b # bs) :: 'a::len word) i \<longleftrightarrow>
   i < LENGTH('a) \<and> (if i < 8 then bit b i else bit (from_le bs :: 'a word) (i - 8))"
  by (auto simp: bit_simps not_less not_le dest: bit_imp_le_length)

lemma ucast_from_le_Cons:
  "8 \<le> LENGTH('a) \<Longrightarrow> ucast (from_le (b # bs) :: 'a::len word) = b"
  by (rule bit_word_eqI) (simp add: bit_ucast_iff bit_from_le_Cons del: from_le.simps)

lemma drop_bit_from_le_Cons:
  "bit (drop_bit 8 (from_le (b # bs) :: 'a::len word)) i \<longleftrightarrow>
   i + 8 < LENGTH('a) \<and> bit (from_le bs :: 'a word) i"
  by (simp add: bit_drop_bit_eq bit_from_le_Cons add.commute del: from_le.simps)

lemma from_le_bound:
  "8 * length bs \<le> n \<Longrightarrow> n \<le> i \<Longrightarrow> \<not> bit (from_le bs :: 'a::len word) i"
proof (induction bs arbitrary: i n)
  case Nil
  then show ?case by simp
next
  case (Cons b bs)
  have "\<not> bit (from_le bs :: 'a word) (i - 8)"
    using Cons.prems by (intro Cons.IH [of "n - 8"]) auto
  with Cons.prems show ?case by (simp add: bit_from_le_Cons del: from_le.simps)
qed

lemma to_le_from_le:
  "length bs = n \<Longrightarrow> 8 * n \<le> LENGTH('a) \<Longrightarrow> to_le n (from_le bs :: 'a::len word) = bs"
proof (induction bs arbitrary: n)
  case Nil
  then show ?case by simp
next
  case (Cons b bs)
  then obtain m where n: "n = Suc m" and m: "length bs = m" by (cases n) auto
  have "drop_bit 8 (from_le (b # bs) :: 'a word) = from_le bs"
  proof (rule bit_word_eqI)
    fix i assume "i < LENGTH('a)"
    show "bit (drop_bit 8 (from_le (b # bs) :: 'a word)) i = bit (from_le bs :: 'a word) i"
      using from_le_bound [of bs "8 * m" i, where 'a='a] Cons.prems m n
      by (cases "8 * m \<le> i") (auto simp: drop_bit_from_le_Cons simp del: from_le.simps)
  qed
  then show ?case
    using Cons.prems Cons.IH [of m] m n ucast_from_le_Cons [of b bs, where 'a='a]
    by (simp del: from_le.simps)
qed

subsection \<open>The field codec interface\<close>

text \<open>
  What the writers and readers of the binary formats rely on: a field occupies a fixed number of
  bytes and reads back as the value that was written.
\<close>

locale byte_codec =
  fixes enc :: "'v \<Rightarrow> bytes" and dec :: "bytes \<Rightarrow> 'v" and width :: nat
  assumes enc_length [simp]: "length (enc v) = width"
    and dec_enc [simp]: "dec (enc v) = v"
begin

lemma enc_inj: "enc v = enc w \<longleftrightarrow> v = w"
  by (metis dec_enc)

lemma enc_append_inj: "enc v @ xs = enc w @ ys \<longleftrightarrow> v = w \<and> xs = ys"
  by (simp add: append_eq_append_conv enc_inj)

lemma dec_field: "length pre = a \<Longrightarrow> b = a + width \<Longrightarrow> dec (subslice a b (pre @ enc v @ post)) = v"
  by (simp add: subslice_def)

lemma dec_field_end: "length pre = a \<Longrightarrow> b = a + width \<Longrightarrow> dec (subslice a b (pre @ enc v)) = v"
  by (simp add: subslice_def)

lemma dec_overwrite:
  "a + width \<le> length xs \<Longrightarrow> b = a + width \<Longrightarrow> dec (subslice a b (overwrite a (enc v) xs)) = v"
  by (simp add: subslice_def overwrite_def)

end

interpretation u16_le: byte_codec le_u16 "from_le :: bytes \<Rightarrow> u16" 2
  by unfold_locales (simp_all add: from_le_to_le)

interpretation u32_le: byte_codec le_u32 "from_le :: bytes \<Rightarrow> u32" 4
  by unfold_locales (simp_all add: from_le_to_le)

interpretation u64_le: byte_codec le_u64 "from_le :: bytes \<Rightarrow> u64" 8
  by unfold_locales (simp_all add: from_le_to_le)

lemmas le_inject = u16_le.enc_inj u32_le.enc_inj u64_le.enc_inj

declare u16_le.dec_enc [byte_simps] u32_le.dec_enc [byte_simps] u64_le.dec_enc [byte_simps]

lemma map_filter_append: "List.map_filter f (xs @ ys) = List.map_filter f xs @ List.map_filter f ys"
  by (simp add: map_filter_def)

end
