(* ===== verification/Delta_Checkpoint.thy ===== *)
theory Delta_Checkpoint
  imports Prelude
begin

text \<open>
  The delta checkpoint tracker of \<^verbatim>\<open>zluda/src/impl/concordia_delta.rs\<close>: regions with a shadow copy
  (opaque host memory) or with a caller-supplied dirty bitmap (allocator memory), and the two
  operations that turn the current contents of a region into a list of dirty pages.
  Error strings are represented by one constructor per message, carrying what the message prints.
\<close>

subsection \<open>Data\<close>

record DirtyPage =
  page_region_id :: u64
  page_offset :: usize
  page_data :: bytes

record DeltaRecord =
  delta_epoch :: u64
  delta_region_id :: u64
  delta_base_addr :: u64
  delta_dirty_pages :: "DirtyPage list"

datatype RegionKind = OpaqueShadow | AllocatorBitmap

record TrackedRegion =
  region_ident :: u64
  region_base_addr :: u64
  region_len :: usize
  region_shadow :: "bytes option"
  region_kind :: RegionKind

record DeltaCheckpointState =
  page_size :: usize
  next_region_id :: u64
  next_epoch :: u64
  regions :: "TrackedRegion list"

datatype delta_error =
    UnknownRegion u64
  | NotOpaqueShadow u64
  | NotAllocatorBitmap u64
  | RegionSizeChanged u64 usize usize
  | NoShadowBuffer u64

definition DEFAULT_PAGE_SIZE :: usize where
  "DEFAULT_PAGE_SIZE = 4096"

subsection \<open>Operations\<close>

definition delta_state_new :: "usize \<Rightarrow> DeltaCheckpointState" where
  "delta_state_new ps =
     \<lparr>page_size = max ps 1, next_region_id = 1, next_epoch = 1, regions = []\<rparr>"

definition delta_state_default :: DeltaCheckpointState where
  "delta_state_default = delta_state_new DEFAULT_PAGE_SIZE"

definition register_opaque_host_region ::
    "DeltaCheckpointState \<Rightarrow> u64 \<Rightarrow> bytes \<Rightarrow> u64 \<times> DeltaCheckpointState" where
  "register_opaque_host_region st base_addr initial =
     (let id = next_region_id st
      in (id, st\<lparr>next_region_id := next_region_id st + 1,
                 regions := regions st @
                   [\<lparr>region_ident = id, region_base_addr = base_addr,
                     region_len = length initial, region_shadow = Some initial,
                     region_kind = OpaqueShadow\<rparr>]\<rparr>))"

definition register_allocator_bitmap_region ::
    "DeltaCheckpointState \<Rightarrow> u64 \<Rightarrow> usize \<Rightarrow> u64 \<times> DeltaCheckpointState" where
  "register_allocator_bitmap_region st base_addr len =
     (let id = next_region_id st
      in (id, st\<lparr>next_region_id := next_region_id st + 1,
                 regions := regions st @
                   [\<lparr>region_ident = id, region_base_addr = base_addr,
                     region_len = len, region_shadow = None,
                     region_kind = AllocatorBitmap\<rparr>]\<rparr>))"

definition find_region :: "u64 \<Rightarrow> TrackedRegion list \<Rightarrow> TrackedRegion option" where
  "find_region rid rs = List.find (\<lambda>r. region_ident r = rid) rs"

text \<open>Mutation through the reference that \<open>iter_mut().find(..)\<close> returns: the first match.\<close>

fun set_shadow :: "u64 \<Rightarrow> bytes \<Rightarrow> TrackedRegion list \<Rightarrow> TrackedRegion list" where
  "set_shadow rid s [] = []"
| "set_shadow rid s (r # rs) =
     (if region_ident r = rid then r\<lparr>region_shadow := Some s\<rparr> # rs else r # set_shadow rid s rs)"

definition div_ceil :: "nat \<Rightarrow> nat \<Rightarrow> nat" where
  "div_ceil a b = (if a mod b = 0 then a div b else a div b + 1)"

text \<open>The offsets of \<open>(0..len).step_by(page_size)\<close>.\<close>

definition page_offsets :: "usize \<Rightarrow> usize \<Rightarrow> usize list" where
  "page_offsets ps len = map (\<lambda>k. k * ps) [0..<div_ceil len ps]"

text \<open>The page loop of \<open>create_host_delta\<close>; an out-of-range shadow slice panics.\<close>

fun host_delta_loop ::
    "u64 \<Rightarrow> usize \<Rightarrow> bytes \<Rightarrow> usize list \<Rightarrow> bytes \<Rightarrow> (DirtyPage list \<times> bytes, delta_error) outcome" where
  "host_delta_loop rid ps current [] shadow = Ok ([], shadow)"
| "host_delta_loop rid ps current (off # offs) shadow =
     (let stop = min (off + ps) (length current)
      in if length shadow < stop then Panic
         else if subslice off stop current \<noteq> subslice off stop shadow then
           obind (host_delta_loop rid ps current offs (overwrite off (subslice off stop current) shadow))
             (\<lambda>(pages, shadow').
                Ok (\<lparr>page_region_id = rid, page_offset = off,
                     page_data = subslice off stop current\<rparr> # pages, shadow'))
         else host_delta_loop rid ps current offs shadow)"

definition create_host_delta ::
    "DeltaCheckpointState \<Rightarrow> u64 \<Rightarrow> bytes \<Rightarrow> (DeltaRecord \<times> DeltaCheckpointState, delta_error) outcome" where
  "create_host_delta st rid current =
     obind (ok_or (UnknownRegion rid) (find_region rid (regions st))) (\<lambda>region.
       if region_kind region \<noteq> OpaqueShadow then Err (NotOpaqueShadow rid)
       else if region_len region \<noteq> length current then
         Err (RegionSizeChanged rid (region_len region) (length current))
       else obind (ok_or (NoShadowBuffer rid) (region_shadow region)) (\<lambda>shadow.
         obind (host_delta_loop rid (page_size st) current
                  (page_offsets (page_size st) (length current)) shadow) (\<lambda>(pages, shadow').
           Ok (\<lparr>delta_epoch = next_epoch st, delta_region_id = rid,
                delta_base_addr = region_base_addr region, delta_dirty_pages = pages\<rparr>,
               st\<lparr>next_epoch := next_epoch st + 1,
                  regions := set_shadow rid shadow' (regions st)\<rparr>))))"

definition bitmap_bit :: "bytes \<Rightarrow> nat \<Rightarrow> bool" where
  "bitmap_bit bitmap i =
     (let byte = (if i div 8 < length bitmap then bitmap ! (i div 8) else 0)
      in byte AND push_bit (i mod 8) 1 \<noteq> 0)"

definition create_bitmap_delta ::
    "DeltaCheckpointState \<Rightarrow> u64 \<Rightarrow> bytes \<Rightarrow> bytes \<Rightarrow>
     (DeltaRecord \<times> DeltaCheckpointState, delta_error) outcome" where
  "create_bitmap_delta st rid current dirty_bitmap =
     obind (ok_or (UnknownRegion rid) (find_region rid (regions st))) (\<lambda>region.
       if region_kind region \<noteq> AllocatorBitmap then Err (NotAllocatorBitmap rid)
       else if region_len region \<noteq> length current then
         Err (RegionSizeChanged rid (region_len region) (length current))
       else
         let page_count = div_ceil (length current) (page_size st);
             pages = map (\<lambda>i. let off = i * page_size st;
                                  stop = min (off + page_size st) (length current)
                              in \<lparr>page_region_id = rid, page_offset = off,
                                  page_data = subslice off stop current\<rparr>)
                         (filter (bitmap_bit dirty_bitmap) [0..<page_count])
         in Ok (\<lparr>delta_epoch = next_epoch st, delta_region_id = rid,
                 delta_base_addr = region_base_addr region, delta_dirty_pages = pages\<rparr>,
                st\<lparr>next_epoch := next_epoch st + 1\<rparr>))"

definition refresh_opaque_shadow ::
    "DeltaCheckpointState \<Rightarrow> u64 \<Rightarrow> bytes \<Rightarrow> (DeltaCheckpointState, delta_error) outcome" where
  "refresh_opaque_shadow st rid current =
     obind (ok_or (UnknownRegion rid) (find_region rid (regions st))) (\<lambda>region.
       if region_kind region \<noteq> OpaqueShadow then Err (NotOpaqueShadow rid)
       else if region_len region \<noteq> length current then
         Err (RegionSizeChanged rid (region_len region) (length current))
       else obind (ok_or (NoShadowBuffer rid) (region_shadow region)) (\<lambda>shadow.
         if length shadow \<noteq> length current then Panic
         else Ok (st\<lparr>regions := set_shadow rid current (regions st)\<rparr>)))"


subsection \<open>Well-formed states\<close>

definition region_ok :: "TrackedRegion \<Rightarrow> bool" where
  "region_ok r \<longleftrightarrow>
     (case region_kind r of
        OpaqueShadow \<Rightarrow> \<exists>s. region_shadow r = Some s \<and> length s = region_len r
      | AllocatorBitmap \<Rightarrow> region_shadow r = None)"

definition wf_delta_state :: "DeltaCheckpointState \<Rightarrow> bool" where
  "wf_delta_state st \<longleftrightarrow>
     0 < page_size st \<and> 0 < next_region_id st \<and> distinct (map region_ident (regions st)) \<and>
     (\<forall>r \<in> set (regions st). region_ok r \<and> 0 < region_ident r \<and> region_ident r < next_region_id st)"

text \<open>The bytes the tracker believes a shadowed region to hold.\<close>

definition shadow_of :: "DeltaCheckpointState \<Rightarrow> u64 \<Rightarrow> bytes option" where
  "shadow_of st rid =
     (case find_region rid (regions st) of None \<Rightarrow> None | Some r \<Rightarrow> region_shadow r)"

text \<open>What replaying the dirty pages of a delta, in order, does to a buffer.\<close>

definition apply_pages :: "DirtyPage list \<Rightarrow> bytes \<Rightarrow> bytes" where
  "apply_pages pages target =
     foldl (\<lambda>t p. overwrite (page_offset p) (page_data p) t) target pages"

definition page_at :: "u64 \<Rightarrow> usize \<Rightarrow> bytes \<Rightarrow> usize \<Rightarrow> DirtyPage" where
  "page_at rid ps current off =
     \<lparr>page_region_id = rid, page_offset = off,
      page_data = subslice off (min (off + ps) (length current)) current\<rparr>"

definition page_differs :: "usize \<Rightarrow> bytes \<Rightarrow> bytes \<Rightarrow> usize \<Rightarrow> bool" where
  "page_differs ps current shadow off \<longleftrightarrow>
     subslice off (min (off + ps) (length current)) current \<noteq>
     subslice off (min (off + ps) (length current)) shadow"

subsection \<open>Page arithmetic\<close>

lemma div_ceil_covers: "0 < b \<Longrightarrow> a \<le> div_ceil a b * b"
proof (cases "a mod b = 0")
  case True
  then show ?thesis using div_mult_mod_eq [of a b] by (simp add: div_ceil_def)
next
  case False
  assume "0 < b"
  then have "a mod b < b" by simp
  moreover have "div_ceil a b * b = a div b * b + b" using False by (simp add: div_ceil_def)
  ultimately show ?thesis using div_mult_mod_eq [of a b] by linarith
qed

lemma div_ceil_lt: "0 < b \<Longrightarrow> k < div_ceil a b \<Longrightarrow> k * b < a"
proof -
  assume b: "0 < b" and k: "k < div_ceil a b"
  have a: "a = a div b * b + a mod b" by simp
  show "k * b < a"
  proof (cases "a mod b = 0")
    case True
    with k a have "k < a div b" by (simp add: div_ceil_def)
    then have "k * b < a div b * b" using b by simp
    with a True show ?thesis by simp
  next
    case False
    with k have "k \<le> a div b" by (simp add: div_ceil_def)
    then have "k * b \<le> a div b * b" by simp
    with a False show ?thesis by linarith
  qed
qed

lemma page_offsets_sorted: "sorted_wrt (\<lambda>a b. a + ps \<le> b) (page_offsets ps len)"
  unfolding page_offsets_def sorted_wrt_map
proof (rule sorted_wrt_mono_rel [where P = "(<)"])
  fix x y :: nat assume "x < y"
  then have "Suc x * ps \<le> y * ps" by (intro mult_right_mono) simp_all
  then show "x * ps + ps \<le> y * ps" by simp
qed simp

lemma page_offsets_lt: "0 < ps \<Longrightarrow> off \<in> set (page_offsets ps len) \<Longrightarrow> off < len"
  by (auto simp: page_offsets_def div_ceil_lt)

lemma subslice_overwrite_after [slice_simps]:
  "off + length new \<le> a \<Longrightarrow> off \<le> length xs \<Longrightarrow> subslice a b (overwrite off new xs) = subslice a b xs"
  by (auto simp: subslice_def overwrite_def)

lemma take_overwrite:
  "off + length new \<le> length xs \<Longrightarrow> take (off + length new) (overwrite off new xs) = take off xs @ new"
  by (simp add: overwrite_def)

lemma take_extend: "o1 \<le> e \<Longrightarrow> take e xs = take o1 xs @ subslice o1 e xs"
  by (simp add: subslice_def flip: take_add)

lemma apply_pages_simps [simp]:
  "apply_pages [] t = t"
  "apply_pages (p # ps) t = apply_pages ps (overwrite (page_offset p) (page_data p) t)"
  by (simp_all add: apply_pages_def)

subsection \<open>The page loop computes the reference delta\<close>

definition delta_pages :: "u64 \<Rightarrow> usize \<Rightarrow> bytes \<Rightarrow> bytes \<Rightarrow> usize list \<Rightarrow> DirtyPage list" where
  "delta_pages rid ps current shadow offs =
     map (page_at rid ps current) (filter (page_differs ps current shadow) offs)"

lemma page_differs_overwrite:
  assumes "off < length current" "length shadow = length current" "off + ps \<le> b"
  shows "page_differs ps current
           (overwrite off (subslice off (min (off + ps) (length current)) current) shadow) b =
         page_differs ps current shadow b"
  using assms by (simp add: page_differs_def slice_simps)

lemma host_delta_loop_eq:
  assumes "length shadow = length current" "sorted_wrt (\<lambda>a b. a + ps \<le> b) offs"
    "\<And>off. off \<in> set offs \<Longrightarrow> off < length current"
  shows "host_delta_loop rid ps current offs shadow =
         Ok (delta_pages rid ps current shadow offs,
             apply_pages (delta_pages rid ps current shadow offs) shadow)"
  using assms
proof (induction offs arbitrary: shadow)
  case Nil
  then show ?case by (simp add: delta_pages_def)
next
  case (Cons off offs)
  let ?stop = "min (off + ps) (length current)"
  let ?shadow = "overwrite off (subslice off ?stop current) shadow"
  have off: "off < length current" and stop: "?stop \<le> length shadow" using Cons.prems by auto
  show ?case
  proof (cases "page_differs ps current shadow off")
    case False
    with Cons stop show ?thesis by (simp add: page_differs_def delta_pages_def)
  next
    case True
    have len: "length ?shadow = length current" using off Cons.prems(1) by simp
    have "filter (page_differs ps current ?shadow) offs = filter (page_differs ps current shadow) offs"
      using Cons.prems off by (intro filter_cong page_differs_overwrite) auto
    with Cons.IH [of ?shadow] len Cons.prems stop True show ?thesis
      by (simp add: page_differs_def page_at_def delta_pages_def Let_def)
  qed
qed

text \<open>
  Writing back any selection of pages that contains every differing page turns the old contents
  into the current ones.
\<close>

lemma apply_marked_pages_from:
  assumes "length old = length current" "k \<le> n" "length current \<le> n * ps"
    "take (k * ps) old = take (k * ps) current" "\<And>j. j < n \<Longrightarrow> j * ps < length current"
    "\<And>j. k \<le> j \<Longrightarrow> j < n \<Longrightarrow> page_differs ps current old (j * ps) \<Longrightarrow> P (j * ps)"
  shows "apply_pages (map (page_at rid ps current) (filter P (map (\<lambda>k. k * ps) [k..<n]))) old = current"
  using assms
proof (induction "n - k" arbitrary: k old)
  case 0
  then have "k = n" by simp
  with "0.prems"(1,3,4) show ?case by simp
next
  case (Suc m)
  have k: "k < n" using Suc.hyps(2) by simp
  then have split: "[k..<n] = k # [Suc k..<n]" by (simp add: upt_rec)
  let ?off = "k * ps"
  let ?stop = "min (?off + ps) (length current)"
  let ?new = "overwrite ?off (subslice ?off ?stop current) old"
  have off: "?off < length current" using Suc.prems(5) k .
  have next_off: "Suc k * ps = ?off + ps" by simp
  have extend: "take (Suc k * ps) s = take (Suc k * ps) current"
    if "length s = length current" "take ?off s = take ?off current"
      "subslice ?off ?stop s = subslice ?off ?stop current" for s
  proof -
    have "take ?stop s = take ?stop current"
      using that off by (simp add: take_extend [of ?off ?stop])
    with that(1) show ?thesis
      unfolding next_off by (cases "?off + ps \<le> length current") (simp_all add: min_def)
  qed
  have m: "m = n - Suc k" "Suc k \<le> n" using Suc.hyps(2) k by simp_all
  show ?case
  proof (cases "P ?off")
    case True
    have len: "length ?new = length current" using off Suc.prems(1) by simp
    have agree: "take (Suc k * ps) ?new = take (Suc k * ps) current"
      using off Suc.prems(1,4) by (intro extend) (simp_all add: overwrite_def subslice_def)
    have marked: "P (j * ps)" if "Suc k \<le> j" "j < n" "page_differs ps current ?new (j * ps)" for j
    proof -
      have "Suc k * ps \<le> j * ps" using that(1) by (rule mult_right_mono) simp
      then have "page_differs ps current old (j * ps)"
        using that(3) off Suc.prems(1) page_differs_overwrite [of ?off current old ps "j * ps"] by simp
      then show ?thesis by (rule Suc.prems(6) [OF Suc_leD [OF that(1)] that(2)])
    qed
    have "apply_pages (map (page_at rid ps current)
        (filter P (map (\<lambda>k. k * ps) [Suc k..<n]))) ?new = current"
      by (rule Suc.hyps(1) [OF m(1) len m(2) Suc.prems(3) agree Suc.prems(5) marked])
    with True show ?thesis by (simp add: split page_at_def)
  next
    case False
    then have "\<not> page_differs ps current old ?off" using Suc.prems(6) [OF order_refl k] by blast
    then have "subslice ?off ?stop old = subslice ?off ?stop current" by (simp add: page_differs_def)
    then have agree: "take (Suc k * ps) old = take (Suc k * ps) current"
      using Suc.prems(1,4) by (intro extend)
    have "apply_pages (map (page_at rid ps current)
        (filter P (map (\<lambda>k. k * ps) [Suc k..<n]))) old = current"
      by (rule Suc.hyps(1) [OF m(1) Suc.prems(1) m(2) Suc.prems(3) agree Suc.prems(5)])
        (assumption | rule Suc.prems(6) [OF Suc_leD])+
    with False show ?thesis by (simp add: split)
  qed
qed

lemma apply_marked_pages:
  assumes "length old = length current" "0 < ps"
    "\<And>off. off \<in> set (page_offsets ps (length current)) \<Longrightarrow> page_differs ps current old off \<Longrightarrow> P off"
  shows "apply_pages (map (page_at rid ps current)
           (filter P (page_offsets ps (length current)))) old = current"
  unfolding page_offsets_def
proof (rule apply_marked_pages_from [OF assms(1) _ div_ceil_covers [OF assms(2)] _
      div_ceil_lt [OF assms(2)]])
  fix j assume "j < div_ceil (length current) ps" "page_differs ps current old (j * ps)"
  then show "P (j * ps)" by (intro assms(3)) (auto simp: page_offsets_def)
qed simp_all

lemma delta_pages_apply:
  "length shadow = length current \<Longrightarrow> 0 < ps \<Longrightarrow>
   apply_pages (delta_pages rid ps current shadow (page_offsets ps (length current))) shadow = current"
  unfolding delta_pages_def by (rule apply_marked_pages)

lemma host_delta_loop_correct:
  assumes "length shadow = length current" "0 < ps"
  shows "host_delta_loop rid ps current (page_offsets ps (length current)) shadow =
    Ok (delta_pages rid ps current shadow (page_offsets ps (length current)), current)"
  using host_delta_loop_eq [OF assms(1) page_offsets_sorted page_offsets_lt [OF assms(2)], where rid = rid]
  by (simp only: delta_pages_apply [OF assms])

subsection \<open>Region lookup and update\<close>

lemma find_region_Some:
  "find_region rid rs = Some r \<Longrightarrow> r \<in> set rs \<and> region_ident r = rid"
  by (auto simp: find_region_def find_Some_iff)

lemma find_region_append:
  "find_region rid (rs @ [r]) =
   (case find_region rid rs of None \<Rightarrow> (if region_ident r = rid then Some r else None) | Some q \<Rightarrow> Some q)"
  by (induction rs) (auto simp: find_region_def)

lemma find_region_set_shadow:
  "find_region i (set_shadow rid s rs) =
   (if i = rid then map_option (\<lambda>r. r\<lparr>region_shadow := Some s\<rparr>) (find_region i rs) else find_region i rs)"
  by (induction rs) (auto simp: find_region_def)

lemma map_ident_set_shadow [simp]: "map region_ident (set_shadow rid s rs) = map region_ident rs"
  by (induction rs) auto

lemma set_shadow_cases:
  assumes "r \<in> set (set_shadow rid s rs)"
  shows "r \<in> set rs \<or> (\<exists>q. find_region rid rs = Some q \<and> r = q\<lparr>region_shadow := Some s\<rparr>)"
  using assms
proof (induction rs)
  case Nil
  then show ?case by simp
next
  case (Cons a rs)
  then show ?case by (cases "region_ident a = rid") (auto simp: find_region_def)
qed

lemma region_ok_opaque:
  "region_ok r \<Longrightarrow> region_kind r = OpaqueShadow \<Longrightarrow> \<exists>s. region_shadow r = Some s \<and> length s = region_len r"
  by (simp add: region_ok_def)

lemma wf_set_shadow:
  assumes "wf_delta_state st" "find_region rid (regions st) = Some q"
    "region_kind q = OpaqueShadow" "length s = region_len q"
  shows "wf_delta_state (st\<lparr>regions := set_shadow rid s (regions st)\<rparr>)"
  using assms find_region_Some [OF assms(2)]
  by (auto simp: wf_delta_state_def region_ok_def dest!: set_shadow_cases)

subsection \<open>Every operation keeps a state well-formed\<close>

lemma wf_delta_state_new: "wf_delta_state (delta_state_new ps)"
  by (simp add: wf_delta_state_def delta_state_new_def)

lemma wf_register_opaque:
  assumes "wf_delta_state st" "next_region_id st + 1 \<noteq> 0"
  shows "wf_delta_state (snd (register_opaque_host_region st base initial))"
  using assms
  by (auto simp: wf_delta_state_def register_opaque_host_region_def region_ok_def Let_def
      word_less_add_one word_pos_add_one word_less_succ)

lemma wf_register_bitmap:
  assumes "wf_delta_state st" "next_region_id st + 1 \<noteq> 0"
  shows "wf_delta_state (snd (register_allocator_bitmap_region st base len))"
  using assms
  by (auto simp: wf_delta_state_def register_allocator_bitmap_region_def region_ok_def Let_def
      word_less_add_one word_pos_add_one word_less_succ)

lemma wf_bump_epoch [simp]: "wf_delta_state (st\<lparr>next_epoch := e\<rparr>) = wf_delta_state st"
  by (simp add: wf_delta_state_def)


subsection \<open>Host deltas\<close>

lemma shadow_of_opaque:
  assumes "wf_delta_state st" "find_region rid (regions st) = Some r" "region_kind r = OpaqueShadow"
  obtains s where "region_shadow r = Some s" "length s = region_len r" "shadow_of st rid = Some s"
  using assms find_region_Some [OF assms(2)]
  by (auto simp: wf_delta_state_def shadow_of_def dest!: region_ok_opaque)

lemma create_host_delta_eq:
  assumes "wf_delta_state st" "find_region rid (regions st) = Some r" "region_kind r = OpaqueShadow"
    "region_len r = length current" "shadow_of st rid = Some shadow"
  shows "create_host_delta st rid current =
    Ok (\<lparr>delta_epoch = next_epoch st, delta_region_id = rid, delta_base_addr = region_base_addr r,
         delta_dirty_pages = delta_pages rid (page_size st) current shadow
           (page_offsets (page_size st) (length current))\<rparr>,
        st\<lparr>next_epoch := next_epoch st + 1, regions := set_shadow rid current (regions st)\<rparr>)"
proof -
  obtain s where s: "region_shadow r = Some s" "length s = region_len r" "shadow_of st rid = Some s"
    using shadow_of_opaque [OF assms(1-3)] .
  with assms host_delta_loop_correct [of shadow current "page_size st" rid]
  show ?thesis by (simp add: create_host_delta_def wf_delta_state_def)
qed

lemma create_host_delta_OkD:
  assumes "wf_delta_state st" "create_host_delta st rid current = Ok (d, st')"
  obtains r shadow where "find_region rid (regions st) = Some r" "region_kind r = OpaqueShadow"
    "region_len r = length current" "shadow_of st rid = Some shadow" "length shadow = length current"
    "d = \<lparr>delta_epoch = next_epoch st, delta_region_id = rid, delta_base_addr = region_base_addr r,
         delta_dirty_pages = delta_pages rid (page_size st) current shadow
           (page_offsets (page_size st) (length current))\<rparr>"
    "st' = st\<lparr>next_epoch := next_epoch st + 1, regions := set_shadow rid current (regions st)\<rparr>"
proof -
  from assms(2) obtain r where r: "find_region rid (regions st) = Some r" "region_kind r = OpaqueShadow"
    "region_len r = length current"
    by (auto simp: create_host_delta_def split: if_splits)
  moreover obtain s where "length s = region_len r" "shadow_of st rid = Some s"
    using shadow_of_opaque [OF assms(1) r(1,2)] .
  ultimately show thesis
    using that create_host_delta_eq [OF assms(1) r(1,2,3), of s] assms(2) by simp
qed

lemma shadow_of_set_shadow:
  "shadow_of (st\<lparr>next_epoch := e, regions := set_shadow rid s (regions st)\<rparr>) i =
   (if i = rid then map_option (\<lambda>_. s) (find_region rid (regions st)) else shadow_of st i)"
  by (auto simp: shadow_of_def find_region_set_shadow split: option.splits)

lemma wf_create_host_delta:
  assumes "wf_delta_state st" "create_host_delta st rid current = Ok (d, st')"
  shows "wf_delta_state st'"
proof -
  from assms obtain r where r: "find_region rid (regions st) = Some r" "region_kind r = OpaqueShadow"
    "region_len r = length current"
    and st': "st' = st\<lparr>next_epoch := next_epoch st + 1, regions := set_shadow rid current (regions st)\<rparr>"
    by (rule create_host_delta_OkD)
  have "wf_delta_state ((st\<lparr>next_epoch := next_epoch st + 1\<rparr>)\<lparr>regions := set_shadow rid current (regions st)\<rparr>)"
    using wf_set_shadow [of "st\<lparr>next_epoch := next_epoch st + 1\<rparr>" rid r current] assms(1) r by simp
  then show ?thesis by (simp add: st')
qed

lemma create_host_delta_no_panic: "wf_delta_state st \<Longrightarrow> create_host_delta st rid current \<noteq> Panic"
proof
  assume wf: "wf_delta_state st" and panic: "create_host_delta st rid current = Panic"
  then obtain r where r: "find_region rid (regions st) = Some r" "region_kind r = OpaqueShadow"
    "region_len r = length current"
    by (cases "find_region rid (regions st)") (auto simp: create_host_delta_def split: if_splits)
  obtain s where "shadow_of st rid = Some s" using shadow_of_opaque [OF wf r(1,2)] .
  from create_host_delta_eq [OF wf r this] panic show False by simp
qed


subsection \<open>Bitmap deltas and shadow refresh\<close>

definition bitmap_pages :: "u64 \<Rightarrow> usize \<Rightarrow> bytes \<Rightarrow> bytes \<Rightarrow> DirtyPage list" where
  "bitmap_pages rid ps current bitmap =
     map (page_at rid ps current)
       (filter (\<lambda>off. bitmap_bit bitmap (off div ps)) (page_offsets ps (length current)))"

lemma bitmap_pages_alt:
  "0 < ps \<Longrightarrow>
   bitmap_pages rid ps current bitmap =
   map (\<lambda>i. page_at rid ps current (i * ps)) (filter (bitmap_bit bitmap) [0..<div_ceil (length current) ps])"
  by (simp add: bitmap_pages_def page_offsets_def filter_map comp_def)

lemma create_bitmap_delta_OkD:
  assumes "wf_delta_state st" "create_bitmap_delta st rid current bitmap = Ok (d, st')"
  shows "delta_dirty_pages d = bitmap_pages rid (page_size st) current bitmap"
    and "delta_epoch d = next_epoch st" "delta_region_id d = rid"
    and "st' = st\<lparr>next_epoch := next_epoch st + 1\<rparr>"
  using assms
  by (auto simp: create_bitmap_delta_def bitmap_pages_alt page_at_def wf_delta_state_def Let_def
      split: if_splits)

lemma wf_create_bitmap_delta:
  "wf_delta_state st \<Longrightarrow> create_bitmap_delta st rid current bitmap = Ok (d, st') \<Longrightarrow> wf_delta_state st'"
  by (frule (1) create_bitmap_delta_OkD(4)) simp

lemma refresh_opaque_shadow_OkD:
  assumes "refresh_opaque_shadow st rid current = Ok st'"
  obtains r where "find_region rid (regions st) = Some r" "region_kind r = OpaqueShadow"
    "region_len r = length current" "st' = st\<lparr>regions := set_shadow rid current (regions st)\<rparr>"
  using assms by (auto simp: refresh_opaque_shadow_def split: if_splits)

lemma wf_refresh_opaque_shadow:
  assumes "wf_delta_state st" "refresh_opaque_shadow st rid current = Ok st'"
  shows "wf_delta_state st'"
  using assms(2) by (rule refresh_opaque_shadow_OkD) (use assms(1) wf_set_shadow in auto)

lemma shadow_of_refresh:
  assumes "refresh_opaque_shadow st rid current = Ok st'"
  shows "shadow_of st' i = (if i = rid then Some current else shadow_of st i)"
  using assms
  by (rule refresh_opaque_shadow_OkD) (auto simp: shadow_of_def find_region_set_shadow)

subsection \<open>Reachable states\<close>

text \<open>
  The states a tracker with page size \<open>ps\<close> can be in after at most \<open>n\<close> operations. Region ids are
  64-bit counters, so the count bounds how far they have advanced.
\<close>

inductive delta_reach :: "usize \<Rightarrow> nat \<Rightarrow> DeltaCheckpointState \<Rightarrow> bool" for ps where
  reach_new: "delta_reach ps 0 (delta_state_new ps)"
| reach_opaque: "delta_reach ps n st \<Longrightarrow>
    delta_reach ps (Suc n) (snd (register_opaque_host_region st base initial))"
| reach_bitmap: "delta_reach ps n st \<Longrightarrow>
    delta_reach ps (Suc n) (snd (register_allocator_bitmap_region st base len))"
| reach_host_delta: "delta_reach ps n st \<Longrightarrow> create_host_delta st rid current = Ok (d, st') \<Longrightarrow>
    delta_reach ps (Suc n) st'"
| reach_bitmap_delta: "delta_reach ps n st \<Longrightarrow> create_bitmap_delta st rid current bitmap = Ok (d, st') \<Longrightarrow>
    delta_reach ps (Suc n) st'"
| reach_refresh: "delta_reach ps n st \<Longrightarrow> refresh_opaque_shadow st rid current = Ok st' \<Longrightarrow>
    delta_reach ps (Suc n) st'"

lemma next_region_id_unchanged:
  "create_host_delta st rid current = Ok (d, st') \<Longrightarrow> next_region_id st' = next_region_id st"
  "create_bitmap_delta st rid current bitmap = Ok (d, st') \<Longrightarrow> next_region_id st' = next_region_id st"
  "refresh_opaque_shadow st rid current = Ok st' \<Longrightarrow> next_region_id st' = next_region_id st"
  by (auto simp: create_host_delta_def create_bitmap_delta_def refresh_opaque_shadow_def Let_def
      split: if_splits)

lemma next_region_id_register:
  "next_region_id (snd (register_opaque_host_region st base initial)) = next_region_id st + 1"
  "next_region_id (snd (register_allocator_bitmap_region st base len)) = next_region_id st + 1"
  by (simp_all add: register_opaque_host_region_def register_allocator_bitmap_region_def Let_def)

lemma word_bounded_succ:
  assumes "unat (w :: u64) \<le> Suc n" "Suc n < 2 ^ 64 - 1"
  shows "w + 1 \<noteq> 0 \<and> unat (w + 1) \<le> Suc (Suc n)"
proof -
  have "unat w + 1 < 2 ^ 64" using assms by simp
  then have "unat (w + 1) = unat w + 1" by (simp add: unat_word_ariths)
  with assms(1) show ?thesis by (metis Suc_eq_plus1 Suc_le_mono nat.distinct(1) unat_0)
qed

lemma delta_reach_bound:
  assumes "delta_reach ps n st" "n < 2 ^ 64 - 1"
  shows "wf_delta_state st \<and> unat (next_region_id st) \<le> Suc n"
  using assms
proof (induction rule: delta_reach.induct)
  case reach_new
  then show ?case by (simp add: wf_delta_state_new) (simp add: delta_state_new_def)
next
  case (reach_opaque n st base initial)
  then show ?case
    using word_bounded_succ [of "next_region_id st" n]
    by (simp add: wf_register_opaque next_region_id_register)
next
  case (reach_bitmap n st base len)
  then show ?case
    using word_bounded_succ [of "next_region_id st" n]
    by (simp add: wf_register_bitmap next_region_id_register)
next
  case (reach_host_delta n st rid current d st')
  then show ?case using wf_create_host_delta next_region_id_unchanged(1) by fastforce
next
  case (reach_bitmap_delta n st rid current bitmap d st')
  then show ?case using wf_create_bitmap_delta next_region_id_unchanged(2) by fastforce
next
  case (reach_refresh n st rid current st')
  then show ?case using wf_refresh_opaque_shadow next_region_id_unchanged(3) by fastforce
qed


subsection \<open>A concrete tracker for the witnesses\<close>

abbreviation example_tracker :: DeltaCheckpointState where
  "example_tracker \<equiv> snd (register_opaque_host_region (delta_state_new 2) 0x1000 [1, 2, 3])"

abbreviation example_delta :: DeltaRecord where
  "example_delta \<equiv>
     \<lparr>delta_epoch = 1, delta_region_id = 1, delta_base_addr = 0x1000,
      delta_dirty_pages = [\<lparr>page_region_id = 1, page_offset = 2, page_data = [9]\<rparr>]\<rparr>"

abbreviation example_tracker' :: DeltaCheckpointState where
  "example_tracker' \<equiv>
     \<lparr>page_size = 2, next_region_id = 2, next_epoch = 2,
      regions = [\<lparr>region_ident = 1, region_base_addr = 0x1000, region_len = 3,
                  region_shadow = Some [1, 2, 9], region_kind = OpaqueShadow\<rparr>]\<rparr>"

lemma example_tracker_delta: "create_host_delta example_tracker 1 [1, 2, 9] = Ok (example_delta, example_tracker')"
  by code_simp

lemma example_tracker_wf: "wf_delta_state example_tracker"
  by (rule wf_register_opaque [OF wf_delta_state_new]) (simp add: delta_state_new_def)

lemma example_tracker_shadow: "shadow_of example_tracker 1 = Some [1, 2, 3]"
  by code_simp

subsection \<open>Properties of the tracker\<close>

text \<open>
  C16. A successful host delta is complete and local: replaying its dirty pages onto the bytes the
  tracker held before gives exactly the current bytes, the tracker now holds the current bytes,
  no other region's shadow changed, and the delta carries the epoch the tracker was at.
\<close>

theorem create_host_delta_complete:
  assumes "wf_delta_state st" "create_host_delta st rid current = Ok (d, st')"
  shows "\<exists>old. shadow_of st rid = Some old \<and> apply_pages (delta_dirty_pages d) old = current \<and>
           shadow_of st' rid = Some current \<and> (\<forall>i. i = rid \<or> shadow_of st' i = shadow_of st i) \<and>
           delta_epoch d = next_epoch st \<and> wf_delta_state st'"
  using assms
proof (rule create_host_delta_OkD)
  fix r shadow
  assume r: "find_region rid (regions st) = Some r" and shadow: "shadow_of st rid = Some shadow"
    and len: "length shadow = length current"
    and d: "d = \<lparr>delta_epoch = next_epoch st, delta_region_id = rid, delta_base_addr = region_base_addr r,
         delta_dirty_pages = delta_pages rid (page_size st) current shadow
           (page_offsets (page_size st) (length current))\<rparr>"
    and st': "st' = st\<lparr>next_epoch := next_epoch st + 1, regions := set_shadow rid current (regions st)\<rparr>"
  have "0 < page_size st" using assms(1) by (simp add: wf_delta_state_def)
  with len have "apply_pages (delta_dirty_pages d) shadow = current"
    by (simp add: d delta_pages_apply)
  moreover have "wf_delta_state st'" using assms by (rule wf_create_host_delta)
  ultimately show ?thesis
    using r shadow by (simp add: d st' shadow_of_set_shadow)
qed

theorem create_host_delta_complete_witness:
  "create_host_delta example_tracker 1 [1, 2, 9] = Ok (example_delta, example_tracker') \<and>
   shadow_of example_tracker' 1 = Some [1, 2, 9]"
  using create_host_delta_complete [OF example_tracker_wf example_tracker_delta] example_tracker_delta
  by blast

text \<open>
  C10. The in-place page loop of \<open>create_host_delta\<close> computes the reference delta: the pages in
  address order whose bytes differ from the shadow, each with its current bytes, and nothing else.
\<close>

theorem create_host_delta_exact:
  assumes "wf_delta_state st" "create_host_delta st rid current = Ok (d, st')"
    "shadow_of st rid = Some old"
  shows "delta_dirty_pages d =
    map (page_at rid (page_size st) current)
      (filter (page_differs (page_size st) current old) (page_offsets (page_size st) (length current)))"
  using assms(1,2) by (rule create_host_delta_OkD) (use assms(3) in \<open>simp add: delta_pages_def\<close>)

theorem create_host_delta_exact_witness:
  "delta_dirty_pages example_delta =
     map (page_at 1 (page_size example_tracker) [1, 2, 9])
       (filter (page_differs (page_size example_tracker) [1, 2, 9] [1, 2, 3])
          (page_offsets (page_size example_tracker) (length [1, 2, 9 :: u8])))"
  using create_host_delta_exact [OF example_tracker_wf example_tracker_delta example_tracker_shadow] .

text \<open>
  C17. A bitmap delta is complete whenever the allocator marked at least the pages that changed
  since the bytes \<open>old\<close>: replaying it onto \<open>old\<close> gives the current bytes.
\<close>

theorem create_bitmap_delta_complete:
  assumes "wf_delta_state st" "create_bitmap_delta st rid current bitmap = Ok (d, st')"
    "length old = length current"
    "\<forall>off \<in> set (page_offsets (page_size st) (length current)).
       page_differs (page_size st) current old off \<longrightarrow> bitmap_bit bitmap (off div page_size st)"
  shows "apply_pages (delta_dirty_pages d) old = current \<and> wf_delta_state st'"
proof -
  have "0 < page_size st" using assms(1) by (simp add: wf_delta_state_def)
  moreover have "delta_dirty_pages d = bitmap_pages rid (page_size st) current bitmap"
    by (rule create_bitmap_delta_OkD(1) [OF assms(1,2)])
  ultimately have "apply_pages (delta_dirty_pages d) old = current"
    using assms(3,4) by (simp add: bitmap_pages_def apply_marked_pages)
  with wf_create_bitmap_delta [OF assms(1,2)] show ?thesis by simp
qed

theorem create_bitmap_delta_complete_witness:
  "\<exists>d st'. create_bitmap_delta (snd (register_allocator_bitmap_region (delta_state_new 2) 0x8000 3))
       1 [1, 2, 9] [2] = Ok (d, st') \<and> apply_pages (delta_dirty_pages d) [1, 2, 3] = [1, 2, 9]"
proof -
  let ?st = "snd (register_allocator_bitmap_region (delta_state_new 2) 0x8000 3)"
  have wf: "wf_delta_state ?st"
    by (rule wf_register_bitmap [OF wf_delta_state_new]) (simp add: delta_state_new_def)
  have "case create_bitmap_delta ?st 1 [1, 2, 9] [2] of Ok x \<Rightarrow> True | _ \<Rightarrow> False" by code_simp
  then obtain d st' where ok: "create_bitmap_delta ?st 1 [1, 2, 9] [2] = Ok (d, st')"
    by (auto split: outcome.splits)
  have "\<forall>off \<in> set (page_offsets (page_size ?st) (length [1, 2, 9 :: u8])).
      page_differs (page_size ?st) [1, 2, 9] [1, 2, 3] off \<longrightarrow> bitmap_bit [2] (off div page_size ?st)"
    by code_simp
  from create_bitmap_delta_complete [OF wf ok _ this] ok show ?thesis by auto
qed

text \<open>
  C18. Every state reachable by fewer than \<open>2 ^ 64 - 1\<close> operations is well-formed, and on such a
  state a host delta never panics: an unknown region, a bitmap region and a size change are
  errors, and an opaque region of the right size always yields a delta.
\<close>

theorem delta_reach_total:
  assumes "delta_reach ps n st" "n < 2 ^ 64 - 1"
  shows "wf_delta_state st \<and>
    (case create_host_delta st rid current of
       Panic \<Rightarrow> False
     | Err e \<Rightarrow> find_region rid (regions st) = None \<and> e = UnknownRegion rid \<or>
         (\<exists>r. find_region rid (regions st) = Some r \<and>
            (region_kind r = AllocatorBitmap \<and> e = NotOpaqueShadow rid \<or>
             region_kind r = OpaqueShadow \<and> region_len r \<noteq> length current \<and>
               e = RegionSizeChanged rid (region_len r) (length current)))
     | Ok _ \<Rightarrow> \<exists>r. find_region rid (regions st) = Some r \<and> region_kind r = OpaqueShadow \<and>
         region_len r = length current)"
proof -
  have wf: "wf_delta_state st" using delta_reach_bound [OF assms] by simp
  show ?thesis
  proof (cases "find_region rid (regions st)")
    case None
    with wf show ?thesis by (simp add: create_host_delta_def)
  next
    case (Some r)
    show ?thesis
    proof (cases "region_kind r = OpaqueShadow \<and> region_len r = length current")
      case True
      obtain s where "shadow_of st rid = Some s"
        using shadow_of_opaque [OF wf Some] True by blast
      with True Some wf create_host_delta_eq [OF wf Some] show ?thesis by simp
    next
      case False
      with Some wf show ?thesis
        by (cases "region_kind r") (auto simp: create_host_delta_def)
    qed
  qed
qed

theorem delta_reach_total_witness: "delta_reach 2 1 example_tracker \<and> wf_delta_state example_tracker"
proof -
  have r: "delta_reach 2 1 example_tracker"
    using reach_opaque [OF reach_new [of 2], of "0x1000" "[1, 2, 3]"] by simp
  from delta_reach_total [OF r, of 1 "[1, 2, 9]"] r show ?thesis by simp
qed

end
