(* ===== verification/Aof_Log.thy ===== *)
theory Aof_Log
  imports Delta_Checkpoint "HOL-Library.Sublist"
begin

text \<open>
  The append-only log of \<^verbatim>\<open>zluda/src/impl/concordia_delta.rs\<close>: the in-memory \<open>AofLog\<close>, the on-disk
  \<open>AofDiskLog\<close> with its framed, checksummed records, and \<open>apply_records_to_region\<close>, which replays
  committed records onto a region.

  The file system is explicit state: a map from paths to bytes, the number of bytes the device
  still accepts (a short write is how a full device and a crash in the middle of a write show up),
  and which paths can be opened. Reading an open file fails only at its end.
\<close>

subsection \<open>The in-memory log\<close>

record AofRecord =
  rec_epoch :: u64
  rec_region_id :: u64
  rec_offset :: usize
  rec_payload :: bytes

record AofEntry =
  entry_record :: AofRecord
  entry_committed :: bool

record AofLog =
  log_entries :: "AofEntry list"

definition aof_log_default :: AofLog where
  "aof_log_default = \<lparr>log_entries = []\<rparr>"

definition append_committed :: "AofLog \<Rightarrow> u64 \<Rightarrow> u64 \<Rightarrow> usize \<Rightarrow> bytes \<Rightarrow> AofLog" where
  "append_committed lg epoch rid off payload =
     lg\<lparr>log_entries := log_entries lg @
        [\<lparr>entry_record = \<lparr>rec_epoch = epoch, rec_region_id = rid, rec_offset = off,
                         rec_payload = payload\<rparr>,
          entry_committed = True\<rparr>]\<rparr>"

definition mem_append_delta :: "AofLog \<Rightarrow> DeltaRecord \<Rightarrow> AofLog" where
  "mem_append_delta lg delta =
     foldl (\<lambda>l p. append_committed l (delta_epoch delta) (page_region_id p) (page_offset p) (page_data p))
       lg (delta_dirty_pages delta)"

definition replay_committed :: "AofLog \<Rightarrow> AofRecord list" where
  "replay_committed lg = map entry_record (takeWhile entry_committed (log_entries lg))"

subsection \<open>Checksums\<close>

definition fnv1a64 :: "u64 \<Rightarrow> bytes \<Rightarrow> u64" where
  "fnv1a64 hash bs = foldl (\<lambda>h b. (h XOR ucast b) * 0x100000001b3) hash bs"

definition aof_checksum :: "u64 \<Rightarrow> u64 \<Rightarrow> u64 \<Rightarrow> u64 \<Rightarrow> bytes \<Rightarrow> u64" where
  "aof_checksum epoch rid off payload_len payload =
     (let hash = 0xcbf29ce484222325;
          hash = fnv1a64 hash (le_u64 epoch);
          hash = fnv1a64 hash (le_u64 rid);
          hash = fnv1a64 hash (le_u64 off);
          hash = fnv1a64 hash (le_u64 payload_len)
      in fnv1a64 hash payload)"

definition read_le_u64 :: "bytes \<Rightarrow> u64" where
  "read_le_u64 bs = from_le bs"

subsection \<open>The device\<close>

record disk =
  disk_files :: "string \<rightharpoonup> bytes"
  disk_room :: nat
  disk_opens :: "string \<Rightarrow> bool"

datatype io_error = NotFound string | OpenFailed string | WriteFailed | InvalidInput string

definition file_bytes :: "disk \<Rightarrow> string \<Rightarrow> bytes" where
  "file_bytes dk path = (case disk_files dk path of None \<Rightarrow> [] | Some bs \<Rightarrow> bs)"

text \<open>\<open>write_all\<close>: either every byte reaches the file, or only a prefix does and an error returns.\<close>

definition write_all :: "disk \<Rightarrow> string \<Rightarrow> bytes \<Rightarrow> disk \<times> bool" where
  "write_all dk path bs =
     (let n = min (length bs) (disk_room dk)
      in (dk\<lparr>disk_files := (disk_files dk)(path \<mapsto> file_bytes dk path @ take n bs),
             disk_room := disk_room dk - n\<rparr>,
          length bs \<le> disk_room dk))"

text \<open>The chain of \<open>write_all(..)?\<close> calls: the first failure ends it.\<close>

primrec write_chunks :: "disk \<Rightarrow> string \<Rightarrow> bytes list \<Rightarrow> disk \<times> bool" where
  "write_chunks dk path [] = (dk, True)"
| "write_chunks dk path (c # cs) =
     (case write_all dk path c of (dk', ok) \<Rightarrow> if ok then write_chunks dk' path cs else (dk', False))"

subsection \<open>The on-disk log\<close>

definition AOF_MAGIC :: bytes where "AOF_MAGIC = [0x43, 0x4f, 0x4e, 0x43]"
definition AOF_COMMIT :: bytes where "AOF_COMMIT = [0x43, 0x4d, 0x49, 0x54]"
definition AOF_HEADER_LEN :: usize where "AOF_HEADER_LEN = 44"
definition AOF_CHECKSUM_OFFSET :: usize where "AOF_CHECKSUM_OFFSET = 36"

record AofDiskLog =
  log_path :: string

definition aof_create :: "disk \<Rightarrow> string \<Rightarrow> disk \<times> (AofDiskLog, io_error) outcome" where
  "aof_create dk path =
     (if disk_opens dk path
      then (dk\<lparr>disk_files := (disk_files dk)(path \<mapsto> [])\<rparr>, Ok \<lparr>log_path = path\<rparr>)
      else (dk, Err (OpenFailed path)))"

definition aof_open_append :: "disk \<Rightarrow> string \<Rightarrow> disk \<times> (AofDiskLog, io_error) outcome" where
  "aof_open_append dk path =
     (if disk_opens dk path
      then (dk\<lparr>disk_files := (disk_files dk)(path \<mapsto> file_bytes dk path)\<rparr>, Ok \<lparr>log_path = path\<rparr>)
      else (dk, Err (OpenFailed path)))"

definition record_chunks :: "AofRecord \<Rightarrow> bytes list" where
  "record_chunks r =
     (let off = of_nat (rec_offset r) :: u64;
          payload_len = of_nat (length (rec_payload r)) :: u64
      in [AOF_MAGIC,
          le_u64 (rec_epoch r),
          le_u64 (rec_region_id r),
          le_u64 off,
          le_u64 payload_len,
          le_u64 (aof_checksum (rec_epoch r) (rec_region_id r) off payload_len (rec_payload r)),
          rec_payload r,
          AOF_COMMIT])"

definition aof_append_record ::
    "disk \<Rightarrow> AofDiskLog \<Rightarrow> AofRecord \<Rightarrow> disk \<times> (unit, io_error) outcome" where
  "aof_append_record dk lg r =
     (if \<not> rec_offset r < 2 ^ 64 then (dk, Err (InvalidInput ''AOF offset does not fit in u64''))
      else if \<not> length (rec_payload r) < 2 ^ 64 then
        (dk, Err (InvalidInput ''AOF payload length does not fit in u64''))
      else case write_chunks dk (log_path lg) (record_chunks r) of
             (dk', ok) \<Rightarrow> (dk', if ok then Ok () else Err WriteFailed))"

definition page_record :: "u64 \<Rightarrow> DirtyPage \<Rightarrow> AofRecord" where
  "page_record epoch p =
     \<lparr>rec_epoch = epoch, rec_region_id = page_region_id p, rec_offset = page_offset p,
      rec_payload = page_data p\<rparr>"

primrec aof_append_pages ::
    "disk \<Rightarrow> AofDiskLog \<Rightarrow> u64 \<Rightarrow> DirtyPage list \<Rightarrow> disk \<times> (unit, io_error) outcome" where
  "aof_append_pages dk lg epoch [] = (dk, Ok ())"
| "aof_append_pages dk lg epoch (p # ps) =
     (case aof_append_record dk lg (page_record epoch p) of
        (dk', Ok _) \<Rightarrow> aof_append_pages dk' lg epoch ps
      | (dk', Err e) \<Rightarrow> (dk', Err e)
      | (dk', Panic) \<Rightarrow> (dk', Panic))"

definition aof_append_delta :: "disk \<Rightarrow> AofDiskLog \<Rightarrow> DeltaRecord \<Rightarrow> disk \<times> (unit, io_error) outcome" where
  "aof_append_delta dk lg delta = aof_append_pages dk lg (delta_epoch delta) (delta_dirty_pages delta)"

text \<open>
  The reader loop over the bytes that are left in the file. Allocating the payload buffer panics
  when the recorded length exceeds \<open>isize::MAX\<close>.
\<close>

function read_records :: "bytes \<Rightarrow> (AofRecord list, io_error) outcome" where
  "read_records bs =
     (if length bs < AOF_HEADER_LEN then Ok []
      else
        let header = take AOF_HEADER_LEN bs; rest = drop AOF_HEADER_LEN bs
        in if subslice 0 4 header \<noteq> AOF_MAGIC then Ok []
           else
             let epoch = read_le_u64 (subslice 4 12 header);
                 rid = read_le_u64 (subslice 12 20 header);
                 off = read_le_u64 (subslice 20 28 header);
                 len_u64 = read_le_u64 (subslice 28 36 header);
                 checksum = read_le_u64 (subslice AOF_CHECKSUM_OFFSET (AOF_CHECKSUM_OFFSET + 8) header);
                 payload_len = unat len_u64
             in if 2 ^ 63 \<le> payload_len then Panic
                else if length rest < payload_len then Ok []
                else
                  let payload = take payload_len rest; tail = drop payload_len rest
                  in if aof_checksum epoch rid off len_u64 payload \<noteq> checksum then Ok []
                     else if length tail < 4 \<or> take 4 tail \<noteq> AOF_COMMIT then Ok []
                     else obind (read_records (drop 4 tail))
                            (\<lambda>rs. Ok (\<lparr>rec_epoch = epoch, rec_region_id = rid,
                                       rec_offset = unat off, rec_payload = payload\<rparr> # rs)))"
  by pat_completeness auto
termination
  by (relation "measure length") (auto simp: AOF_HEADER_LEN_def)

declare read_records.simps [simp del]

definition read_committed :: "disk \<Rightarrow> string \<Rightarrow> (AofRecord list, io_error) outcome" where
  "read_committed dk path =
     (case disk_files dk path of
        None \<Rightarrow> Err (NotFound path)
      | Some bs \<Rightarrow> read_records bs)"

subsection \<open>Replay onto a region\<close>

datatype replay_error =
    ReplayOffsetOverflow u64 usize usize
  | ReplayBeyondTarget u64 usize usize usize

fun apply_records ::
    "u64 \<Rightarrow> AofRecord list \<Rightarrow> bytes \<Rightarrow> usize \<Rightarrow> bytes \<times> (usize, replay_error) outcome" where
  "apply_records rid [] target applied = (target, Ok applied)"
| "apply_records rid (r # rs) target applied =
     (if rec_region_id r \<noteq> rid then apply_records rid rs target applied
      else
        let stop = rec_offset r + length (rec_payload r)
        in if 2 ^ 64 \<le> stop then
             (target, Err (ReplayOffsetOverflow (rec_region_id r) (rec_offset r) (length (rec_payload r))))
           else if length target < stop then
             (target, Err (ReplayBeyondTarget (rec_region_id r) (rec_offset r) stop (length target)))
           else apply_records rid rs (overwrite (rec_offset r) (rec_payload r) target) (applied + 1))"

definition apply_records_to_region ::
    "u64 \<Rightarrow> bytes \<Rightarrow> AofRecord list \<Rightarrow> bytes \<times> (usize, replay_error) outcome" where
  "apply_records_to_region rid target records = apply_records rid records target 0"


subsection \<open>Record framing\<close>


definition record_header :: "AofRecord \<Rightarrow> bytes" where
  "record_header r = concat (take 6 (record_chunks r))"

definition record_bytes :: "AofRecord \<Rightarrow> bytes" where
  "record_bytes r = concat (record_chunks r)"

definition wf_record :: "AofRecord \<Rightarrow> bool" where
  "wf_record r \<longleftrightarrow> rec_offset r < 2 ^ 64 \<and> length (rec_payload r) < 2 ^ 63"

lemma length_aof_consts [simp]:
  "length AOF_MAGIC = 4" "length AOF_COMMIT = 4" "AOF_HEADER_LEN = 44" "AOF_CHECKSUM_OFFSET = 36"
  by (simp_all add: AOF_MAGIC_def AOF_COMMIT_def AOF_HEADER_LEN_def AOF_CHECKSUM_OFFSET_def)

lemma length_record_header [simp]: "length (record_header r) = 44"
  by (simp add: record_header_def record_chunks_def Let_def)

lemma record_bytes_split: "record_bytes r = record_header r @ rec_payload r @ AOF_COMMIT"
  by (simp add: record_bytes_def record_header_def record_chunks_def Let_def)

lemma length_record_bytes: "length (record_bytes r) = 48 + length (rec_payload r)"
  by (simp add: record_bytes_split)

lemma record_header_fields:
  "subslice 0 4 (record_header r) = AOF_MAGIC"
  "read_le_u64 (subslice 4 12 (record_header r)) = rec_epoch r"
  "read_le_u64 (subslice 12 20 (record_header r)) = rec_region_id r"
  "read_le_u64 (subslice 20 28 (record_header r)) = of_nat (rec_offset r)"
  "read_le_u64 (subslice 28 36 (record_header r)) = of_nat (length (rec_payload r))"
  "read_le_u64 (subslice 36 44 (record_header r)) =
   aof_checksum (rec_epoch r) (rec_region_id r) (of_nat (rec_offset r))
     (of_nat (length (rec_payload r))) (rec_payload r)"
  by (simp_all add: record_header_def record_chunks_def Let_def subslice_def read_le_u64_def
      from_le_to_le)

lemma read_records_header:
  assumes "wf_record r"
  shows "read_records (record_header r @ rest) =
    (let len = length (rec_payload r); payload = take len rest; tail = drop len rest;
         sum = aof_checksum (rec_epoch r) (rec_region_id r) (of_nat (rec_offset r)) (of_nat len)
     in if length rest < len then Ok []
        else if sum payload \<noteq> sum (rec_payload r) then Ok []
        else if length tail < 4 \<or> take 4 tail \<noteq> AOF_COMMIT then Ok []
        else obind (read_records (drop 4 tail)) (\<lambda>rs. Ok (\<lparr>rec_epoch = rec_epoch r, rec_region_id = rec_region_id r,
               rec_offset = rec_offset r, rec_payload = payload\<rparr> # rs)))"
proof -
  have "unat (of_nat (length (rec_payload r)) :: u64) = length (rec_payload r)"
    "unat (of_nat (rec_offset r) :: u64) = rec_offset r" "\<not> 2 ^ 63 \<le> length (rec_payload r)"
    using assms by (simp_all add: wf_record_def unat_of_nat)
  then show ?thesis
    by (subst read_records.simps) (simp add: record_header_fields Let_def)
qed

lemma read_records_short: "length bs < 44 \<Longrightarrow> read_records bs = Ok []"
  by (subst read_records.simps) simp

lemma read_records_append:
  assumes "wf_record r"
  shows "read_records (record_bytes r @ rest) = obind (read_records rest) (\<lambda>rs. Ok (r # rs))"
  using assms by (cases r) (simp add: record_bytes_split read_records_header Let_def)

lemma read_records_torn:
  assumes "wf_record r" "n < length (record_bytes r)"
  shows "read_records (take n (record_bytes r)) = Ok []"
proof (cases "n < 44")
  case True
  then show ?thesis by (simp add: read_records_short)
next
  case False
  then have "take n (record_bytes r) = record_header r @ take (n - 44) (rec_payload r @ AOF_COMMIT)"
    by (simp add: record_bytes_split)
  with assms False show ?thesis
    by (simp add: read_records_header Let_def length_record_bytes) linarith
qed

lemma read_records_log:
  assumes "\<forall>r \<in> set rs. wf_record r"
  shows "read_records (concat (map record_bytes rs) @ tail) =
         obind (read_records tail) (\<lambda>ts. Ok (rs @ ts))"
  using assms
proof (induction rs)
  case Nil
  then show ?case by (cases "read_records tail") auto
next
  case (Cons r rs)
  then show ?case by (cases "read_records tail") (simp_all add: read_records_append)
qed

lemma read_records_Nil [simp]: "read_records [] = Ok []"
  by (simp add: read_records_short)

text \<open>How many of the records are complete in the first \<open>n\<close> bytes of the log.\<close>

fun committed_count :: "nat \<Rightarrow> AofRecord list \<Rightarrow> nat" where
  "committed_count n [] = 0"
| "committed_count n (r # rs) =
     (if length (record_bytes r) \<le> n then Suc (committed_count (n - length (record_bytes r)) rs) else 0)"

lemma read_records_prefix:
  assumes "\<forall>r \<in> set rs. wf_record r"
  shows "read_records (take n (concat (map record_bytes rs))) = Ok (take (committed_count n rs) rs)"
  using assms
proof (induction rs arbitrary: n)
  case Nil
  then show ?case by simp
next
  case (Cons r rs)
  show ?case
  proof (cases "length (record_bytes r) \<le> n")
    case True
    with Cons show ?thesis by (simp add: read_records_append)
  next
    case False
    with Cons.prems show ?thesis by (simp add: read_records_torn)
  qed
qed

subsection \<open>Writing\<close>

lemma write_all_effect:
  "disk_files dk path = Some bs \<Longrightarrow>
   disk_files (fst (write_all dk path c)) path = Some (bs @ take (disk_room dk) c) \<and>
   (snd (write_all dk path c) \<longleftrightarrow> length c \<le> disk_room dk) \<and>
   disk_room (fst (write_all dk path c)) = disk_room dk - length c \<and>
   (\<forall>p. p \<noteq> path \<longrightarrow> disk_files (fst (write_all dk path c)) p = disk_files dk p)"
  by (auto simp: write_all_def Let_def file_bytes_def min_def)

lemma write_chunks_effect:
  "disk_files dk path = Some bs \<Longrightarrow>
   disk_files (fst (write_chunks dk path cs)) path = Some (bs @ take (disk_room dk) (concat cs)) \<and>
   (snd (write_chunks dk path cs) \<longleftrightarrow> length (concat cs) \<le> disk_room dk) \<and>
   disk_room (fst (write_chunks dk path cs)) = disk_room dk - length (concat cs) \<and>
   (\<forall>p. p \<noteq> path \<longrightarrow> disk_files (fst (write_chunks dk path cs)) p = disk_files dk p)"
proof (induction cs arbitrary: dk bs)
  case Nil
  then show ?case by simp
next
  case (Cons c cs)
  obtain dk' ok where w: "write_all dk path c = (dk', ok)" by (cases "write_all dk path c")
  note eff = write_all_effect [OF Cons.prems, of c, unfolded w, simplified]
  show ?case
  proof (cases ok)
    case True
    with Cons.IH [of dk'] w eff show ?thesis by auto
  next
    case False
    with w eff show ?thesis by simp
  qed
qed

lemma aof_append_record_effect:
  assumes "wf_record r" "disk_files dk (log_path lg) = Some bs" "aof_append_record dk lg r = (dk', res)"
  shows "disk_files dk' (log_path lg) = Some (bs @ take (disk_room dk) (record_bytes r))"
    and "res = (if length (record_bytes r) \<le> disk_room dk then Ok () else Err WriteFailed)"
    and "disk_room dk' = disk_room dk - length (record_bytes r)"
    and "p \<noteq> log_path lg \<Longrightarrow> disk_files dk' p = disk_files dk p"
  using assms write_chunks_effect [OF assms(2), of "record_chunks r"]
  by (auto simp: aof_append_record_def wf_record_def record_bytes_def split: prod.splits if_splits)

subsection \<open>The log contract\<close>

text \<open>
  What the checkpoint runtime relies on: a successful append adds exactly the record to what replay
  returns, and a failed one leaves what replay returns unchanged (though the log may no longer
  accept appends).
\<close>

primrec append_each :: "('l \<Rightarrow> AofRecord \<Rightarrow> 'l \<times> bool) \<Rightarrow> 'l \<Rightarrow> AofRecord list \<Rightarrow> 'l \<times> bool" where
  "append_each app l [] = (l, True)"
| "append_each app l (r # rs) = (case app l r of (l', ok) \<Rightarrow> if ok then append_each app l' rs else (l', False))"

locale record_log =
  fixes app :: "'l \<Rightarrow> AofRecord \<Rightarrow> 'l \<times> bool"
    and holds :: "'l \<Rightarrow> AofRecord list \<Rightarrow> bool"
    and reads :: "'l \<Rightarrow> AofRecord list \<Rightarrow> bool"
  assumes app_ok: "holds l rs \<Longrightarrow> wf_record r \<Longrightarrow> app l r = (l', True) \<Longrightarrow> holds l' (rs @ [r])"
    and app_torn: "holds l rs \<Longrightarrow> wf_record r \<Longrightarrow> app l r = (l', False) \<Longrightarrow> reads l' rs"
    and holds_reads: "holds l rs \<Longrightarrow> reads l rs"
begin

lemma append_each_ok:
  "holds l rs \<Longrightarrow> \<forall>r \<in> set new. wf_record r \<Longrightarrow> append_each app l new = (l', True) \<Longrightarrow>
   holds l' (rs @ new)"
proof (induction new arbitrary: l rs)
  case Nil
  then show ?case by simp
next
  case (Cons r new)
  then obtain m where m: "app l r = (m, True)" "append_each app m new = (l', True)"
    by (auto split: prod.splits if_splits)
  have "holds m (rs @ [r])" using app_ok [OF Cons.prems(1) _ m(1)] Cons.prems(2) by simp
  from Cons.IH [OF this _ m(2)] Cons.prems(2) show ?case by simp
qed

lemma append_each_torn:
  "holds l rs \<Longrightarrow> \<forall>r \<in> set new. wf_record r \<Longrightarrow> append_each app l new = (l', False) \<Longrightarrow>
   \<exists>k < length new. reads l' (rs @ take k new)"
proof (induction new arbitrary: l rs)
  case Nil
  then show ?case by simp
next
  case (Cons r new)
  obtain m ok where m: "app l r = (m, ok)" by (cases "app l r")
  show ?case
  proof (cases ok)
    case True
    with m Cons.prems have "append_each app m new = (l', False)" by simp
    moreover have "holds m (rs @ [r])"
      using app_ok [OF Cons.prems(1), of r m] m True Cons.prems(2) by simp
    ultimately obtain k where "k < length new" "reads l' ((rs @ [r]) @ take k new)"
      using Cons.IH [of m "rs @ [r]"] Cons.prems(2) by auto
    then show ?thesis by (intro exI [of _ "Suc k"]) simp
  next
    case False
    with m Cons.prems app_torn [OF Cons.prems(1), of r m] show ?thesis
      by (intro exI [of _ 0]) simp
  qed
qed

lemma append_each_prefix:
  assumes "holds l rs" "\<forall>r \<in> set new. wf_record r" "append_each app l new = (l', ok)"
  shows "\<exists>k \<le> length new. reads l' (rs @ take k new) \<and> (ok \<longrightarrow> k = length new)"
proof (cases ok)
  case True
  with assms append_each_ok [of l rs new l'] holds_reads show ?thesis
    by (intro exI [of _ "length new"]) auto
next
  case False
  with assms append_each_torn [of l rs new l'] show ?thesis by (auto intro: less_imp_le)
qed

end

subsection \<open>The in-memory log meets the contract\<close>

definition mem_append :: "AofLog \<Rightarrow> AofRecord \<Rightarrow> AofLog \<times> bool" where
  "mem_append lg r =
     (append_committed lg (rec_epoch r) (rec_region_id r) (rec_offset r) (rec_payload r), True)"

definition mem_holds :: "AofLog \<Rightarrow> AofRecord list \<Rightarrow> bool" where
  "mem_holds lg rs \<longleftrightarrow> log_entries lg = map (\<lambda>r. \<lparr>entry_record = r, entry_committed = True\<rparr>) rs"

interpretation mem_log: record_log mem_append mem_holds "\<lambda>lg rs. replay_committed lg = rs"
  by unfold_locales
    (auto simp: mem_append_def append_committed_def replay_committed_def mem_holds_def
      takeWhile_map comp_def)

lemma mem_append_delta_each:
  "append_each mem_append lg (map (page_record (delta_epoch d)) (delta_dirty_pages d)) =
   (mem_append_delta lg d, True)"
proof -
  have "append_each mem_append lg (map (page_record e) ps) =
      (foldl (\<lambda>l p. append_committed l e (page_region_id p) (page_offset p) (page_data p)) lg ps, True)"
    for e ps lg
    by (induction ps arbitrary: lg) (simp_all add: mem_append_def page_record_def)
  then show ?thesis by (simp add: mem_append_delta_def)
qed

subsection \<open>The on-disk log meets the contract\<close>

definition disk_append :: "AofDiskLog \<Rightarrow> disk \<Rightarrow> AofRecord \<Rightarrow> disk \<times> bool" where
  "disk_append lg dk r = (case aof_append_record dk lg r of (dk', res) \<Rightarrow> (dk', res = Ok ()))"

definition disk_holds :: "AofDiskLog \<Rightarrow> disk \<Rightarrow> AofRecord list \<Rightarrow> bool" where
  "disk_holds lg dk rs \<longleftrightarrow>
     (\<forall>r \<in> set rs. wf_record r) \<and> disk_files dk (log_path lg) = Some (concat (map record_bytes rs))"

lemma disk_holds_read: "disk_holds lg dk rs \<Longrightarrow> read_committed dk (log_path lg) = Ok rs"
  using read_records_log [of rs "[]"] by (simp add: disk_holds_def read_committed_def)

lemma disk_holds_append:
  assumes "disk_holds lg dk rs" "wf_record r" "disk_append lg dk r = (dk', ok)"
  shows "if ok then disk_holds lg dk' (rs @ [r]) else read_committed dk' (log_path lg) = Ok rs"
proof -
  obtain res where res: "aof_append_record dk lg r = (dk', res)" and ok: "ok = (res = Ok ())"
    using assms(3) by (auto simp: disk_append_def split: prod.splits)
  have bs: "disk_files dk (log_path lg) = Some (concat (map record_bytes rs))"
    using assms(1) by (simp add: disk_holds_def)
  note eff = aof_append_record_effect [OF assms(2) bs res]
  show ?thesis
  proof (cases "length (record_bytes r) \<le> disk_room dk")
    case True
    with eff(1,2) ok assms(1,2) show ?thesis by (simp add: disk_holds_def)
  next
    case False
    then have "read_records (take (disk_room dk) (record_bytes r)) = Ok []"
      using assms(2) by (intro read_records_torn) auto
    with False eff(1,2) ok assms(1) read_records_log [of rs "take (disk_room dk) (record_bytes r)"]
    show ?thesis by (simp add: disk_holds_def read_committed_def)
  qed
qed

interpretation disk_log: record_log "disk_append lg" "disk_holds lg"
    "\<lambda>dk rs. read_committed dk (log_path lg) = Ok rs" for lg
proof unfold_locales
  fix l rs r l'
  assume prem: "disk_holds lg l rs" "wf_record r"
  show "disk_append lg l r = (l', True) \<Longrightarrow> disk_holds lg l' (rs @ [r])"
    using disk_holds_append [OF prem] by fastforce
  show "disk_append lg l r = (l', False) \<Longrightarrow> read_committed l' (log_path lg) = Ok rs"
    using disk_holds_append [OF prem] by fastforce
qed (rule disk_holds_read)

lemma aof_append_delta_each:
  assumes "aof_append_delta dk lg d = (dk', res)"
  shows "append_each (disk_append lg) dk (map (page_record (delta_epoch d)) (delta_dirty_pages d)) =
         (dk', res = Ok ())"
proof -
  have "aof_append_pages dk lg e ps = (dk', res) \<Longrightarrow>
      append_each (disk_append lg) dk (map (page_record e) ps) = (dk', res = Ok ())" for e ps
    by (induction ps arbitrary: dk)
      (auto simp: disk_append_def split: prod.splits outcome.splits)
  with assms show ?thesis by (simp add: aof_append_delta_def)
qed


subsection \<open>Replaying records onto a region\<close>

lemma apply_records_append:
  "apply_records rid (rs @ ss) t n =
   (case apply_records rid rs t n of
      (t', Ok m) \<Rightarrow> apply_records rid ss t' m
    | (t', Err e) \<Rightarrow> (t', Err e)
    | (t', Panic) \<Rightarrow> (t', Panic))"
  by (induction rid rs t n rule: apply_records.induct) (auto simp: Let_def)

lemma apply_records_length: "length (fst (apply_records rid rs t n)) = length t"
  by (induction rid rs t n rule: apply_records.induct) (auto simp: Let_def)

lemma apply_records_other:
  "\<forall>r \<in> set rs. rec_region_id r \<noteq> rid \<Longrightarrow> apply_records rid rs t n = (t, Ok n)"
  by (induction rs) auto

lemma apply_page_records:
  assumes "length t < 2 ^ 64"
    "\<forall>p \<in> set ps. page_region_id p = rid \<and> page_offset p + length (page_data p) \<le> length t"
  shows "apply_records rid (map (page_record e) ps) t n = (apply_pages ps t, Ok (n + length ps))"
  using assms
proof (induction ps arbitrary: t n)
  case Nil
  then show ?case by simp
next
  case (Cons p ps)
  then have "page_offset p + length (page_data p) \<le> length t" by simp
  with Cons show ?case by (simp add: page_record_def Let_def)
qed

lemma delta_pages_fit:
  assumes "p \<in> set (delta_pages rid ps current shadow (page_offsets ps (length current)))" "0 < ps"
  shows "page_region_id p = rid \<and> page_offset p + length (page_data p) \<le> length current"
  using assms page_offsets_lt [of ps _ "length current"]
  by (fastforce simp: delta_pages_def page_at_def)



subsection \<open>Sequences of appended deltas\<close>

definition delta_records :: "DeltaRecord \<Rightarrow> AofRecord list" where
  "delta_records d = map (page_record (delta_epoch d)) (delta_dirty_pages d)"

primrec append_deltas :: "disk \<Rightarrow> AofDiskLog \<Rightarrow> DeltaRecord list \<Rightarrow> disk \<times> (unit, io_error) outcome" where
  "append_deltas dk lg [] = (dk, Ok ())"
| "append_deltas dk lg (d # ds) =
     (case aof_append_delta dk lg d of
        (dk', Ok _) \<Rightarrow> append_deltas dk' lg ds
      | (dk', Err e) \<Rightarrow> (dk', Err e)
      | (dk', Panic) \<Rightarrow> (dk', Panic))"

lemma append_each_append:
  "append_each app l (xs @ ys) = (case append_each app l xs of (l', ok) \<Rightarrow> if ok then append_each app l' ys else (l', False))"
  by (induction xs arbitrary: l) (auto split: prod.splits)

lemma append_deltas_each:
  "append_deltas dk lg ds = (dk', res) \<Longrightarrow>
   append_each (disk_append lg) dk (concat (map delta_records ds)) = (dk', res = Ok ())"
proof (induction ds arbitrary: dk)
  case Nil
  then show ?case by simp
next
  case (Cons d ds)
  obtain dk1 res1 where 1: "aof_append_delta dk lg d = (dk1, res1)" by (cases "aof_append_delta dk lg d")
  have "append_each (disk_append lg) dk (delta_records d) = (dk1, res1 = Ok ())"
    using aof_append_delta_each [OF 1] by (simp add: delta_records_def)
  with Cons 1 show ?case by (cases res1) (auto simp: append_each_append)
qed

lemma committed_count_spec:
  "j \<le> length rs \<Longrightarrow>
   j \<le> committed_count n rs \<longleftrightarrow> length (concat (map record_bytes (take j rs))) \<le> n"
proof (induction rs arbitrary: n j)
  case Nil
  then show ?case by simp
next
  case (Cons r rs)
  then show ?case by (cases j) auto
qed

lemma committed_count_le: "committed_count n rs \<le> length rs"
  by (induction n rs rule: committed_count.induct) auto

lemma append_each_bytes:
  "disk_files dk (log_path lg) = Some bs \<Longrightarrow> \<forall>r \<in> set new. wf_record r \<Longrightarrow>
   append_each (disk_append lg) dk new = (dk', True) \<Longrightarrow>
   disk_files dk' (log_path lg) = Some (bs @ concat (map record_bytes new))"
proof (induction new arbitrary: dk bs)
  case Nil
  then show ?case by simp
next
  case (Cons r new)
  then obtain dk1 where app: "disk_append lg dk r = (dk1, True)"
    and rest: "append_each (disk_append lg) dk1 new = (dk', True)"
    by (auto split: prod.splits if_splits)
  then have "aof_append_record dk lg r = (dk1, Ok ())"
    by (auto simp: disk_append_def split: prod.splits)
  then have "disk_files dk1 (log_path lg) = Some (bs @ record_bytes r)"
    using aof_append_record_effect(1,2) [of r dk lg bs dk1 "Ok ()"] Cons.prems(1,2)
    by (simp split: if_splits)
  from Cons.IH [OF this _ rest] Cons.prems(2) show ?case by simp
qed

lemma record_bytes_magic: "take 4 (record_bytes r) = AOF_MAGIC"
  by (simp add: record_bytes_def record_chunks_def Let_def)

lemma read_records_after_tear:
  assumes "0 < n" "n \<le> 2"
  shows "read_records (take n AOF_MAGIC @ concat (map record_bytes new)) = Ok []"
proof (cases new)
  case Nil
  then show ?thesis using assms by (simp add: read_records_short)
next
  case (Cons r rs)
  have "take 4 (take n AOF_MAGIC @ concat (map record_bytes new)) =
      take n AOF_MAGIC @ take (4 - n) (take 4 (record_bytes r))"
    using assms by (simp add: Cons length_record_bytes min_def)
  also have "\<dots> \<noteq> AOF_MAGIC"
  proof -
    from assms consider "n = 1" | "n = 2" by linarith
    then show ?thesis by cases (simp_all add: record_bytes_magic AOF_MAGIC_def)
  qed
  finally have "subslice 0 4 (take 44 (take n AOF_MAGIC @ concat (map record_bytes new))) \<noteq> AOF_MAGIC"
    by (simp add: subslice_def del: take_append)
  then show ?thesis by (subst read_records.simps) (simp add: Let_def)
qed

lemma apply_records_untouched:
  assumes "i < length target" "\<forall>r \<in> set rs. rec_region_id r = rid \<longrightarrow>
      \<not> (rec_offset r \<le> i \<and> i < rec_offset r + length (rec_payload r))"
  shows "fst (apply_records rid rs target n) ! i = target ! i"
  using assms
  by (induction rid rs target n rule: apply_records.induct) (auto simp: Let_def nth_overwrite)

lemma apply_records_result:
  assumes "length target < 2 ^ 64"
  defines "fits \<equiv> \<lambda>r. rec_offset r + length (rec_payload r) \<le> length target"
  shows "snd (apply_records rid rs target n) \<noteq> Panic"
    and "(\<exists>k. snd (apply_records rid rs target n) = Ok k) \<longleftrightarrow>
         (\<forall>r \<in> set rs. rec_region_id r = rid \<longrightarrow> fits r)"
    and "snd (apply_records rid rs target n) = Ok k \<Longrightarrow>
         k = n + length (filter (\<lambda>r. rec_region_id r = rid) rs)"
  using assms(1) unfolding fits_def
  by (induction rid rs target n rule: apply_records.induct) (auto simp: Let_def not_le not_less split: if_splits)

abbreviation example_log :: AofDiskLog where
  "example_log \<equiv> \<lparr>log_path = ''a.aof''\<rparr>"

abbreviation example_record :: AofRecord where
  "example_record \<equiv> \<lparr>rec_epoch = 1, rec_region_id = 7, rec_offset = 2, rec_payload = [4, 5]\<rparr>"

abbreviation example_disk :: "bytes \<Rightarrow> disk" where
  "example_disk bs \<equiv> \<lparr>disk_files = [''a.aof'' \<mapsto> bs], disk_room = 100, disk_opens = (\<lambda>_. True)\<rparr>"

lemma example_record_wf: "wf_record example_record"
  by (simp add: wf_record_def)

lemma example_disk_holds: "disk_holds example_log (example_disk (record_bytes example_record)) [example_record]"
  by (simp add: disk_holds_def example_record_wf)

subsection \<open>Properties of the log\<close>

text \<open>
  C19. Whatever is appended to a freshly created on-disk log, and wherever the device stops
  accepting bytes, reading the log back never fails: it returns a prefix of the records of the
  appended deltas, in order, and all of them when every append reported success.
\<close>

theorem aof_disk_log_prefix:
  assumes "aof_create dk path = (dk0, Ok lg)"
    "\<forall>r \<in> set (concat (map delta_records ds)). wf_record r"
    "append_deltas dk0 lg ds = (dk1, res)"
  shows "\<exists>rs. read_committed dk1 path = Ok rs \<and> prefix rs (concat (map delta_records ds)) \<and>
           (res = Ok () \<longrightarrow> rs = concat (map delta_records ds))"
proof -
  have lg: "log_path lg = path" and holds: "disk_holds lg dk0 []"
    using assms(1) by (auto simp: aof_create_def disk_holds_def split: if_splits)
  from disk_log.append_each_prefix [OF holds assms(2) append_deltas_each [OF assms(3)]]
  obtain k where "read_committed dk1 path = Ok (take k (concat (map delta_records ds)))"
    "res = Ok () \<longrightarrow> k = length (concat (map delta_records ds))"
    by (auto simp: lg)
  then show ?thesis by (auto simp: take_is_prefix)
qed

theorem aof_disk_log_prefix_witness:
  "\<exists>dk0 lg dk1 res rs. aof_create (example_disk []) ''a.aof'' = (dk0, Ok lg) \<and>
     append_deltas dk0 lg [example_delta] = (dk1, res) \<and> read_committed dk1 ''a.aof'' = Ok rs \<and>
     prefix rs (delta_records example_delta)"
proof -
  obtain dk0 lg where c: "aof_create (example_disk []) ''a.aof'' = (dk0, Ok lg)"
    by (simp add: aof_create_def)
  obtain dk1 res where a: "append_deltas dk0 lg [example_delta] = (dk1, res)" by fastforce
  have "\<forall>r \<in> set (concat (map delta_records [example_delta])). wf_record r"
    by (simp add: delta_records_def page_record_def wf_record_def)
  from aof_disk_log_prefix [OF c this a] obtain rs where
    "read_committed dk1 ''a.aof'' = Ok rs" "prefix rs (delta_records example_delta)" by auto
  with c a show ?thesis by blast
qed

text \<open>
  C4. Crash consistency: if only the first \<open>n\<close> bytes of an intact log survive, the reader returns
  exactly the records whose frames lie completely within those \<open>n\<close> bytes.
\<close>

theorem aof_crash_consistent:
  assumes "disk_holds lg dk rs"
  shows "\<exists>k \<le> length rs.
    read_committed (dk\<lparr>disk_files := (disk_files dk)(log_path lg \<mapsto> take n (file_bytes dk (log_path lg)))\<rparr>)
      (log_path lg) = Ok (take k rs) \<and>
    (\<forall>j \<le> length rs. j \<le> k \<longleftrightarrow> length (concat (map record_bytes (take j rs))) \<le> n)"
  using assms committed_count_le [of n rs]
  by (intro exI [of _ "committed_count n rs"])
    (simp add: read_committed_def file_bytes_def disk_holds_def read_records_prefix committed_count_spec)

theorem aof_crash_consistent_witness:
  "\<exists>k \<le> 1. read_committed (example_disk (take 49 (record_bytes example_record))) ''a.aof'' =
     Ok (take k [example_record]) \<and> \<not> 1 \<le> k"
  using aof_crash_consistent [OF example_disk_holds, of 49]
  by (auto simp: file_bytes_def length_record_bytes)

text \<open>
  C39. A torn write hides everything appended after it: if a crash leaves one or two bytes of a
  record's magic at the end of the log, then after \<open>open_append\<close> no later record is ever read back,
  although every later append reports success.
\<close>

theorem aof_reopen_after_tear_loses_records:
  assumes "disk_holds lg dk rs" "0 < n" "n \<le> 2" "\<forall>r \<in> set new. wf_record r"
    "aof_open_append
       (dk\<lparr>disk_files := (disk_files dk)(log_path lg \<mapsto> file_bytes dk (log_path lg) @ take n AOF_MAGIC)\<rparr>)
       (log_path lg) = (dk1, Ok lg')"
    "append_each (disk_append lg') dk1 new = (dk2, True)"
  shows "read_committed dk2 (log_path lg) = Ok rs"
proof -
  have path: "log_path lg' = log_path lg"
    and dk1: "disk_files dk1 (log_path lg') = Some (concat (map record_bytes rs) @ take n AOF_MAGIC)"
    using assms(1,5) by (auto simp: aof_open_append_def disk_holds_def file_bytes_def split: if_splits)
  have "disk_files dk2 (log_path lg') =
      Some ((concat (map record_bytes rs) @ take n AOF_MAGIC) @ concat (map record_bytes new))"
    by (rule append_each_bytes [OF dk1 assms(4,6)])
  moreover have "read_records (take n AOF_MAGIC @ concat (map record_bytes new)) = Ok []"
    using assms(2,3) by (rule read_records_after_tear)
  ultimately show ?thesis
    using assms(1) read_records_log [of rs "take n AOF_MAGIC @ concat (map record_bytes new)"]
    by (simp add: read_committed_def path disk_holds_def)
qed

theorem aof_reopen_after_tear_loses_records_witness:
  "\<exists>dk1 lg' dk2. aof_open_append (example_disk (record_bytes example_record @ take 2 AOF_MAGIC)) ''a.aof'' =
       (dk1, Ok lg') \<and>
     append_each (disk_append lg') dk1 [example_record] = (dk2, True) \<and>
     read_committed dk2 ''a.aof'' = Ok [example_record]"
proof -
  let ?torn = "example_disk (record_bytes example_record @ take 2 AOF_MAGIC)"
  have torn: "(example_disk (record_bytes example_record))
      \<lparr>disk_files := (disk_files (example_disk (record_bytes example_record)))
         (log_path example_log \<mapsto> file_bytes (example_disk (record_bytes example_record)) (log_path example_log)
            @ take 2 AOF_MAGIC)\<rparr> = ?torn"
    by (simp add: file_bytes_def)
  have o: "aof_open_append ?torn ''a.aof'' = (?torn, Ok example_log)"
    by (simp add: aof_open_append_def file_bytes_def)
  obtain dk2 res where r: "aof_append_record ?torn example_log example_record = (dk2, res)" by fastforce
  have "res = Ok ()"
    using aof_append_record_effect(2) [OF example_record_wf _ r] by (simp add: length_record_bytes)
  with r have a: "append_each (disk_append example_log) ?torn [example_record] = (dk2, True)"
    by (simp add: disk_append_def)
  have "read_committed dk2 (log_path example_log) = Ok [example_record]"
    using aof_reopen_after_tear_loses_records [OF example_disk_holds, of 2 "[example_record]" ?torn example_log dk2]
      o a torn example_record_wf by simp
  with o a show ?thesis by auto
qed

text \<open>
  The reader trusts the recorded payload length before it verifies the checksum: a header with
  the right magic and a length of at least \<open>2 ^ 63\<close> makes \<open>read_committed\<close> panic, whatever the
  committed records before it and the bytes after it are.
\<close>

theorem aof_oversized_length_panics:
  assumes "\<forall>r \<in> set rs. wf_record r" "2 ^ 63 \<le> unat (len :: u64)"
    "disk_files dk path = Some (concat (map record_bytes rs) @ AOF_MAGIC @ le_u64 epoch @ le_u64 rid @
       le_u64 off @ le_u64 len @ le_u64 checksum @ rest)"
  shows "read_committed dk path = Panic"
proof -
  have "read_records (AOF_MAGIC @ le_u64 epoch @ le_u64 rid @ le_u64 off @ le_u64 len @
      le_u64 checksum @ rest) = Panic"
    using assms(2) by (subst read_records.simps)
      (simp add: subslice_def read_le_u64_def from_le_to_le Let_def)
  with assms(1,3) show ?thesis by (simp add: read_committed_def read_records_log)
qed

theorem aof_oversized_length_panics_witness:
  "read_committed (example_disk (record_bytes example_record @ AOF_MAGIC @ le_u64 2 @ le_u64 7 @ le_u64 0 @
     le_u64 0x8000000000000000 @ le_u64 0)) ''a.aof'' = Panic"
  by (rule aof_oversized_length_panics [of "[example_record]" "0x8000000000000000" _ _ 2 7 0 0 "[]"])
    (simp_all add: example_record_wf)

text \<open>
  C20. Replaying onto a region never panics, never changes the region's length, and touches nothing
  outside the payload ranges of that region's records; it succeeds exactly when every record of the
  region fits, and then counts those records.
\<close>

theorem apply_records_to_region_safe:
  assumes "apply_records_to_region rid target rs = (target', res)" "length target < 2 ^ 64"
  shows "length target' = length target \<and>
    (\<forall>i < length target. (\<forall>r \<in> set rs. rec_region_id r = rid \<longrightarrow>
        \<not> (rec_offset r \<le> i \<and> i < rec_offset r + length (rec_payload r))) \<longrightarrow> target' ! i = target ! i) \<and>
    res \<noteq> Panic \<and>
    ((\<exists>k. res = Ok k) \<longleftrightarrow> (\<forall>r \<in> set rs. rec_region_id r = rid \<longrightarrow>
        rec_offset r + length (rec_payload r) \<le> length target)) \<and>
    (\<forall>k. res = Ok k \<longrightarrow> k = length (filter (\<lambda>r. rec_region_id r = rid) rs))"
  using apply_records_untouched [where target = target and rs = rs and rid = rid and n = 0]
    apply_records_result [OF assms(2), of rid rs 0] apply_records_length [of rid rs target 0] assms(1)
  by (simp add: apply_records_to_region_def)

theorem apply_records_to_region_safe_witness:
  "apply_records_to_region 7 [0, 0, 0, 0] [example_record] = ([0, 0, 4, 5], Ok 1) \<and>
   length [0, 0, 4, 5 :: u8] = length [0, 0, 0, 0 :: u8]"
proof -
  have "apply_records_to_region 7 [0, 0, 0, 0] [example_record] = ([0, 0, 4, 5], Ok 1)"
    by (simp add: apply_records_to_region_def overwrite_def)
  from apply_records_to_region_safe [OF this] this show ?thesis by simp
qed

end
