(* ===== verification/Rust_Str.thy ===== *)
theory Rust_Str
  imports Prelude "HOL-Library.Sublist"
begin

text \<open>
  The parts of the Rust string and integer-parsing library that the sources use, on ASCII text:
  \<open>str\<close> is \<open>string\<close>, white space is the ASCII part of \<open>char::is_whitespace\<close>. Integer parsing follows
  \<open>from_str_radix\<close>: an optional sign, checked accumulation digit by digit, and the same error kind
  at the same digit. Decimal printing is \<open>to_string\<close> of an unsigned integer.
\<close>

subsection \<open>Trimming, prefixes, searching\<close>

definition is_ws :: "char \<Rightarrow> bool" where
  "is_ws c \<longleftrightarrow> of_char c \<in> {9, 10, 11, 12, 13, 32 :: nat}"

definition trim_start :: "string \<Rightarrow> string" where
  "trim_start s = dropWhile is_ws s"

definition trim_end :: "string \<Rightarrow> string" where
  "trim_end s = rev (dropWhile is_ws (rev s))"

definition trim :: "string \<Rightarrow> string" where
  "trim s = trim_end (trim_start s)"

definition starts_with :: "string \<Rightarrow> string \<Rightarrow> bool" where
  "starts_with p s \<longleftrightarrow> take (length p) s = p"

definition ends_with :: "string \<Rightarrow> string \<Rightarrow> bool" where
  "ends_with p s \<longleftrightarrow> starts_with (rev p) (rev s)"

definition strip_prefix :: "string \<Rightarrow> string \<Rightarrow> string option" where
  "strip_prefix p s = (if starts_with p s then Some (drop (length p) s) else None)"

definition strip_suffix :: "string \<Rightarrow> string \<Rightarrow> string option" where
  "strip_suffix p s = (if ends_with p s then Some (take (length s - length p) s) else None)"

fun find_str :: "string \<Rightarrow> string \<Rightarrow> nat option" where
  "find_str pat [] = (if pat = [] then Some 0 else None)"
| "find_str pat (c # cs) = (if starts_with pat (c # cs) then Some 0 else map_option Suc (find_str pat cs))"

definition contains :: "string \<Rightarrow> string \<Rightarrow> bool" where
  "contains pat s \<longleftrightarrow> find_str pat s \<noteq> None"

fun find_char :: "(char \<Rightarrow> bool) \<Rightarrow> string \<Rightarrow> nat option" where
  "find_char P [] = None"
| "find_char P (c # cs) = (if P c then Some 0 else map_option Suc (find_char P cs))"

definition split_once :: "string \<Rightarrow> string \<Rightarrow> (string \<times> string) option" where
  "split_once pat s = map_option (\<lambda>i. (take i s, drop (i + length pat) s)) (find_str pat s)"

definition split_once_char :: "(char \<Rightarrow> bool) \<Rightarrow> string \<Rightarrow> (string \<times> string) option" where
  "split_once_char P s = map_option (\<lambda>i. (take i s, drop (Suc i) s)) (find_char P s)"

text \<open>\<open>str::replace\<close> with a non-empty pattern: leftmost, non-overlapping.\<close>

function replace_str :: "string \<Rightarrow> string \<Rightarrow> string \<Rightarrow> string" where
  "replace_str pat new s =
     (case s of [] \<Rightarrow> []
      | c # cs \<Rightarrow> if pat \<noteq> [] \<and> starts_with pat s then new @ replace_str pat new (drop (length pat) s)
                  else c # replace_str pat new cs)"
  by pat_completeness auto
termination
  by (relation "measure (\<lambda>(p, n, s). length s)") auto

declare replace_str.simps [simp del]

fun split_char :: "char \<Rightarrow> string \<Rightarrow> string list" where
  "split_char d [] = [[]]"
| "split_char d (c # cs) =
     (if c = d then [] # split_char d cs
      else case split_char d cs of [] \<Rightarrow> [[c]] | w # ws \<Rightarrow> (c # w) # ws)"

text \<open>\<open>str::lines\<close>: pieces ended by a line feed, without it and a carriage return before it.\<close>

definition strip_cr :: "string \<Rightarrow> string" where
  "strip_cr s = (case strip_suffix [CHR 0x0D] s of None \<Rightarrow> s | Some t \<Rightarrow> t)"

fun lines_of :: "string list \<Rightarrow> string list" where
  "lines_of [] = []"
| "lines_of [l] = (if l = [] then [] else [l])"
| "lines_of (l # ls) = strip_cr l # lines_of ls"

definition str_lines :: "string \<Rightarrow> string list" where
  "str_lines s = lines_of (split_char (CHR 0x0A) s)"

definition ascii_lower :: "char \<Rightarrow> char" where
  "ascii_lower c = (let n = of_char c :: nat in if 65 \<le> n \<and> n \<le> 90 then char_of (n + 32) else c)"

definition ascii_upper :: "char \<Rightarrow> char" where
  "ascii_upper c = (let n = of_char c :: nat in if 97 \<le> n \<and> n \<le> 122 then char_of (n - 32) else c)"

definition to_ascii_lowercase :: "string \<Rightarrow> string" where
  "to_ascii_lowercase s = map ascii_lower s"

definition to_ascii_uppercase :: "string \<Rightarrow> string" where
  "to_ascii_uppercase s = map ascii_upper s"

definition str_bytes :: "string \<Rightarrow> bytes" where
  "str_bytes s = map (\<lambda>c. of_char c) s"

subsection \<open>Integers\<close>

datatype int_error = IntEmpty | InvalidDigit | PosOverflow | NegOverflow

definition int_error_text :: "int_error \<Rightarrow> string" where
  "int_error_text e =
     (case e of
        IntEmpty \<Rightarrow> ''cannot parse integer from empty string''
      | InvalidDigit \<Rightarrow> ''invalid digit found in string''
      | PosOverflow \<Rightarrow> ''number too large to fit in target type''
      | NegOverflow \<Rightarrow> ''number too small to fit in target type'')"

definition to_digit :: "nat \<Rightarrow> char \<Rightarrow> nat option" where
  "to_digit radix c =
     (let n = of_char c :: nat;
          d = (if 48 \<le> n \<and> n \<le> 57 then n - 48
               else if 97 \<le> n \<and> n \<le> 122 then n - 87
               else if 65 \<le> n \<and> n \<le> 90 then n - 55
               else radix)
      in if d < radix then Some d else None)"

fun parse_pos :: "nat \<Rightarrow> int \<Rightarrow> int \<Rightarrow> string \<Rightarrow> (int, int_error) outcome" where
  "parse_pos radix hi acc [] = Ok acc"
| "parse_pos radix hi acc (c # cs) =
     (case to_digit radix c of
        None \<Rightarrow> Err InvalidDigit
      | Some d \<Rightarrow>
          if hi < acc * int radix \<or> hi < acc * int radix + int d then Err PosOverflow
          else parse_pos radix hi (acc * int radix + int d) cs)"

fun parse_neg :: "nat \<Rightarrow> int \<Rightarrow> int \<Rightarrow> string \<Rightarrow> (int, int_error) outcome" where
  "parse_neg radix lo acc [] = Ok acc"
| "parse_neg radix lo acc (c # cs) =
     (case to_digit radix c of
        None \<Rightarrow> Err InvalidDigit
      | Some d \<Rightarrow>
          if acc * int radix < lo \<or> acc * int radix - int d < lo then Err NegOverflow
          else parse_neg radix lo (acc * int radix - int d) cs)"

definition parse_int :: "nat \<Rightarrow> int \<Rightarrow> int \<Rightarrow> string \<Rightarrow> (int, int_error) outcome" where
  "parse_int radix lo hi s =
     (case s of
        [] \<Rightarrow> Err IntEmpty
      | c # cs \<Rightarrow>
          if (c = CHR ''+'' \<or> c = CHR ''-'') \<and> cs = [] then Err InvalidDigit
          else if c = CHR ''+'' then parse_pos radix hi 0 cs
          else if c = CHR ''-'' \<and> lo < 0 then parse_neg radix lo 0 cs
          else parse_pos radix hi 0 s)"

definition parse_u8 :: "string \<Rightarrow> (u8, int_error) outcome" where
  "parse_u8 s = obind (parse_int 10 0 255 s) (\<lambda>n. Ok (of_int n))"

definition parse_u32 :: "string \<Rightarrow> (u32, int_error) outcome" where
  "parse_u32 s = obind (parse_int 10 0 (2 ^ 32 - 1) s) (\<lambda>n. Ok (of_int n))"

definition parse_i32 :: "string \<Rightarrow> (i32, int_error) outcome" where
  "parse_i32 s = obind (parse_int 10 (- (2 ^ 31)) (2 ^ 31 - 1) s) (\<lambda>n. Ok (of_int n))"

definition parse_i32_hex :: "string \<Rightarrow> (i32, int_error) outcome" where
  "parse_i32_hex s = obind (parse_int 16 (- (2 ^ 31)) (2 ^ 31 - 1) s) (\<lambda>n. Ok (of_int n))"

definition parse_usize :: "string \<Rightarrow> (usize, int_error) outcome" where
  "parse_usize s = obind (parse_int 10 0 (2 ^ 64 - 1) s) (\<lambda>n. Ok (nat n))"

definition parse_i64 :: "string \<Rightarrow> (int, int_error) outcome" where
  "parse_i64 s = parse_int 10 (- (2 ^ 63)) (2 ^ 63 - 1) s"

definition outcome_ok :: "('a, 'e) outcome \<Rightarrow> 'a option" where
  "outcome_ok r = (case r of Ok x \<Rightarrow> Some x | _ \<Rightarrow> None)"

definition digit_char :: "nat \<Rightarrow> char" where
  "digit_char d = char_of (48 + d)"

fun show_nat :: "nat \<Rightarrow> string" where
  "show_nat n = (if n < 10 then [digit_char n] else show_nat (n div 10) @ [digit_char (n mod 10)])"

declare show_nat.simps [simp del]

definition show_int :: "int \<Rightarrow> string" where
  "show_int n = (if n < 0 then CHR ''-'' # show_nat (nat (- n)) else show_nat (nat n))"

text \<open>\<open>format!("{:04}")\<close>.\<close>

definition show_pad4 :: "nat \<Rightarrow> string" where
  "show_pad4 n = (let s = show_nat n in replicate (4 - length s) (CHR ''0'') @ s)"

primrec join_with :: "string \<Rightarrow> string list \<Rightarrow> string" where
  "join_with sep [] = []"
| "join_with sep (w # ws) = (if ws = [] then w else w @ sep @ join_with sep ws)"


subsection \<open>Printing and parsing decimals\<close>

lemma of_char_digit_char: "d < 10 \<Longrightarrow> of_char (digit_char d) = 48 + d"
  by (simp add: digit_char_def)

lemma to_digit_digit_char [simp]: "d < 10 \<Longrightarrow> to_digit 10 (digit_char d) = Some d"
  by (simp add: to_digit_def of_char_digit_char Let_def)

lemma digit_char_not_sign: "d < 10 \<Longrightarrow> digit_char d \<noteq> CHR ''+'' \<and> digit_char d \<noteq> CHR ''-''"
proof -
  assume "d < 10"
  then have "of_char (digit_char d) = 48 + d" by (rule of_char_digit_char)
  then show ?thesis by (auto dest!: arg_cong [of _ _ "of_char :: char \<Rightarrow> nat"])
qed

lemma show_nat_nonempty [simp]: "show_nat n \<noteq> []"
  by (subst show_nat.simps) simp

lemma show_nat_digits: "c \<in> set (show_nat n) \<Longrightarrow> \<exists>d < 10. c = digit_char d"
proof (induction n rule: show_nat.induct)
  case (1 n)
  show ?case
  proof (cases "n < 10")
    case True
    with 1(2) show ?thesis by (auto simp: show_nat.simps [of n])
  next
    case False
    with 1 show ?thesis by (auto simp: show_nat.simps [of n] intro: exI [of _ "n mod 10"])
  qed
qed

lemma parse_pos_append:
  "parse_pos radix hi acc (xs @ ys) = obind (parse_pos radix hi acc xs) (\<lambda>a. parse_pos radix hi a ys)"
  by (induction radix hi acc xs rule: parse_pos.induct) (auto split: option.splits)

lemma parse_pos_show_nat: "int n \<le> hi \<Longrightarrow> parse_pos 10 hi 0 (show_nat n) = Ok (int n)"
proof (induction n rule: show_nat.induct)
  case (1 n)
  show ?case
  proof (cases "n < 10")
    case True
    with 1(2) show ?thesis by (simp add: show_nat.simps [of n])
  next
    case False
    have n: "int (n div 10) * 10 + int (n mod 10) = int n"
      by (metis div_mult_mod_eq of_nat_add of_nat_mult of_nat_numeral)
    have "parse_pos 10 hi 0 (show_nat (n div 10)) = Ok (int (n div 10))"
      using 1 False n by simp
    with False n 1(2) show ?thesis
      by (simp add: show_nat.simps [of n] parse_pos_append del: of_nat_div of_nat_mod)
  qed
qed

lemma parse_int_show_nat:
  assumes "int n \<le> hi"
  shows "parse_int 10 lo hi (show_nat n) = Ok (int n)"
proof -
  obtain c cs where s: "show_nat n = c # cs" by (cases "show_nat n") auto
  then have "c \<noteq> CHR ''+'' \<and> c \<noteq> CHR ''-''"
    using show_nat_digits [of c n] digit_char_not_sign by auto
  with s parse_pos_show_nat [OF assms] show ?thesis by (simp add: parse_int_def)
qed

lemma parse_u8_show: "n \<le> 255 \<Longrightarrow> parse_u8 (show_nat n) = Ok (of_nat n)"
  by (simp add: parse_u8_def parse_int_show_nat)

lemma parse_u32_show: "n < 2 ^ 32 \<Longrightarrow> parse_u32 (show_nat n) = Ok (of_nat n)"
  by (simp add: parse_u32_def parse_int_show_nat)

lemma show_nat_inject [simp]: "show_nat m = show_nat n \<longleftrightarrow> m = n"
proof
  assume eq: "show_nat m = show_nat n"
  have "(Ok (int m) :: (int, int_error) outcome) = parse_pos 10 (int m + int n) 0 (show_nat m)"
    by (rule parse_pos_show_nat [symmetric]) simp
  also have "\<dots> = parse_pos 10 (int m + int n) 0 (show_nat n)" by (simp only: eq)
  also have "\<dots> = Ok (int n)" by (rule parse_pos_show_nat) simp
  finally show "m = n" by simp
qed simp

lemma parse_pos_zeros: "0 \<le> hi \<Longrightarrow> parse_pos 10 hi 0 (replicate k (CHR ''0'') @ s) = parse_pos 10 hi 0 s"
proof (induction k)
  case 0
  then show ?case by simp
next
  case (Suc k)
  have "to_digit 10 (CHR ''0'') = Some 0" by (simp add: to_digit_def)
  with Suc show ?case by simp
qed

lemma parse_pos_show_pad4: "int n \<le> hi \<Longrightarrow> parse_pos 10 hi 0 (show_pad4 n) = Ok (int n)"
  by (simp add: show_pad4_def Let_def parse_pos_zeros parse_pos_show_nat)

lemma show_pad4_inject [simp]: "show_pad4 m = show_pad4 n \<longleftrightarrow> m = n"
proof
  assume eq: "show_pad4 m = show_pad4 n"
  have "(Ok (int m) :: (int, int_error) outcome) = parse_pos 10 (int m + int n) 0 (show_pad4 m)"
    by (rule parse_pos_show_pad4 [symmetric]) simp
  also have "\<dots> = parse_pos 10 (int m + int n) 0 (show_pad4 n)" by (simp only: eq)
  also have "\<dots> = Ok (int n)" by (rule parse_pos_show_pad4) simp
  finally show "m = n" by simp
qed simp

subsection \<open>Searching\<close>

lemma starts_with_iff: "starts_with p s \<longleftrightarrow> (\<exists>t. s = p @ t)"
  by (metis append_eq_conv_conj append_take_drop_id starts_with_def)

lemma starts_with_append [simp]: "starts_with p (p @ s)"
  by (simp add: starts_with_def)

lemma starts_with_length: "starts_with p s \<Longrightarrow> length p \<le> length s"
  by (auto simp: starts_with_iff)

lemma find_str_Some: "find_str pat s = Some i \<Longrightarrow> i + length pat \<le> length s \<and> starts_with pat (drop i s)"
proof (induction s arbitrary: i)
  case Nil
  then show ?case by (simp add: starts_with_def split: if_splits)
next
  case (Cons c cs)
  show ?case
  proof (cases "starts_with pat (c # cs)")
    case True
    with Cons.prems starts_with_length [OF True] show ?thesis by simp
  next
    case False
    with Cons show ?thesis by auto
  qed
qed

lemma find_str_starts: "starts_with pat s \<Longrightarrow> find_str pat s = Some 0"
  by (cases s) (auto simp: starts_with_def)

lemma contains_iff: "contains pat s \<longleftrightarrow> (\<exists>a b. s = a @ pat @ b)"
proof
  assume "contains pat s"
  then obtain i where "find_str pat s = Some i" by (auto simp: contains_def)
  then have "starts_with pat (drop i s)" using find_str_Some by blast
  then obtain t where "drop i s = pat @ t" by (auto simp: starts_with_iff)
  then have "s = take i s @ pat @ t" by (metis append_take_drop_id)
  then show "\<exists>a b. s = a @ pat @ b" by blast
next
  assume "\<exists>a b. s = a @ pat @ b"
  then obtain a b where s: "s = a @ pat @ b" by blast
  have "find_str pat (a @ pat @ b) \<noteq> None"
  proof (induction a)
    case Nil
    then show ?case by (simp add: find_str_starts)
  next
    case (Cons c a)
    then show ?case by simp
  qed
  with s show "contains pat s" by (simp add: contains_def)
qed

subsection \<open>Printing and parsing signed decimals\<close>

lemma parse_neg_append:
  "parse_neg radix lo acc (xs @ ys) = obind (parse_neg radix lo acc xs) (\<lambda>a. parse_neg radix lo a ys)"
  by (induction radix lo acc xs rule: parse_neg.induct) (auto split: option.splits)

lemma parse_neg_show_nat: "lo \<le> - int n \<Longrightarrow> parse_neg 10 lo 0 (show_nat n) = Ok (- int n)"
proof (induction n rule: show_nat.induct)
  case (1 n)
  show ?case
  proof (cases "n < 10")
    case True
    with 1(2) show ?thesis by (simp add: show_nat.simps [of n])
  next
    case False
    have n: "int (n div 10) * 10 + int (n mod 10) = int n"
      by (metis div_mult_mod_eq of_nat_add of_nat_mult of_nat_numeral)
    have "parse_neg 10 lo 0 (show_nat (n div 10)) = Ok (- int (n div 10))"
      using 1 False n by simp
    with False n 1(2) show ?thesis
      by (simp add: show_nat.simps [of n] parse_neg_append del: of_nat_div of_nat_mod)
  qed
qed

lemma parse_int_show_int:
  assumes "lo \<le> k" "k \<le> hi" "lo < 0"
  shows "parse_int 10 lo hi (show_int k) = Ok k"
proof (cases "k < 0")
  case True
  then have "parse_neg 10 lo 0 (show_nat (nat (- k))) = Ok k"
    using parse_neg_show_nat [of lo "nat (- k)"] assms by simp
  with True assms(3) show ?thesis by (simp add: show_int_def parse_int_def)
next
  case False
  then show ?thesis using parse_int_show_nat [of "nat k" hi lo] assms by (simp add: show_int_def)
qed

lemma parse_i32_show: "parse_i32 (show_int (sint (v :: i32))) = Ok v"
proof -
  have "- (2 ^ 31) \<le> sint v" "sint v < 2 ^ 31"
    using sint_greater_eq [of v] sint_less [of v] by simp_all
  then show ?thesis by (simp add: parse_i32_def parse_int_show_int)
qed

subsection \<open>Searching through skipped text\<close>

lemma find_str_skip:
  "p \<notin> set xs \<Longrightarrow> find_str (p # ps) (xs @ ys) = map_option (\<lambda>i. length xs + i) (find_str (p # ps) ys)"
  by (cases "find_str (p # ps) ys"; induction xs) (auto simp: starts_with_def)

lemma find_str_skip_None: "p \<notin> set xs \<Longrightarrow> find_str (p # ps) xs = None"
  using find_str_skip [of p xs ps "[]"] by simp

lemma find_char_skip:
  "(\<And>c. c \<in> set xs \<Longrightarrow> \<not> P c) \<Longrightarrow> find_char P (xs @ ys) = map_option (\<lambda>i. length xs + i) (find_char P ys)"
  by (cases "find_char P ys"; induction xs) auto

lemma trim_start_id: "s \<noteq> [] \<Longrightarrow> \<not> is_ws (hd s) \<Longrightarrow> trim_start s = s"
  by (cases s) (auto simp: trim_start_def)

lemma trim_end_id: "s \<noteq> [] \<Longrightarrow> \<not> is_ws (last s) \<Longrightarrow> trim_end s = s"
  by (cases s rule: rev_cases) (auto simp: trim_end_def)

lemma trim_id: "s \<noteq> [] \<Longrightarrow> \<not> is_ws (hd s) \<Longrightarrow> \<not> is_ws (last s) \<Longrightarrow> trim s = s"
  by (simp add: trim_def trim_start_id trim_end_id)

lemma split_char_append:
  "d \<notin> set l \<Longrightarrow> split_char d (l @ d # rest) = l # split_char d rest"
  by (induction l) auto

lemma lines_of_snoc: "ls \<noteq> [] \<Longrightarrow> lines_of (l # ls) = strip_cr l # lines_of ls"
  by (cases ls) auto

lemma split_char_nonempty [simp]: "split_char d s \<noteq> []"
  by (induction s) (auto split: list.splits)

lemma strip_cr_id: "l = [] \<or> last l \<noteq> CHR 0x0D \<Longrightarrow> strip_cr l = l"
  by (cases l rule: rev_cases) (auto simp: strip_cr_def strip_suffix_def ends_with_def starts_with_def)

lemma str_lines_Cons:
  "CHR 0x0A \<notin> set l \<Longrightarrow> l = [] \<or> last l \<noteq> CHR 0x0D \<Longrightarrow> str_lines (l @ CHR 0x0A # rest) = l # str_lines rest"
  by (simp add: str_lines_def split_char_append lines_of_snoc strip_cr_id)

lemma str_lines_concat:
  "list_all (\<lambda>l. CHR 0x0A \<notin> set l \<and> (l = [] \<or> last l \<noteq> CHR 0x0D)) ls \<Longrightarrow>
   str_lines (concat (map (\<lambda>l. l @ [CHR 0x0A]) ls)) = ls"
proof (induction ls)
  case Nil
  then show ?case by (simp add: str_lines_def)
next
  case (Cons l ls)
  then show ?case using str_lines_Cons [of l "concat (map (\<lambda>l. l @ [CHR 0x0A]) ls)"] by simp
qed
end
