(* ===== verification/Concordia_Runtime.thy ===== *)
theory Concordia_Runtime
  imports Aof_Log Rust_Str
begin

text \<open>
  The checkpoint runtime of \<^verbatim>\<open>zluda/src/impl/concordia_runtime.rs\<close>: the tracker and its optional log
  behind one interface, MPI rank detection and rank-scoped log paths, restore from a log, and the
  C-callable entry points with their return codes.

  The process environment is a map from names to values, the disk is the one of the log theory, a C
  pointer is \<open>None\<close> when null and otherwise the bytes that start there.
\<close>

subsection \<open>MPI environment\<close>

record MpiInfo =
  mpi_rank :: u32
  mpi_world_size :: u32
  mpi_local_rank :: u32

type_synonym environ = "string \<rightharpoonup> string"

definition is_parallel :: "MpiInfo \<Rightarrow> bool" where
  "is_parallel info \<longleftrightarrow> mpi_world_size info > 1"

definition MPI_RANK_KEYS :: "string list" where
  "MPI_RANK_KEYS =
     [''CONCORDIA_MPI_RANK'', ''HETGPU_CONCORDIA_MPI_RANK'', ''OMPI_COMM_WORLD_RANK'', ''PMIX_RANK'',
      ''PMI_RANK'', ''MV2_COMM_WORLD_RANK'', ''SLURM_PROCID'', ''RANK'']"

definition MPI_WORLD_KEYS :: "string list" where
  "MPI_WORLD_KEYS =
     [''CONCORDIA_MPI_WORLD_SIZE'', ''HETGPU_CONCORDIA_MPI_WORLD_SIZE'', ''OMPI_COMM_WORLD_SIZE'',
      ''PMIX_SIZE'', ''PMI_SIZE'', ''MV2_COMM_WORLD_SIZE'', ''SLURM_NTASKS'', ''WORLD_SIZE'']"

definition MPI_LOCAL_RANK_KEYS :: "string list" where
  "MPI_LOCAL_RANK_KEYS =
     [''CONCORDIA_MPI_LOCAL_RANK'', ''HETGPU_CONCORDIA_MPI_LOCAL_RANK'', ''OMPI_COMM_WORLD_LOCAL_RANK'',
      ''MPI_LOCALRANKID'', ''MV2_COMM_WORLD_LOCAL_RANK'', ''SLURM_LOCALID'', ''PMI_LOCAL_RANK'',
      ''LOCAL_RANK'']"

fun find_map :: "('a \<Rightarrow> 'b option) \<Rightarrow> 'a list \<Rightarrow> 'b option" where
  "find_map f [] = None"
| "find_map f (x # xs) = (case f x of None \<Rightarrow> find_map f xs | Some y \<Rightarrow> Some y)"

definition u32_try_from :: "int \<Rightarrow> u32 option" where
  "u32_try_from n = (if 0 \<le> n \<and> n < 2 ^ 32 then Some (of_int n) else None)"

definition read_u32_from_pairs :: "(string \<times> string) list \<Rightarrow> string list \<Rightarrow> u32 \<Rightarrow> u32" where
  "read_u32_from_pairs pairs keys fallback =
     (case find_map
        (\<lambda>key. Option.bind
           (Option.bind (map_option snd (List.find (\<lambda>p. fst p = key) pairs))
              (\<lambda>v. outcome_ok (parse_i64 (trim v))))
           u32_try_from) keys of
        None \<Rightarrow> fallback
      | Some n \<Rightarrow> n)"

definition mpi_info_from_pairs :: "(string \<times> string) list \<Rightarrow> MpiInfo" where
  "mpi_info_from_pairs pairs =
     (let rank = read_u32_from_pairs pairs MPI_RANK_KEYS 0;
          world_size = max (read_u32_from_pairs pairs MPI_WORLD_KEYS 1) 1;
          local_rank = read_u32_from_pairs pairs MPI_LOCAL_RANK_KEYS rank
      in \<lparr>mpi_rank = rank, mpi_world_size = world_size, mpi_local_rank = local_rank\<rparr>)"

definition env_pairs :: "environ \<Rightarrow> string list \<Rightarrow> (string \<times> string) list" where
  "env_pairs env keys = List.map_filter (\<lambda>k. map_option (\<lambda>v. (k, v)) (env k)) keys"

definition mpi_info_from_env :: "environ \<Rightarrow> MpiInfo" where
  "mpi_info_from_env env =
     mpi_info_from_pairs (env_pairs env (MPI_RANK_KEYS @ MPI_WORLD_KEYS @ MPI_LOCAL_RANK_KEYS))"

definition env_enabled :: "environ \<Rightarrow> string \<Rightarrow> bool" where
  "env_enabled env name =
     (case env name of
        None \<Rightarrow> False
      | Some v \<Rightarrow> to_ascii_lowercase (trim v) \<in> {''1'', ''true'', ''yes'', ''on''})"

definition runtime_enabled :: "environ \<Rightarrow> bool" where
  "runtime_enabled env \<longleftrightarrow>
     env_enabled env ''CONCORDIA_CHECKPOINT_ON_BOUNDARY'' \<or> env_enabled env ''HETGPU_CONCORDIA_BOUNDARY''"

definition runtime_logs_enabled :: "environ \<Rightarrow> bool" where
  "runtime_logs_enabled env \<longleftrightarrow>
     env_enabled env ''CONCORDIA_LOGS'' \<or> env_enabled env ''HETGPU_CONCORDIA_LOGS''"

definition mpi_scoped_boundary :: "string \<Rightarrow> MpiInfo \<Rightarrow> string" where
  "mpi_scoped_boundary boundary info =
     (if is_parallel info
      then ''rank='' @ show_nat (unat (mpi_rank info)) @ ''/'' @ show_nat (unat (mpi_world_size info))
           @ '' local_rank='' @ show_nat (unat (mpi_local_rank info)) @ '' '' @ boundary
      else boundary)"

subsection \<open>Rank-scoped log paths\<close>

text \<open>
  \<open>std::path::Path\<close> on Unix: a path is read as its components, where empty and inner \<open>.\<close> components
  disappear; the last component is the file name unless it is \<open>..\<close>.
\<close>

definition path_components :: "string \<Rightarrow> string list" where
  "path_components path =
     (case split_char (CHR ''/'') path of
        [] \<Rightarrow> []
      | w # ws \<Rightarrow> (if w = [] then [] else [w]) @ filter (\<lambda>c. c \<noteq> [] \<and> c \<noteq> ''.'') ws)"

definition path_file_name :: "string \<Rightarrow> string option" where
  "path_file_name path =
     (let cs = path_components path
      in if cs = [] \<or> last cs = ''..'' \<or> cs = [''.''] then None else Some (last cs))"

text \<open>The parent keeps the text before the last component, without trailing separators and dots.\<close>

definition trim_pieces :: "string list \<Rightarrow> string list" where
  "trim_pieces ws = rev (dropWhile (\<lambda>c. c = [] \<or> c = ''.'') (rev ws))"

definition path_parent :: "string \<Rightarrow> string option" where
  "path_parent path =
     (case split_char (CHR ''/'') path of
        [] \<Rightarrow> None
      | w # ws \<Rightarrow>
          let body = trim_pieces ws; before = trim_pieces (butlast body)
          in if body = [] then (if w = [] then None else Some [])
             else if before = [] then Some (if w = [] then ''/'' else w)
             else Some (join_with ''/'' (w # before)))"

text \<open>Split a file name at its last dot, unless that dot is its first character.\<close>

definition rsplit_dot :: "string \<Rightarrow> string \<times> string option" where
  "rsplit_dot name =
     (let ext = rev (takeWhile (\<lambda>c. c \<noteq> CHR ''.'') (rev name))
      in if length ext = length name \<or> length ext + 1 = length name then (name, None)
         else (take (length name - length ext - 1) name, Some ext))"

definition path_file_stem :: "string \<Rightarrow> string option" where
  "path_file_stem path = map_option (fst \<circ> rsplit_dot) (path_file_name path)"

definition path_extension :: "string \<Rightarrow> string option" where
  "path_extension path = Option.bind (path_file_name path) (snd \<circ> rsplit_dot)"

definition path_join :: "string \<Rightarrow> string \<Rightarrow> string" where
  "path_join dir name = (if ends_with ''/'' dir then dir @ name else dir @ ''/'' @ name)"

definition ranked_file_name :: "string \<Rightarrow> MpiInfo \<Rightarrow> string" where
  "ranked_file_name path info =
     (let ranked_suffix = ''rank'' @ show_pad4 (unat (mpi_rank info)) @ ''-of-''
            @ show_pad4 (unat (mpi_world_size info));
          file_name = (case path_file_name path of None \<Rightarrow> ''concordia.aof'' | Some n \<Rightarrow> n);
          stem = (case path_file_stem path of None \<Rightarrow> file_name | Some s \<Rightarrow> s)
      in case path_extension path of
           Some ext \<Rightarrow> if ext \<noteq> [] then stem @ ''.'' @ ranked_suffix @ ''.'' @ ext
                       else file_name @ ''.'' @ ranked_suffix
         | None \<Rightarrow> file_name @ ''.'' @ ranked_suffix)"

definition mpi_scoped_aof_path_for_info :: "string \<Rightarrow> MpiInfo \<Rightarrow> string" where
  "mpi_scoped_aof_path_for_info path info =
     (if \<not> is_parallel info then path
      else if contains ''{rank}'' path \<or> contains ''{world}'' path \<or> contains ''{local_rank}'' path then
        replace_str ''{local_rank}'' (show_nat (unat (mpi_local_rank info)))
          (replace_str ''{world}'' (show_nat (unat (mpi_world_size info)))
             (replace_str ''{rank}'' (show_nat (unat (mpi_rank info))) path))
      else
        let ranked_name = ranked_file_name path info
        in case path_parent path of
             Some parent \<Rightarrow> if parent \<noteq> [] then path_join parent ranked_name else ranked_name
           | None \<Rightarrow> ranked_name)"

definition mpi_scoped_aof_path :: "environ \<Rightarrow> string \<Rightarrow> string" where
  "mpi_scoped_aof_path env path = mpi_scoped_aof_path_for_info path (mpi_info_from_env env)"

subsection \<open>The runtime\<close>

record CheckpointSummary =
  sum_epoch :: u64
  sum_region_id :: u64
  sum_dirty_pages :: usize
  sum_dirty_bytes :: usize
  sum_boundary :: string

record RestoreSummary =
  res_region_id :: u64
  res_applied_records :: usize
  res_restored_bytes :: usize
  res_boundary :: string

record ConcordiaRuntime =
  rt_state :: DeltaCheckpointState
  rt_aof :: "AofDiskLog option"
  rt_boundary_count :: u64
  rt_mpi_info :: MpiInfo

datatype runtime_error =
    DeltaError delta_error
  | AppendError string io_error
  | ReadError string io_error
  | ReplayError replay_error

definition runtime_new :: "environ \<Rightarrow> usize \<Rightarrow> ConcordiaRuntime" where
  "runtime_new env ps =
     \<lparr>rt_state = delta_state_new ps, rt_aof = None, rt_boundary_count = 0,
      rt_mpi_info = mpi_info_from_env env\<rparr>"

definition set_aof_path :: "ConcordiaRuntime \<Rightarrow> disk \<Rightarrow> string \<Rightarrow> ConcordiaRuntime \<times> disk" where
  "set_aof_path rt dk path =
     (case aof_create dk path of
        (dk', Ok lg) \<Rightarrow> (rt\<lparr>rt_aof := Some lg\<rparr>, dk')
      | (dk', _) \<Rightarrow> (rt\<lparr>rt_aof := None\<rparr>, dk'))"

definition rt_register_opaque_host_region ::
    "ConcordiaRuntime \<Rightarrow> u64 \<Rightarrow> bytes \<Rightarrow> u64 \<times> ConcordiaRuntime" where
  "rt_register_opaque_host_region rt base_addr initial =
     (case register_opaque_host_region (rt_state rt) base_addr initial of
        (rid, st) \<Rightarrow> (rid, rt\<lparr>rt_state := st\<rparr>))"

definition rt_register_allocator_bitmap_region ::
    "ConcordiaRuntime \<Rightarrow> u64 \<Rightarrow> usize \<Rightarrow> u64 \<times> ConcordiaRuntime" where
  "rt_register_allocator_bitmap_region rt base_addr len =
     (case register_allocator_bitmap_region (rt_state rt) base_addr len of
        (rid, st) \<Rightarrow> (rid, rt\<lparr>rt_state := st\<rparr>))"

text \<open>What both checkpoint operations do once the tracker has produced a delta.\<close>

definition log_delta ::
    "ConcordiaRuntime \<Rightarrow> disk \<Rightarrow> DeltaRecord \<Rightarrow> string \<Rightarrow>
     ConcordiaRuntime \<times> disk \<times> (CheckpointSummary, runtime_error) outcome" where
  "log_delta rt dk delta boundary =
     (let summary = \<lparr>sum_epoch = delta_epoch delta, sum_region_id = delta_region_id delta,
            sum_dirty_pages = length (delta_dirty_pages delta),
            sum_dirty_bytes = sum_list (map (\<lambda>p. length (page_data p)) (delta_dirty_pages delta)),
            sum_boundary = mpi_scoped_boundary boundary (rt_mpi_info rt)\<rparr>
      in case rt_aof rt of
           None \<Rightarrow> (rt, dk, Ok summary)
         | Some lg \<Rightarrow>
             (case aof_append_delta dk lg delta of
                (dk', res) \<Rightarrow> (rt, dk', obind (omap_err (AppendError (log_path lg)) res) (\<lambda>_. Ok summary))))"

definition checkpoint_host_region ::
    "ConcordiaRuntime \<Rightarrow> disk \<Rightarrow> u64 \<Rightarrow> bytes \<Rightarrow> string \<Rightarrow>
     ConcordiaRuntime \<times> disk \<times> (CheckpointSummary, runtime_error) outcome" where
  "checkpoint_host_region rt dk rid current boundary =
     (case create_host_delta (rt_state rt) rid current of
        Ok (delta, st) \<Rightarrow> log_delta (rt\<lparr>rt_state := st\<rparr>) dk delta boundary
      | Err e \<Rightarrow> (rt, dk, Err (DeltaError e))
      | Panic \<Rightarrow> (rt, dk, Panic))"

definition checkpoint_allocator_bitmap_region ::
    "ConcordiaRuntime \<Rightarrow> disk \<Rightarrow> u64 \<Rightarrow> bytes \<Rightarrow> bytes \<Rightarrow> string \<Rightarrow>
     ConcordiaRuntime \<times> disk \<times> (CheckpointSummary, runtime_error) outcome" where
  "checkpoint_allocator_bitmap_region rt dk rid current bitmap boundary =
     (case create_bitmap_delta (rt_state rt) rid current bitmap of
        Ok (delta, st) \<Rightarrow> log_delta (rt\<lparr>rt_state := st\<rparr>) dk delta boundary
      | Err e \<Rightarrow> (rt, dk, Err (DeltaError e))
      | Panic \<Rightarrow> (rt, dk, Panic))"

definition checkpoint_boundary :: "ConcordiaRuntime \<Rightarrow> ConcordiaRuntime" where
  "checkpoint_boundary rt =
     rt\<lparr>rt_boundary_count := (if rt_boundary_count rt = - 1 then - 1 else rt_boundary_count rt + 1)\<rparr>"

definition restore_region_from_aof_path ::
    "disk \<Rightarrow> string \<Rightarrow> u64 \<Rightarrow> bytes \<Rightarrow> bytes \<times> (usize, runtime_error) outcome" where
  "restore_region_from_aof_path dk path rid target =
     (case read_committed dk path of
        Ok records \<Rightarrow>
          (case apply_records_to_region rid target records of
             (target', res) \<Rightarrow> (target', omap_err ReplayError res))
      | Err e \<Rightarrow> (target, Err (ReadError path e))
      | Panic \<Rightarrow> (target, Panic))"

definition restore_host_region_from_aof_path ::
    "ConcordiaRuntime \<Rightarrow> disk \<Rightarrow> string \<Rightarrow> u64 \<Rightarrow> bytes \<Rightarrow> string \<Rightarrow>
     ConcordiaRuntime \<times> bytes \<times> (RestoreSummary, runtime_error) outcome" where
  "restore_host_region_from_aof_path rt dk path rid target boundary =
     (case read_committed dk path of
        Ok records \<Rightarrow>
          (let restored_bytes = sum_list (map (\<lambda>r. length (rec_payload r))
                 (filter (\<lambda>r. rec_region_id r = rid) records))
           in case apply_records_to_region rid target records of
                (target', Ok applied) \<Rightarrow>
                  (case refresh_opaque_shadow (rt_state rt) rid target' of
                     Ok st \<Rightarrow>
                       (rt\<lparr>rt_state := st\<rparr>, target',
                        Ok \<lparr>res_region_id = rid, res_applied_records = applied,
                            res_restored_bytes = restored_bytes,
                            res_boundary = mpi_scoped_boundary boundary (rt_mpi_info rt)\<rparr>)
                   | Err e \<Rightarrow> (rt, target', Err (DeltaError e))
                   | Panic \<Rightarrow> (rt, target', Panic))
              | (target', Err e) \<Rightarrow> (rt, target', Err (ReplayError e))
              | (target', Panic) \<Rightarrow> (rt, target', Panic))
      | Err e \<Rightarrow> (rt, target, Err (ReadError path e))
      | Panic \<Rightarrow> (rt, target, Panic))"

definition global_runtime_init :: "environ \<Rightarrow> disk \<Rightarrow> ConcordiaRuntime \<times> disk" where
  "global_runtime_init env dk =
     (let rt = runtime_new env 4096
      in case (case env ''CONCORDIA_AOF_PATH'' of
                 None \<Rightarrow> env ''HETGPU_CONCORDIA_AOF_PATH'' | Some p \<Rightarrow> Some p) of
           None \<Rightarrow> (rt, dk)
         | Some path \<Rightarrow>
             (case aof_open_append dk (mpi_scoped_aof_path env path) of
                (dk', res) \<Rightarrow> (rt\<lparr>rt_aof := outcome_ok res\<rparr>, dk')))"

subsection \<open>C entry points\<close>

text \<open>
  The global runtime behind its mutex: a panic inside a locked section poisons it, and then every
  \<open>lock()\<close> fails.
\<close>

record ffi_state =
  ffi_runtime :: ConcordiaRuntime
  ffi_poisoned :: bool
  ffi_disk :: disk

definition slice_from_raw :: "bytes option \<Rightarrow> usize \<Rightarrow> bytes option" where
  "slice_from_raw data len =
     (case data of
        None \<Rightarrow> if len \<noteq> 0 then None else Some []
      | Some bs \<Rightarrow> Some (take len bs))"

definition cstr_from_raw :: "string option \<Rightarrow> string \<Rightarrow> string" where
  "cstr_from_raw ptr fallback = (case ptr of None \<Rightarrow> fallback | Some s \<Rightarrow> s)"

definition hetgpu_concordia_register_host_region ::
    "ffi_state \<Rightarrow> u64 \<Rightarrow> bytes option \<Rightarrow> usize \<Rightarrow> u64 \<times> ffi_state" where
  "hetgpu_concordia_register_host_region g base_addr data len =
     (case slice_from_raw data len of
        None \<Rightarrow> (0, g)
      | Some initial \<Rightarrow>
          if ffi_poisoned g then (0, g)
          else case rt_register_opaque_host_region (ffi_runtime g) base_addr initial of
                 (rid, rt) \<Rightarrow> (rid, g\<lparr>ffi_runtime := rt\<rparr>))"

definition hetgpu_concordia_register_bitmap_region ::
    "ffi_state \<Rightarrow> u64 \<Rightarrow> usize \<Rightarrow> u64 \<times> ffi_state" where
  "hetgpu_concordia_register_bitmap_region g base_addr len =
     (if ffi_poisoned g then (0, g)
      else case rt_register_allocator_bitmap_region (ffi_runtime g) base_addr len of
             (rid, rt) \<Rightarrow> (rid, g\<lparr>ffi_runtime := rt\<rparr>))"

text \<open>The \<open>.map(|_| 0).unwrap_or(-2)\<close> of a locked call; \<open>None\<close> is the unwinding exit.\<close>

definition ffi_locked_result ::
    "ffi_state \<Rightarrow> ConcordiaRuntime \<times> disk \<times> (CheckpointSummary, runtime_error) outcome \<Rightarrow>
     int option \<times> ffi_state" where
  "ffi_locked_result g r =
     (case r of (rt, dk, res) \<Rightarrow>
        let g' = g\<lparr>ffi_runtime := rt, ffi_disk := dk\<rparr>
        in case res of
             Ok _ \<Rightarrow> (Some 0, g')
           | Err _ \<Rightarrow> (Some (- 2), g')
           | Panic \<Rightarrow> (None, g'\<lparr>ffi_poisoned := True\<rparr>))"

definition hetgpu_concordia_checkpoint_host_region ::
    "ffi_state \<Rightarrow> u64 \<Rightarrow> bytes option \<Rightarrow> usize \<Rightarrow> string option \<Rightarrow> int option \<times> ffi_state" where
  "hetgpu_concordia_checkpoint_host_region g rid data len boundary =
     (case slice_from_raw data len of
        None \<Rightarrow> (Some (- 1), g)
      | Some current \<Rightarrow>
          if ffi_poisoned g then (Some (- 3), g)
          else ffi_locked_result g
                 (checkpoint_host_region (ffi_runtime g) (ffi_disk g) rid current
                    (cstr_from_raw boundary ''ffi'')))"

definition hetgpu_concordia_checkpoint_bitmap_region ::
    "ffi_state \<Rightarrow> u64 \<Rightarrow> bytes option \<Rightarrow> usize \<Rightarrow> bytes option \<Rightarrow> usize \<Rightarrow> string option \<Rightarrow>
     int option \<times> ffi_state" where
  "hetgpu_concordia_checkpoint_bitmap_region g rid data len dirty_bitmap dirty_bitmap_len boundary =
     (case slice_from_raw data len of
        None \<Rightarrow> (Some (- 1), g)
      | Some current \<Rightarrow>
          (case slice_from_raw dirty_bitmap dirty_bitmap_len of
             None \<Rightarrow> (Some (- 1), g)
           | Some bitmap \<Rightarrow>
               if ffi_poisoned g then (Some (- 3), g)
               else ffi_locked_result g
                      (checkpoint_allocator_bitmap_region (ffi_runtime g) (ffi_disk g) rid current bitmap
                         (cstr_from_raw boundary ''ffi-bitmap''))))"

definition hetgpu_concordia_checkpoint_boundary :: "environ \<Rightarrow> ffi_state \<Rightarrow> int \<times> ffi_state" where
  "hetgpu_concordia_checkpoint_boundary env g =
     (if \<not> runtime_enabled env then (0, g)
      else if ffi_poisoned g then (- 1, g)
      else (0, g\<lparr>ffi_runtime := checkpoint_boundary (ffi_runtime g)\<rparr>))"

text \<open>The restored bytes are what the caller's buffer holds afterwards.\<close>

definition hetgpu_concordia_restore_region_from_aof ::
    "disk \<Rightarrow> string option \<Rightarrow> u64 \<Rightarrow> bytes option \<Rightarrow> usize \<Rightarrow> int option \<times> bytes option" where
  "hetgpu_concordia_restore_region_from_aof dk path rid data len =
     (case path of
        None \<Rightarrow> (Some (- 1), data)
      | Some p \<Rightarrow>
          (case slice_from_raw data len of
             None \<Rightarrow> (Some (- 1), data)
           | Some target \<Rightarrow>
               (case restore_region_from_aof_path dk p rid target of
                  (target', res) \<Rightarrow>
                    (case res of
                       Ok applied \<Rightarrow> Some (if applied < 2 ^ 63 then int applied else - 3)
                     | Err _ \<Rightarrow> Some (- 2)
                     | Panic \<Rightarrow> None,
                     map_option (\<lambda>bs. target' @ drop (length target') bs) data))))"

subsection \<open>Checkpoint and restore on a well-formed runtime\<close>

text \<open>
  The runs of one runtime on a freshly created log in which no append failed. The last argument is
  the history variable of the specification: for every shadowed region, the bytes a restore has to
  start from (what was registered, or what the last in-place restore was given). Slices have fewer
  than \<open>2 ^ 63\<close> elements, as every Rust slice has.
\<close>

inductive rt_run :: "AofDiskLog \<Rightarrow> ConcordiaRuntime \<Rightarrow> disk \<Rightarrow> (u64 \<rightharpoonup> bytes) \<Rightarrow> bool" for lg where
  run_start:
    "set_aof_path (runtime_new env ps) dk (log_path lg) = (rt, dk') \<Longrightarrow> rt_aof rt = Some lg \<Longrightarrow>
     rt_run lg rt dk' (\<lambda>_. None)"
| run_register:
    "rt_run lg rt dk base \<Longrightarrow> next_region_id (rt_state rt) + 1 \<noteq> 0 \<Longrightarrow> length initial < 2 ^ 63 \<Longrightarrow>
     rt_register_opaque_host_region rt addr initial = (rid, rt') \<Longrightarrow>
     rt_run lg rt' dk (base(rid \<mapsto> initial))"
| run_register_bitmap:
    "rt_run lg rt dk base \<Longrightarrow> next_region_id (rt_state rt) + 1 \<noteq> 0 \<Longrightarrow>
     rt_register_allocator_bitmap_region rt addr len = (rid, rt') \<Longrightarrow> rt_run lg rt' dk base"
| run_host:
    "rt_run lg rt dk base \<Longrightarrow> length current < 2 ^ 63 \<Longrightarrow>
     checkpoint_host_region rt dk rid current boundary = (rt', dk', res) \<Longrightarrow>
     (\<nexists>p e. res = Err (AppendError p e)) \<Longrightarrow> rt_run lg rt' dk' base"
| run_bitmap:
    "rt_run lg rt dk base \<Longrightarrow> length current < 2 ^ 63 \<Longrightarrow>
     checkpoint_allocator_bitmap_region rt dk rid current bitmap boundary = (rt', dk', res) \<Longrightarrow>
     (\<nexists>p e. res = Err (AppendError p e)) \<Longrightarrow> rt_run lg rt' dk' base"
| run_boundary:
    "rt_run lg rt dk base \<Longrightarrow> rt_run lg (checkpoint_boundary rt) dk base"
| run_restore:
    "rt_run lg rt dk base \<Longrightarrow> length target < 2 ^ 63 \<Longrightarrow>
     restore_host_region_from_aof_path rt dk (log_path lg) rid target boundary = (rt', target', Ok summary) \<Longrightarrow>
     rt_run lg rt' dk (base(rid \<mapsto> target))"

text \<open>What ties a runtime to the records its log holds.\<close>

definition log_matches :: "DeltaCheckpointState \<Rightarrow> AofRecord list \<Rightarrow> (u64 \<rightharpoonup> bytes) \<Rightarrow> bool" where
  "log_matches st rs base \<longleftrightarrow>
     wf_delta_state st \<and>
     (\<forall>r \<in> set rs. rec_region_id r < next_region_id st) \<and>
     (\<forall>rid s0. base rid = Some s0 \<longrightarrow> length s0 < 2 ^ 63 \<and>
        (\<exists>s n. shadow_of st rid = Some s \<and> apply_records rid rs s0 0 = (s, Ok n)))"

lemma log_matchesI:
  assumes "wf_delta_state st" "\<And>r. r \<in> set rs \<Longrightarrow> rec_region_id r < next_region_id st"
    "\<And>rid s0. base rid = Some s0 \<Longrightarrow> length s0 < 2 ^ 63 \<and>
        (\<exists>s n. shadow_of st rid = Some s \<and> apply_records rid rs s0 0 = (s, Ok n))"
  shows "log_matches st rs base"
  using assms by (simp add: log_matches_def)

lemma log_matchesD:
  "log_matches st rs base \<Longrightarrow> base rid = Some s0 \<Longrightarrow> shadow_of st rid = Some s \<Longrightarrow>
   \<exists>n. apply_records rid rs s0 0 = (s, Ok n)"
  unfolding log_matches_def by fastforce

lemma apply_records_region:
  "rid \<noteq> i \<Longrightarrow> \<forall>r \<in> set rs. rec_region_id r = i \<Longrightarrow> apply_records rid rs t n = (t, Ok n)"
  by (rule apply_records_other) auto

lemma shadow_of_register:
  assumes "register_opaque_host_region st addr initial = (rid, st')" "wf_delta_state st"
  shows "shadow_of st' i = (if i = rid then Some initial else shadow_of st i)"
proof -
  have "find_region (next_region_id st) (regions st) = None"
    using assms(2) by (auto simp: wf_delta_state_def find_region_def find_None_iff)
  with assms(1) show ?thesis
    by (auto simp: register_opaque_host_region_def shadow_of_def find_region_append Let_def
        split: option.splits)
qed

lemma shadow_of_register_bitmap:
  assumes "register_allocator_bitmap_region st addr len = (rid, st')"
  shows "shadow_of st' i = shadow_of st i"
  using assms by (auto simp: register_allocator_bitmap_region_def shadow_of_def find_region_append Let_def
      split: option.splits if_splits)

lemma log_matches_register:
  assumes m: "log_matches st rs base" and ok: "next_region_id st + 1 \<noteq> 0" "length initial < 2 ^ 63"
    and reg: "register_opaque_host_region st addr initial = (rid, st')"
  shows "log_matches st' rs (base(rid \<mapsto> initial))"
proof (rule log_matchesI)
  have rid: "rid = next_region_id st" and nx: "next_region_id st' = next_region_id st + 1"
    using reg by (auto simp: register_opaque_host_region_def Let_def)
  have wf: "wf_delta_state st" using m by (simp add: log_matches_def)
  show "wf_delta_state st'" using wf_register_opaque [OF wf ok(1), of addr initial] reg by simp
  show "rec_region_id r < next_region_id st'" if "r \<in> set rs" for r
    using m that ok(1) by (simp add: log_matches_def nx word_less_add_one)
  fix i s0
  assume b: "(base(rid \<mapsto> initial)) i = Some s0"
  show "length s0 < 2 ^ 63 \<and> (\<exists>s n. shadow_of st' i = Some s \<and> apply_records i rs s0 0 = (s, Ok n))"
  proof (cases "i = rid")
    case True
    have "apply_records rid rs initial 0 = (initial, Ok 0)"
      using m by (intro apply_records_other) (auto simp: log_matches_def rid)
    with True b ok(2) shadow_of_register [OF reg wf] show ?thesis by simp
  next
    case False
    with b m shadow_of_register [OF reg wf] show ?thesis by (auto simp: log_matches_def)
  qed
qed

lemma log_matches_register_bitmap:
  assumes m: "log_matches st rs base" and ok: "next_region_id st + 1 \<noteq> 0"
    and reg: "register_allocator_bitmap_region st addr len = (rid, st')"
  shows "log_matches st' rs base"
proof (rule log_matchesI)
  have nx: "next_region_id st' = next_region_id st + 1"
    using reg by (auto simp: register_allocator_bitmap_region_def Let_def)
  have wf: "wf_delta_state st" using m by (simp add: log_matches_def)
  show "wf_delta_state st'" using wf_register_bitmap [OF wf ok(1), of addr len] reg by simp
  show "rec_region_id r < next_region_id st'" if "r \<in> set rs" for r
    using m that ok(1) by (simp add: log_matches_def nx word_less_add_one)
qed (use m shadow_of_register_bitmap [OF reg] in \<open>auto simp: log_matches_def\<close>)

lemma known_region_id:
  "wf_delta_state st \<Longrightarrow> find_region rid (regions st) = Some r \<Longrightarrow> rid < next_region_id st"
  by (auto simp: wf_delta_state_def dest!: find_region_Some)

lemma log_matches_host:
  assumes m: "log_matches st rs base" and d: "create_host_delta st rid current = Ok (d, st')"
    and len: "length current < 2 ^ 63"
  shows "log_matches st' (rs @ delta_records d) base"
    and "\<forall>r \<in> set (delta_records d). wf_record r"
proof -
  have wf: "wf_delta_state st" using m by (simp add: log_matches_def)
  then have ps: "0 < page_size st" by (simp add: wf_delta_state_def)
  from wf d obtain q shadow where q: "find_region rid (regions st) = Some q"
    and sh: "shadow_of st rid = Some shadow" "length shadow = length current"
    and de: "d = \<lparr>delta_epoch = next_epoch st, delta_region_id = rid, delta_base_addr = region_base_addr q,
         delta_dirty_pages = delta_pages rid (page_size st) current shadow
           (page_offsets (page_size st) (length current))\<rparr>"
    and st': "st' = st\<lparr>next_epoch := next_epoch st + 1, regions := set_shadow rid current (regions st)\<rparr>"
    by (rule create_host_delta_OkD)
  let ?pages = "delta_dirty_pages d"
  have fit: "\<forall>p \<in> set ?pages. page_region_id p = rid \<and> page_offset p + length (page_data p) \<le> length current"
    using delta_pages_fit [OF _ ps] by (simp add: de)
  then show "\<forall>r \<in> set (delta_records d). wf_record r"
    using len by (force simp: delta_records_def page_record_def wf_record_def)
  have ids: "\<forall>r \<in> set (delta_records d). rec_region_id r = rid"
    using fit by (auto simp: delta_records_def page_record_def)
  show "log_matches st' (rs @ delta_records d) base"
  proof (rule log_matchesI)
    show "wf_delta_state st'" using wf d by (rule wf_create_host_delta)
    show "rec_region_id r < next_region_id st'" if "r \<in> set (rs @ delta_records d)" for r
      using that m ids known_region_id [OF wf q] by (auto simp: log_matches_def st')
    fix i s0
    assume "base i = Some s0"
    then obtain s n where s: "length s0 < 2 ^ 63" "shadow_of st i = Some s"
      "apply_records i rs s0 0 = (s, Ok n)"
      using m unfolding log_matches_def by blast
    show "length s0 < 2 ^ 63 \<and>
        (\<exists>s n. shadow_of st' i = Some s \<and> apply_records i (rs @ delta_records d) s0 0 = (s, Ok n))"
    proof (cases "i = rid")
      case True
      have "apply_records rid (map (page_record (delta_epoch d)) ?pages) shadow n =
          (apply_pages ?pages shadow, Ok (n + length ?pages))"
        using fit sh(2) len by (intro apply_page_records) simp_all
      moreover have "apply_pages ?pages shadow = current"
        using delta_pages_apply [OF sh(2) ps] by (simp add: de)
      ultimately show ?thesis
        using True s sh(1) q
        by (simp add: apply_records_append delta_records_def st' shadow_of_set_shadow)
    next
      case False
      with s apply_records_region [OF False ids] show ?thesis
        by (simp add: apply_records_append st' shadow_of_set_shadow)
    qed
  qed
qed


lemma log_matches_bitmap:
  assumes m: "log_matches st rs base" and d: "create_bitmap_delta st rid current bitmap = Ok (d, st')"
    and len: "length current < 2 ^ 63"
  shows "log_matches st' (rs @ delta_records d) base"
    and "\<forall>r \<in> set (delta_records d). wf_record r"
proof -
  have wf: "wf_delta_state st" using m by (simp add: log_matches_def)
  then have ps: "0 < page_size st" by (simp add: wf_delta_state_def)
  note d_eq = create_bitmap_delta_OkD [OF wf d]
  obtain q where q: "find_region rid (regions st) = Some q" "region_kind q = AllocatorBitmap"
    using d by (auto simp: create_bitmap_delta_def split: if_splits)
  have no_shadow: "shadow_of st rid = None"
    using wf find_region_Some [OF q(1)] q by (auto simp: wf_delta_state_def region_ok_def shadow_of_def)
  have fit: "\<forall>p \<in> set (delta_dirty_pages d). page_region_id p = rid \<and>
      page_offset p + length (page_data p) \<le> length current"
    using page_offsets_lt [OF ps] by (fastforce simp: d_eq bitmap_pages_def page_at_def)
  then show "\<forall>r \<in> set (delta_records d). wf_record r"
    using len by (force simp: delta_records_def page_record_def wf_record_def)
  have ids: "\<forall>r \<in> set (delta_records d). rec_region_id r = rid"
    using fit by (auto simp: delta_records_def page_record_def)
  have sh: "shadow_of st' i = shadow_of st i" for i by (simp add: d_eq shadow_of_def)
  show "log_matches st' (rs @ delta_records d) base"
  proof (rule log_matchesI)
    show "wf_delta_state st'" using wf d by (rule wf_create_bitmap_delta)
    show "rec_region_id r < next_region_id st'" if "r \<in> set (rs @ delta_records d)" for r
      using that m ids known_region_id [OF wf q(1)] by (auto simp: log_matches_def d_eq)
    fix i s0
    assume "base i = Some s0"
    then obtain s n where s: "length s0 < 2 ^ 63" "shadow_of st i = Some s"
      "apply_records i rs s0 0 = (s, Ok n)"
      using m unfolding log_matches_def by blast
    then have "i \<noteq> rid" using no_shadow by auto
    from s apply_records_region [OF this ids]
    show "length s0 < 2 ^ 63 \<and>
        (\<exists>s n. shadow_of st' i = Some s \<and> apply_records i (rs @ delta_records d) s0 0 = (s, Ok n))"
      by (simp add: apply_records_append sh)
  qed
qed

lemma log_delta_keeps:
  "log_delta rt dk d boundary = (rt', dk', res) \<Longrightarrow> rt' = rt"
  by (auto simp: log_delta_def Let_def split: option.splits prod.splits)

lemma aof_append_delta_no_panic: "snd (aof_append_delta dk lg d) \<noteq> Panic"
proof -
  have "snd (aof_append_pages dk lg e ps) \<noteq> Panic" for e ps
    by (induction ps arbitrary: dk)
      (auto simp: aof_append_record_def split: prod.splits outcome.splits if_splits)
  then show ?thesis by (simp add: aof_append_delta_def)
qed

lemma log_delta_append:
  assumes "log_delta rt dk d boundary = (rt', dk', res)" "rt_aof rt = Some lg"
    "\<nexists>p e. res = Err (AppendError p e)" "disk_holds lg dk rs" "\<forall>r \<in> set (delta_records d). wf_record r"
  shows "disk_holds lg dk' (rs @ delta_records d)"
proof -
  obtain r where r: "aof_append_delta dk lg d = (dk', r)"
    and res: "res = obind (omap_err (AppendError (log_path lg)) r) (\<lambda>_. Ok
       \<lparr>sum_epoch = delta_epoch d, sum_region_id = delta_region_id d,
        sum_dirty_pages = length (delta_dirty_pages d),
        sum_dirty_bytes = sum_list (map (\<lambda>p. length (page_data p)) (delta_dirty_pages d)),
        sum_boundary = mpi_scoped_boundary boundary (rt_mpi_info rt)\<rparr>)"
    using assms(1,2) by (auto simp: log_delta_def Let_def split: prod.splits)
  have "r = Ok ()" using res assms(3) aof_append_delta_no_panic [of dk lg d] r by (cases r) auto
  then have "append_each (disk_append lg) dk (delta_records d) = (dk', True)"
    using aof_append_delta_each [OF r] by (simp add: delta_records_def)
  then show ?thesis using disk_log.append_each_ok [OF assms(4,5)] by blast
qed

lemma set_aof_path_holds:
  "set_aof_path rt dk (log_path lg) = (rt', dk') \<Longrightarrow> rt_aof rt' = Some lg \<Longrightarrow>
   rt_state rt' = rt_state rt \<and> disk_holds lg dk' []"
  by (auto simp: set_aof_path_def aof_create_def disk_holds_def split: if_splits)

lemma rt_run_matches:
  assumes "rt_run lg rt dk base"
  shows "rt_aof rt = Some lg \<and> (\<exists>rs. disk_holds lg dk rs \<and> log_matches (rt_state rt) rs base)"
  using assms
proof (induction rule: rt_run.induct)
  case (run_start env ps dk rt dk')
  with set_aof_path_holds [OF run_start] show ?case
    by (auto simp: runtime_new_def log_matches_def wf_delta_state_new)
next
  case (run_register rt dk base initial addr rid rt')
  then obtain st where st: "register_opaque_host_region (rt_state rt) addr initial = (rid, st)"
    "rt' = rt\<lparr>rt_state := st\<rparr>"
    by (auto simp: rt_register_opaque_host_region_def split: prod.splits)
  from run_register obtain rs where rs: "disk_holds lg dk rs" "log_matches (rt_state rt) rs base" by blast
  from log_matches_register [OF rs(2) run_register(2,3) st(1)] rs(1) run_register st(2) show ?case
    by (auto simp del: fun_upd_apply)
next
  case (run_register_bitmap rt dk base addr len rid rt')
  then obtain st where st: "register_allocator_bitmap_region (rt_state rt) addr len = (rid, st)"
    "rt' = rt\<lparr>rt_state := st\<rparr>"
    by (auto simp: rt_register_allocator_bitmap_region_def split: prod.splits)
  from run_register_bitmap obtain rs where rs: "disk_holds lg dk rs" "log_matches (rt_state rt) rs base" by blast
  from log_matches_register_bitmap [OF rs(2) run_register_bitmap(2) st(1)] rs(1) run_register_bitmap st(2)
  show ?case by auto
next
  case (run_host rt dk base current rid boundary rt' dk' res)
  then obtain rs where rs: "disk_holds lg dk rs" "log_matches (rt_state rt) rs base" by blast
  show ?case
  proof (cases "create_host_delta (rt_state rt) rid current")
    case (Ok x)
    obtain d st where x: "x = (d, st)" by (cases x)
    have log: "log_delta (rt\<lparr>rt_state := st\<rparr>) dk d boundary = (rt', dk', res)"
      using run_host Ok x by (simp add: checkpoint_host_region_def)
    note m = log_matches_host [OF rs(2) Ok [unfolded x] \<open>length current < 2 ^ 63\<close>]
    have "disk_holds lg dk' (rs @ delta_records d)"
      using log_delta_append [OF log _ run_host(4) rs(1) m(2)] run_host by simp
    with m(1) log_delta_keeps [OF log] run_host show ?thesis by auto
  qed (use run_host rs in \<open>auto simp: checkpoint_host_region_def\<close>)
next
  case (run_bitmap rt dk base current rid bitmap boundary rt' dk' res)
  then obtain rs where rs: "disk_holds lg dk rs" "log_matches (rt_state rt) rs base" by blast
  show ?case
  proof (cases "create_bitmap_delta (rt_state rt) rid current bitmap")
    case (Ok x)
    obtain d st where x: "x = (d, st)" by (cases x)
    have log: "log_delta (rt\<lparr>rt_state := st\<rparr>) dk d boundary = (rt', dk', res)"
      using run_bitmap Ok x by (simp add: checkpoint_allocator_bitmap_region_def)
    note m = log_matches_bitmap [OF rs(2) Ok [unfolded x] \<open>length current < 2 ^ 63\<close>]
    have "disk_holds lg dk' (rs @ delta_records d)"
      using log_delta_append [OF log _ run_bitmap(4) rs(1) m(2)] run_bitmap by simp
    with m(1) log_delta_keeps [OF log] run_bitmap show ?thesis by auto
  qed (use run_bitmap rs in \<open>auto simp: checkpoint_allocator_bitmap_region_def\<close>)
next
  case (run_boundary rt dk base)
  then show ?case by (simp add: checkpoint_boundary_def)
next
  case (run_restore rt dk base target rid boundary rt' target' summary)
  then obtain rs where rs: "disk_holds lg dk rs" "log_matches (rt_state rt) rs base" by blast
  obtain n st where n: "apply_records rid rs target 0 = (target', Ok n)"
    and st: "refresh_opaque_shadow (rt_state rt) rid target' = Ok st" "rt' = rt\<lparr>rt_state := st\<rparr>"
    using run_restore(3) disk_holds_read [OF rs(1)]
    by (auto simp: restore_host_region_from_aof_path_def apply_records_to_region_def Let_def
        split: prod.splits outcome.splits)
  have "log_matches st rs (base(rid \<mapsto> target))"
    using rs(2) n run_restore(2) wf_refresh_opaque_shadow [OF _ st(1)] next_region_id_unchanged(3) [OF st(1)]
    by (auto simp: log_matches_def shadow_of_refresh [OF st(1)])
  with rs(1) st(2) run_restore show ?case by (auto simp del: fun_upd_apply)
qed

lemma restore_of_holds:
  assumes "disk_holds lg dk rs"
  shows "restore_region_from_aof_path dk (log_path lg) rid target =
    (case apply_records rid rs target 0 of (t, res) \<Rightarrow> (t, omap_err ReplayError res))"
  by (simp add: restore_region_from_aof_path_def disk_holds_read [OF assms] apply_records_to_region_def)

lemma checkpoint_host_region_OkD:
  assumes "checkpoint_host_region rt dk rid current boundary = (rt', dk', Ok summary)"
  obtains d st where "create_host_delta (rt_state rt) rid current = Ok (d, st)"
    "rt' = rt\<lparr>rt_state := st\<rparr>"
    "sum_dirty_pages summary = length (delta_dirty_pages d)"
proof -
  from assms obtain d st where d: "create_host_delta (rt_state rt) rid current = Ok (d, st)"
    and log: "log_delta (rt\<lparr>rt_state := st\<rparr>) dk d boundary = (rt', dk', Ok summary)"
    by (auto simp: checkpoint_host_region_def split: outcome.splits)
  from log have "sum_dirty_pages summary = length (delta_dirty_pages d)"
    by (auto simp: log_delta_def Let_def split: option.splits prod.splits)
  with d log_delta_keeps [OF log] that show thesis by blast
qed

lemma delta_pages_same: "delta_pages rid ps xs xs offs = []"
  by (simp add: delta_pages_def page_differs_def)

lemma checkpoint_unchanged:
  assumes "wf_delta_state (rt_state rt)" "find_region rid (regions (rt_state rt)) = Some r"
    "region_kind r = OpaqueShadow" "region_len r = length current" "shadow_of (rt_state rt) rid = Some current"
  shows "\<exists>rt' summary. checkpoint_host_region rt dk rid current boundary = (rt', dk, Ok summary) \<and>
           sum_dirty_pages summary = 0"
  using create_host_delta_eq [OF assms]
  by (simp add: checkpoint_host_region_def log_delta_def delta_pages_same aof_append_delta_def Let_def
      split: option.splits)

lemma ranked_file_name_inject:
  assumes "ranked_file_name path i = ranked_file_name path j" "mpi_world_size i = mpi_world_size j"
  shows "mpi_rank i = mpi_rank j"
proof -
  have "show_pad4 (unat (mpi_rank i)) = show_pad4 (unat (mpi_rank j))"
    using assms by (auto simp: ranked_file_name_def Let_def split: option.splits if_splits)
  then show ?thesis by (simp add: word_unat_eq_iff)
qed

lemma log_delta_no_panic:
  assumes "log_delta rt dk d boundary = (rt', dk', res)"
  shows "res \<noteq> Panic"
proof (cases "rt_aof rt")
  case None
  with assms show ?thesis by (auto simp: log_delta_def Let_def)
next
  case (Some lg)
  obtain dk2 r where "aof_append_delta dk lg d = (dk2, r)" by fastforce
  with Some assms aof_append_delta_no_panic [of dk lg d] show ?thesis
    by (cases r) (auto simp: log_delta_def Let_def)
qed

lemma checkpoint_host_region_wf:
  assumes "wf_delta_state (rt_state rt)" "checkpoint_host_region rt dk rid current boundary = (rt', dk', res)"
  shows "wf_delta_state (rt_state rt')" "res \<noteq> Panic"
proof -
  show "wf_delta_state (rt_state rt')"
    using assms wf_create_host_delta [OF assms(1)]
    by (auto simp: checkpoint_host_region_def split: outcome.splits dest!: log_delta_keeps)
  show "res \<noteq> Panic"
  proof (cases "create_host_delta (rt_state rt) rid current")
    case (Ok x)
    with assms(2) show ?thesis
      by (cases x) (auto simp: checkpoint_host_region_def dest: log_delta_no_panic)
  qed (use assms create_host_delta_no_panic [OF assms(1)] in \<open>auto simp: checkpoint_host_region_def\<close>)
qed

subsection \<open>A concrete runtime for the witnesses\<close>

abbreviation example_mpi :: "u32 \<Rightarrow> u32 \<Rightarrow> MpiInfo" where
  "example_mpi r w \<equiv> \<lparr>mpi_rank = r, mpi_world_size = w, mpi_local_rank = r\<rparr>"

abbreviation example_rt :: "DeltaCheckpointState \<Rightarrow> ConcordiaRuntime" where
  "example_rt st \<equiv> \<lparr>rt_state = st, rt_aof = Some example_log, rt_boundary_count = 0, rt_mpi_info = example_mpi 0 1\<rparr>"

lemma mpi_info_empty: "mpi_info_from_env (\<lambda>_. None) = example_mpi 0 1"
  by code_simp

lemma example_run: "rt_run example_log (example_rt example_tracker) (example_disk []) [1 \<mapsto> [1, 2, 3]]"
proof -
  have 1: "rt_run example_log (example_rt (delta_state_new 2)) (example_disk []) (\<lambda>_. None)"
    by (rule run_start [of "\<lambda>_. None" 2 "example_disk []"])
      (simp_all add: set_aof_path_def aof_create_def runtime_new_def mpi_info_empty)
  show ?thesis
    by (rule run_register [OF 1, of "[1, 2, 3]" "0x1000"])
      (simp_all add: rt_register_opaque_host_region_def register_opaque_host_region_def delta_state_new_def Let_def)
qed

lemma example_append:
  "\<exists>dk'. aof_append_delta ((example_disk [])\<lparr>disk_room := n\<rparr>) example_log example_delta =
     (dk', if 49 \<le> n then Ok () else Err WriteFailed)"
proof -
  let ?dk = "(example_disk [])\<lparr>disk_room := n\<rparr>"
  let ?r = "page_record 1 \<lparr>page_region_id = 1, page_offset = 2, page_data = [9]\<rparr>"
  obtain dk' res where r: "aof_append_record ?dk example_log ?r = (dk', res)" by fastforce
  have "res = (if 49 \<le> n then Ok () else Err WriteFailed)"
    using aof_append_record_effect(2) [OF _ _ r, of "[]"]
    by (simp add: length_record_bytes wf_record_def page_record_def)
  with r show ?thesis by (simp add: aof_append_delta_def)
qed

lemma example_checkpoint:
  "\<exists>dk' summary. checkpoint_host_region (example_rt example_tracker) (example_disk []) 1 [1, 2, 9] ''b'' =
     (example_rt example_tracker', dk', Ok summary)"
  using example_append [of 100]
  by (auto simp: checkpoint_host_region_def example_tracker_delta log_delta_def Let_def)

lemma example_checkpoint_fails:
  "\<exists>dk'. checkpoint_host_region (example_rt example_tracker) ((example_disk [])\<lparr>disk_room := 10\<rparr>) 1 [1, 2, 9] ''b'' =
     (example_rt example_tracker', dk', Err (AppendError ''a.aof'' WriteFailed))"
  using example_append [of 10]
  by (auto simp: checkpoint_host_region_def example_tracker_delta log_delta_def Let_def)

subsection \<open>Properties of the runtime\<close>

text \<open>
  C1. Checkpoints can be restored: after any run of registrations, checkpoints of any regions,
  boundaries and in-place restores in which no log append failed, a successful checkpoint of a
  region leaves a log from which a restore that starts at the region's base bytes produces exactly
  the checkpointed bytes.
\<close>

theorem checkpoint_restore_roundtrip:
  assumes run: "rt_run lg rt dk base" and base: "base rid = Some initial"
    and cp: "checkpoint_host_region rt dk rid current boundary = (rt', dk', Ok summary)"
    and len: "length current < 2 ^ 63"
  shows "\<exists>n. restore_region_from_aof_path dk' (log_path lg) rid initial = (current, Ok n)"
proof -
  obtain rs where rs: "disk_holds lg dk' rs" "log_matches (rt_state rt') rs base"
    using rt_run_matches [OF run_host [OF run len cp]] by auto
  have wf: "wf_delta_state (rt_state rt)" using rt_run_matches [OF run] by (auto simp: log_matches_def)
  from cp obtain d st where d: "create_host_delta (rt_state rt) rid current = Ok (d, st)" "rt' = rt\<lparr>rt_state := st\<rparr>"
    by (rule checkpoint_host_region_OkD)
  from wf d(1) have "shadow_of st rid = Some current"
    by (rule create_host_delta_OkD) (simp add: shadow_of_set_shadow)
  then obtain n where "apply_records rid rs initial 0 = (current, Ok n)"
    using log_matchesD [OF rs(2) base] d(2) by auto
  then show ?thesis by (simp add: restore_of_holds [OF rs(1)])
qed

theorem checkpoint_restore_roundtrip_witness:
  "\<exists>dk' summary n.
     checkpoint_host_region (example_rt example_tracker) (example_disk []) 1 [1, 2, 9] ''b'' =
       (example_rt example_tracker', dk', Ok summary) \<and>
     restore_region_from_aof_path dk' ''a.aof'' 1 [1, 2, 3] = ([1, 2, 9], Ok n)"
proof -
  obtain dk' summary where cp: "checkpoint_host_region (example_rt example_tracker) (example_disk []) 1
      [1, 2, 9] ''b'' = (example_rt example_tracker', dk', Ok summary)"
    using example_checkpoint by blast
  from checkpoint_restore_roundtrip [OF example_run _ cp, of "[1, 2, 3]"] cp show ?thesis by auto
qed

text \<open>
  A checkpoint whose log append fails is lost silently: the shadow already holds the new bytes,
  so retrying the checkpoint with the same bytes succeeds on any device, reports no dirty page and
  writes nothing.
\<close>

theorem failed_append_loses_update:
  assumes "wf_delta_state (rt_state rt)"
    "checkpoint_host_region rt dk rid current boundary = (rt', dk', Err (AppendError p e))"
  shows "\<exists>rt'' summary. checkpoint_host_region rt' dk'' rid current boundary' = (rt'', dk'', Ok summary) \<and>
           sum_dirty_pages summary = 0"
proof -
  from assms(2) obtain d st where d: "create_host_delta (rt_state rt) rid current = Ok (d, st)"
    and log: "log_delta (rt\<lparr>rt_state := st\<rparr>) dk d boundary = (rt', dk', Err (AppendError p e))"
    by (auto simp: checkpoint_host_region_def split: outcome.splits)
  have wf: "wf_delta_state st" using assms(1) d by (rule wf_create_host_delta)
  have rt': "rt_state rt' = st" using log_delta_keeps [OF log] by simp
  from assms(1) d obtain r where "find_region rid (regions st) = Some r"
    "region_kind r = OpaqueShadow" "region_len r = length current" "shadow_of st rid = Some current"
    by (rule create_host_delta_OkD) (auto simp: find_region_set_shadow shadow_of_set_shadow)
  with checkpoint_unchanged [of rt'] wf rt' show ?thesis by simp
qed

theorem failed_append_loses_update_witness:
  "\<exists>dk' rt'' summary.
     checkpoint_host_region (example_rt example_tracker) ((example_disk [])\<lparr>disk_room := 10\<rparr>) 1 [1, 2, 9] ''b'' =
       (example_rt example_tracker', dk', Err (AppendError ''a.aof'' WriteFailed)) \<and>
     checkpoint_host_region (example_rt example_tracker') (example_disk []) 1 [1, 2, 9] ''b'' =
       (rt'', example_disk [], Ok summary) \<and> sum_dirty_pages summary = 0"
proof -
  obtain dk' where f: "checkpoint_host_region (example_rt example_tracker) ((example_disk [])\<lparr>disk_room := 10\<rparr>) 1
      [1, 2, 9] ''b'' = (example_rt example_tracker', dk', Err (AppendError ''a.aof'' WriteFailed))"
    using example_checkpoint_fails by blast
  have "wf_delta_state (rt_state (example_rt example_tracker))" using example_tracker_wf by simp
  from failed_append_loses_update [OF this f, of "example_disk []" "''b''"] f show ?thesis by blast
qed

text \<open>
  C21. An in-place restore keeps the buffer's length and leaves the tracker in step with it: the next
  checkpoint of the restored bytes finds no dirty page and leaves the disk as it was.
\<close>

theorem restore_then_checkpoint_clean:
  assumes "wf_delta_state (rt_state rt)"
    "restore_host_region_from_aof_path rt dk path rid target boundary = (rt', target', Ok restored)"
  shows "wf_delta_state (rt_state rt') \<and> length target' = length target \<and>
    (\<exists>rt'' summary. checkpoint_host_region rt' dk' rid target' boundary' = (rt'', dk', Ok summary) \<and>
       sum_dirty_pages summary = 0)"
proof -
  from assms(2) obtain rs where read: "read_committed dk path = Ok rs"
    and res: "apply_records rid rs target 0 = (target', Ok (res_applied_records restored))"
    and st: "refresh_opaque_shadow (rt_state rt) rid target' = Ok (rt_state rt')"
    by (auto simp: restore_host_region_from_aof_path_def apply_records_to_region_def Let_def
        split: outcome.splits prod.splits)
  have len: "length target' = length target" using apply_records_length [of rid rs target 0] res by simp
  have wf: "wf_delta_state (rt_state rt')" using assms(1) st by (rule wf_refresh_opaque_shadow)
  obtain r where "find_region rid (regions (rt_state rt')) = Some r" "region_kind r = OpaqueShadow"
    "region_len r = length target'"
    using st by (rule refresh_opaque_shadow_OkD) (auto simp: find_region_set_shadow)
  with checkpoint_unchanged [OF wf] shadow_of_refresh [OF st, of rid] len wf show ?thesis by simp
qed

theorem restore_then_checkpoint_clean_witness:
  "\<exists>rt' restored rt'' summary.
     restore_host_region_from_aof_path (example_rt example_tracker) (example_disk []) ''a.aof'' 1 [4, 5, 6] ''r'' =
       (rt', [4, 5, 6], Ok restored) \<and>
     checkpoint_host_region rt' (example_disk []) 1 [4, 5, 6] ''b'' = (rt'', example_disk [], Ok summary) \<and>
     sum_dirty_pages summary = 0"
proof -
  have st: "refresh_opaque_shadow example_tracker 1 [4, 5, 6] =
      Ok (example_tracker\<lparr>regions := set_shadow 1 [4, 5, 6] (regions example_tracker)\<rparr>)"
    by code_simp
  obtain rt' restored where r: "restore_host_region_from_aof_path (example_rt example_tracker) (example_disk [])
      ''a.aof'' 1 [4, 5, 6] ''r'' = (rt', [4, 5, 6], Ok restored)"
    by (simp add: restore_host_region_from_aof_path_def read_committed_def apply_records_to_region_def st)
  have "wf_delta_state (rt_state (example_rt example_tracker))" using example_tracker_wf by simp
  from restore_then_checkpoint_clean [OF this r, of "example_disk []" "''b''"] r show ?thesis by blast
qed

text \<open>
  C37. In a parallel job, two ranks of the same world never write to the same log when the configured
  path has no template token.
\<close>

theorem rank_scoped_logs_differ:
  assumes "is_parallel i" "mpi_world_size j = mpi_world_size i" "mpi_rank i \<noteq> mpi_rank j"
    "\<not> contains ''{rank}'' path" "\<not> contains ''{world}'' path" "\<not> contains ''{local_rank}'' path"
  shows "mpi_scoped_aof_path_for_info path i \<noteq> mpi_scoped_aof_path_for_info path j"
proof -
  have "ranked_file_name path i \<noteq> ranked_file_name path j"
    using ranked_file_name_inject [of path i j] assms(2,3) by auto
  with assms show ?thesis
    by (auto simp: mpi_scoped_aof_path_for_info_def is_parallel_def path_join_def Let_def
        split: option.splits)
qed

theorem rank_scoped_logs_differ_witness:
  "mpi_scoped_aof_path_for_info ''/tmp/c/session.aof'' (example_mpi 3 16) = ''/tmp/c/session.rank0003-of-0016.aof'' \<and>
   mpi_scoped_aof_path_for_info ''/tmp/c/session.aof'' (example_mpi 3 16) \<noteq>
   mpi_scoped_aof_path_for_info ''/tmp/c/session.aof'' (example_mpi 4 16)"
proof
  show "mpi_scoped_aof_path_for_info ''/tmp/c/session.aof'' (example_mpi 3 16) = ''/tmp/c/session.rank0003-of-0016.aof''"
    by code_simp
  show "mpi_scoped_aof_path_for_info ''/tmp/c/session.aof'' (example_mpi 3 16) \<noteq>
      mpi_scoped_aof_path_for_info ''/tmp/c/session.aof'' (example_mpi 4 16)"
    by (rule rank_scoped_logs_differ; code_simp)
qed

text \<open>
  The C entry point for host checkpoints never aborts on a well-formed runtime: its code is
  \<open>-1\<close> exactly for a null buffer of non-zero length, \<open>-3\<close> exactly for a poisoned lock, nothing
  changes in either case, and otherwise it is \<open>0\<close> or \<open>-2\<close> as the checkpoint succeeds or fails.
\<close>

theorem ffi_checkpoint_host_codes:
  assumes "wf_delta_state (rt_state (ffi_runtime g))"
    "hetgpu_concordia_checkpoint_host_region g rid data len boundary = (code, g')"
  shows "(code = Some (- 1) \<longleftrightarrow> data = None \<and> len \<noteq> 0) \<and>
    (code = Some (- 3) \<longleftrightarrow> \<not> (data = None \<and> len \<noteq> 0) \<and> ffi_poisoned g) \<and>
    (code \<in> {Some (- 1), Some (- 3)} \<longrightarrow> g' = g) \<and>
    code \<in> {Some 0, Some (- 1), Some (- 2), Some (- 3)} \<and>
    ffi_poisoned g' = ffi_poisoned g \<and> wf_delta_state (rt_state (ffi_runtime g'))"
proof (cases "slice_from_raw data len")
  case None
  with assms show ?thesis
    by (auto simp: hetgpu_concordia_checkpoint_host_region_def slice_from_raw_def split: option.splits if_splits)
next
  case (Some current)
  then have null: "\<not> (data = None \<and> len \<noteq> 0)" by (auto simp: slice_from_raw_def split: option.splits if_splits)
  obtain rt dk res where c: "checkpoint_host_region (ffi_runtime g) (ffi_disk g) rid current
      (cstr_from_raw boundary ''ffi'') = (rt, dk, res)"
    by (metis prod_cases3)
  with Some null assms checkpoint_host_region_wf [OF assms(1) c] show ?thesis
    by (cases res) (auto simp: hetgpu_concordia_checkpoint_host_region_def ffi_locked_result_def split: if_splits)
qed

theorem ffi_checkpoint_host_codes_witness:
  "let g = \<lparr>ffi_runtime = example_rt example_tracker, ffi_poisoned = False, ffi_disk = example_disk []\<rparr>
   in hetgpu_concordia_checkpoint_host_region g 1 None 3 None = (Some (- 1), g)"
proof -
  let ?g = "\<lparr>ffi_runtime = example_rt example_tracker, ffi_poisoned = False, ffi_disk = example_disk []\<rparr>"
  obtain code g' where c: "hetgpu_concordia_checkpoint_host_region ?g 1 None 3 None = (code, g')" by fastforce
  have "wf_delta_state (rt_state (ffi_runtime ?g))" using example_tracker_wf by simp
  from ffi_checkpoint_host_codes [OF this c] c show ?thesis by (auto simp: Let_def)
qed

end
