(* ===== verification/Kimi_Manager.thy ===== *)
theory Kimi_Manager
  imports Concordia_Runtime "HOL-Library.Product_Lexorder" "HOL-Library.Multiset"
begin

text \<open>
  The region manager for large device allocations (\<^verbatim>\<open>zluda/src/impl/kimi_concordia.rs\<close>): its
  configuration from the environment, the tracked allocations, the region manifest and its file, the
  classification of kernels, dirty-page bitmaps and the translation of restore offsets through the
  saved and the current block table.

  \<open>BTreeMap\<close> is an association list in ascending key order. The JSON codec of the manifest
  (\<open>serde_json\<close>) and the creation of directories are arguments, in the record \<open>kimi_env\<close>.
\<close>

subsection \<open>Configuration\<close>

definition PAGE_SIZE :: usize where "PAGE_SIZE = 4096"
definition DEFAULT_MIN_ALLOCATION_BYTES :: usize where "DEFAULT_MIN_ALLOCATION_BYTES = 2 ^ 20"
definition DEFAULT_MAX_REGIONS :: usize where "DEFAULT_MAX_REGIONS = 128"
definition DEFAULT_CHECKPOINT_EVERY :: u64 where "DEFAULT_CHECKPOINT_EVERY = 1"
definition DEFAULT_AOF_PATH :: string where "DEFAULT_AOF_PATH = ''/tmp/concordia/kimi.aof''"

record KimiConcordiaConfig =
  cfg_enabled :: bool
  cfg_restore_enabled :: bool
  cfg_min_allocation_bytes :: usize
  cfg_max_regions :: usize
  cfg_checkpoint_every :: u64
  cfg_aof_path :: string
  cfg_restore_aof_path :: string
  cfg_manifest_path :: string
  cfg_logs_enabled :: bool

definition tracked_len :: "usize \<Rightarrow> usize" where
  "tracked_len n = n div PAGE_SIZE * PAGE_SIZE"

definition parse_bool :: "string \<Rightarrow> bool" where
  "parse_bool v \<longleftrightarrow> to_ascii_lowercase (trim v) \<in> {''1'', ''true'', ''yes'', ''on''}"

definition first_pair :: "(string \<times> string) list \<Rightarrow> string \<Rightarrow> string option" where
  "first_pair pairs key = map_option snd (List.find (\<lambda>p. fst p = key) pairs)"

definition read_bool_from_pairs :: "(string \<times> string) list \<Rightarrow> string list \<Rightarrow> bool \<Rightarrow> bool" where
  "read_bool_from_pairs pairs keys fallback =
     (case find_map (\<lambda>key. map_option parse_bool (first_pair pairs key)) keys of None \<Rightarrow> fallback | Some b \<Rightarrow> b)"

definition read_usize_from_pairs :: "(string \<times> string) list \<Rightarrow> string list \<Rightarrow> usize \<Rightarrow> usize" where
  "read_usize_from_pairs pairs keys fallback =
     (case find_map (\<lambda>key. Option.bind (first_pair pairs key) (\<lambda>v. outcome_ok (parse_usize (trim v)))) keys of
        None \<Rightarrow> fallback | Some n \<Rightarrow> n)"

definition read_u64_from_pairs :: "(string \<times> string) list \<Rightarrow> string list \<Rightarrow> u64 \<Rightarrow> u64" where
  "read_u64_from_pairs pairs keys fallback =
     (case find_map (\<lambda>key. Option.bind (first_pair pairs key) (\<lambda>v. outcome_ok (parse_usize (trim v)))) keys of
        None \<Rightarrow> fallback | Some n \<Rightarrow> of_nat n)"

definition read_path_from_pairs :: "(string \<times> string) list \<Rightarrow> string list \<Rightarrow> string \<Rightarrow> string" where
  "read_path_from_pairs pairs keys fallback =
     (case find_map (first_pair pairs) keys of None \<Rightarrow> fallback | Some p \<Rightarrow> p)"

text \<open>\<open>PathBuf::set_extension\<close>: the text up to the end of the file stem, then the new extension.\<close>

definition path_set_extension :: "string \<Rightarrow> string \<Rightarrow> string" where
  "path_set_extension path ext =
     (case path_file_stem path of
        None \<Rightarrow> path
      | Some stem \<Rightarrow>
          (case split_char (CHR ''/'') path of
             [] \<Rightarrow> path
           | w # ws \<Rightarrow> join_with ''/'' (butlast (w # trim_pieces ws) @ [stem @ ''.'' @ ext])))"

definition default_manifest_path :: "string \<Rightarrow> string" where
  "default_manifest_path aof_path = path_set_extension aof_path ''manifest.json''"

definition config_from_pairs :: "environ \<Rightarrow> (string \<times> string) list \<Rightarrow> KimiConcordiaConfig" where
  "config_from_pairs env pairs =
     (let aof_path = read_path_from_pairs pairs [''HETGPU_KIMI_CONCORDIA_AOF_PATH'', ''CONCORDIA_AOF_PATH''] DEFAULT_AOF_PATH
      in \<lparr>cfg_enabled = read_bool_from_pairs pairs [''HETGPU_KIMI_CONCORDIA''] False,
          cfg_restore_enabled = read_bool_from_pairs pairs [''HETGPU_KIMI_CONCORDIA_RESTORE''] False,
          cfg_min_allocation_bytes =
            max (read_usize_from_pairs pairs [''HETGPU_KIMI_CONCORDIA_ALLOC_MIN_BYTES''] DEFAULT_MIN_ALLOCATION_BYTES) PAGE_SIZE,
          cfg_max_regions = read_usize_from_pairs pairs [''HETGPU_KIMI_CONCORDIA_MAX_REGIONS''] DEFAULT_MAX_REGIONS,
          cfg_checkpoint_every =
            max (read_u64_from_pairs pairs [''HETGPU_KIMI_CONCORDIA_CHECKPOINT_EVERY''] DEFAULT_CHECKPOINT_EVERY) 1,
          cfg_aof_path = aof_path,
          cfg_restore_aof_path =
            read_path_from_pairs pairs [''HETGPU_KIMI_CONCORDIA_RESTORE_AOF'', ''CONCORDIA_RESTORE_AOF_PATH'',
              ''HETGPU_KIMI_CONCORDIA_AOF_PATH'', ''CONCORDIA_AOF_PATH''] aof_path,
          cfg_manifest_path =
            mpi_scoped_aof_path env (read_path_from_pairs pairs
              [''HETGPU_KIMI_CONCORDIA_MANIFEST'', ''CONCORDIA_MANIFEST_PATH''] (default_manifest_path aof_path)),
          cfg_logs_enabled = read_bool_from_pairs pairs [''HETGPU_KIMI_CONCORDIA_LOGS'', ''CONCORDIA_LOGS''] False\<rparr>)"

definition CONFIG_KEYS :: "string list" where
  "CONFIG_KEYS =
     [''HETGPU_KIMI_CONCORDIA'', ''HETGPU_KIMI_CONCORDIA_RESTORE'', ''HETGPU_KIMI_CONCORDIA_ALLOC_MIN_BYTES'',
      ''HETGPU_KIMI_CONCORDIA_MAX_REGIONS'', ''HETGPU_KIMI_CONCORDIA_CHECKPOINT_EVERY'',
      ''HETGPU_KIMI_CONCORDIA_AOF_PATH'', ''CONCORDIA_AOF_PATH'', ''HETGPU_KIMI_CONCORDIA_MANIFEST'',
      ''CONCORDIA_MANIFEST_PATH'', ''HETGPU_KIMI_CONCORDIA_RESTORE_AOF'', ''CONCORDIA_RESTORE_AOF_PATH'',
      ''HETGPU_KIMI_CONCORDIA_LOGS'', ''CONCORDIA_LOGS'']"

definition config_from_env :: "environ \<Rightarrow> KimiConcordiaConfig" where
  "config_from_env env = config_from_pairs env (env_pairs env CONFIG_KEYS)"

definition should_track_allocation :: "KimiConcordiaConfig \<Rightarrow> usize \<Rightarrow> bool" where
  "should_track_allocation cfg n \<longleftrightarrow> cfg_enabled cfg \<and> tracked_len n \<ge> cfg_min_allocation_bytes cfg"

subsection \<open>Regions and the manifest\<close>

datatype KimiRegionKind = OpaqueMutable | KvCache | Adapter

definition stable_prefix :: "KimiRegionKind \<Rightarrow> string" where
  "stable_prefix k = (case k of OpaqueMutable \<Rightarrow> ''opaque'' | KvCache \<Rightarrow> ''kv-cache'' | Adapter \<Rightarrow> ''adapter'')"

record KimiAllocatorMetadata =
  am_block_table_ptr :: u64
  am_block_count :: usize
  am_dirty_bitmap_ptr :: u64
  am_dirty_bitmap_bytes :: usize
  am_block_table_snapshot :: "u32 list"

record KimiRegionSpec =
  spec_region_id :: u64
  spec_stable_key :: string
  spec_kind :: KimiRegionKind
  spec_ptr :: u64
  spec_requested_size :: usize
  spec_tracked_size :: usize
  spec_allocation_index :: u64
  spec_last_kernel :: "string option"
  spec_allocator :: "KimiAllocatorMetadata option"

type_synonym KimiRegionManifest = "KimiRegionSpec list"

definition spec_order :: "KimiRegionSpec \<Rightarrow> u64 \<times> u64" where
  "spec_order r = (spec_allocation_index r, spec_region_id r)"

fun replace_ptr :: "KimiRegionSpec \<Rightarrow> KimiRegionManifest \<Rightarrow> KimiRegionManifest option" where
  "replace_ptr spec [] = None"
| "replace_ptr spec (r # rs) =
     (if spec_ptr r = spec_ptr spec then Some (spec # rs) else map_option (Cons r) (replace_ptr spec rs))"

definition manifest_upsert :: "KimiRegionSpec \<Rightarrow> KimiRegionManifest \<Rightarrow> KimiRegionManifest" where
  "manifest_upsert spec rs =
     sort_key spec_order (case replace_ptr spec rs of Some rs' \<Rightarrow> rs' | None \<Rightarrow> rs @ [spec])"

definition manifest_remove_ptr :: "u64 \<Rightarrow> KimiRegionManifest \<Rightarrow> KimiRegionManifest" where
  "manifest_remove_ptr p rs = filter (\<lambda>r. spec_ptr r \<noteq> p) rs"

definition find_region_id :: "KimiRegionManifest \<Rightarrow> KimiRegionKind \<Rightarrow> string \<Rightarrow> usize \<Rightarrow> u64 option" where
  "find_region_id rs kind key n =
     map_option spec_region_id
       (List.find (\<lambda>r. spec_kind r = kind \<and> spec_stable_key r = key \<and> spec_tracked_size r = n) rs)"

definition max_region_id :: "KimiRegionManifest \<Rightarrow> u64" where
  "max_region_id rs = foldl max 0 (map spec_region_id rs)"

subsection \<open>The manager\<close>

record DeviceCheckpointResources =
  dr_shadow :: u64
  dr_bitmap :: u64
  dr_bitmap_words :: usize
  dr_aof_staging_host :: u64
  dr_aof_staging_device :: u64
  dr_aof_staging_bytes :: usize

record KimiTrackedRegion =
  tr_ptr :: u64
  tr_requested_size :: usize
  tr_tracked_size :: usize
  tr_region_id :: u64
  tr_allocation_index :: u64
  tr_kind :: KimiRegionKind
  tr_stable_key :: string
  tr_last_kernel :: "string option"
  tr_initialized :: bool
  tr_restored :: bool
  tr_allocator :: "KimiAllocatorMetadata option"
  tr_device :: "DeviceCheckpointResources option"

record KimiConcordiaManager =
  km_config :: KimiConcordiaConfig
  km_next_region_id :: u64
  km_next_allocation_index :: u64
  km_next_epoch :: u64
  km_stateful_launches :: u64
  km_allocations :: "(u64 \<times> KimiTrackedRegion) list"
  km_manifest :: KimiRegionManifest
  km_restore_manifest :: "KimiRegionManifest option"
  km_aof :: "AofDiskLog option"
  km_worker_handle :: "int option"

record kimi_env =
  ke_environ :: environ
  ke_create_dir_all :: "string \<Rightarrow> bool"
  ke_to_json :: "KimiRegionManifest \<Rightarrow> (string, string) outcome"
  ke_from_json :: "string \<Rightarrow> (KimiRegionManifest, string) outcome"

fun btree_insert :: "'k :: linorder \<Rightarrow> 'v \<Rightarrow> ('k \<times> 'v) list \<Rightarrow> ('k \<times> 'v) list" where
  "btree_insert k v [] = [(k, v)]"
| "btree_insert k v ((k', v') # xs) =
     (if k < k' then (k, v) # (k', v') # xs
      else if k = k' then (k, v) # xs
      else (k', v') # btree_insert k v xs)"

definition btree_remove :: "'k \<Rightarrow> ('k \<times> 'v) list \<Rightarrow> ('k \<times> 'v) list" where
  "btree_remove k xs = filter (\<lambda>e. fst e \<noteq> k) xs"

text \<open>\<open>std::fs::read_to_string\<close> on ASCII files and \<open>std::fs::write\<close>, which truncates first.\<close>

definition fs_read_to_string :: "disk \<Rightarrow> string \<Rightarrow> (string, io_error) outcome" where
  "fs_read_to_string dk path =
     (case disk_files dk path of
        None \<Rightarrow> Err (NotFound path)
      | Some bs \<Rightarrow>
          if list_all (\<lambda>b. b < 128) bs then Ok (map (\<lambda>b. char_of (unat b)) bs)
          else Err (InvalidInput ''stream did not contain valid UTF-8''))"

definition fs_write :: "disk \<Rightarrow> string \<Rightarrow> bytes \<Rightarrow> disk \<times> (unit, io_error) outcome" where
  "fs_write dk path bs =
     (if disk_opens dk path then
        (case write_all (dk\<lparr>disk_files := (disk_files dk)(path \<mapsto> [])\<rparr>) path bs of
           (dk', ok) \<Rightarrow> (dk', if ok then Ok () else Err WriteFailed))
      else (dk, Err (OpenFailed path)))"

datatype kimi_error =
    ReadManifest string io_error | ParseManifest string string
  | CreateManifestDir string | SerializeManifest string | WriteManifest string io_error
  | CreateAofDir string | OpenAof string io_error | AppendAof u64 io_error
  | NullRegionPointer | EmptyDirtyBitmap u64 | UnknownAllocation u64
  | OldPageAbsent usize | NoLogicalPage usize | OffsetOverflow usize | LockPoisoned

definition read_manifest :: "kimi_env \<Rightarrow> disk \<Rightarrow> string \<Rightarrow> (KimiRegionManifest, kimi_error) outcome" where
  "read_manifest ke dk path =
     obind (omap_err (ReadManifest path) (fs_read_to_string dk path)) (\<lambda>s.
     omap_err (ParseManifest path) (ke_from_json ke s))"

definition ensure_parent :: "kimi_env \<Rightarrow> (string \<Rightarrow> kimi_error) \<Rightarrow> string \<Rightarrow> (unit, kimi_error) outcome" where
  "ensure_parent ke err path =
     (case path_parent path of
        None \<Rightarrow> Ok ()
      | Some parent \<Rightarrow> if parent = [] \<or> ke_create_dir_all ke parent then Ok () else Err (err parent))"

definition write_manifest ::
    "kimi_env \<Rightarrow> disk \<Rightarrow> string \<Rightarrow> KimiRegionManifest \<Rightarrow> disk \<times> (unit, kimi_error) outcome" where
  "write_manifest ke dk path rs =
     (case obind (ensure_parent ke CreateManifestDir path) (\<lambda>_. omap_err SerializeManifest (ke_to_json ke rs)) of
        Ok s \<Rightarrow> (case fs_write dk path (str_bytes s) of (dk', r) \<Rightarrow> (dk', omap_err (WriteManifest path) r))
      | Err e \<Rightarrow> (dk, Err e)
      | Panic \<Rightarrow> (dk, Panic))"

definition kimi_new :: "kimi_env \<Rightarrow> disk \<Rightarrow> KimiConcordiaConfig \<Rightarrow> KimiConcordiaManager" where
  "kimi_new ke dk cfg =
     (let restore_manifest =
            (if cfg_restore_enabled cfg then outcome_ok (read_manifest ke dk (cfg_manifest_path cfg)) else None)
      in \<lparr>km_config = cfg,
          km_next_region_id =
            (case restore_manifest of
               None \<Rightarrow> 1
             | Some rs \<Rightarrow> max (if max_region_id rs = - 1 then - 1 else max_region_id rs + 1) 1),
          km_next_allocation_index = 1, km_next_epoch = 1, km_stateful_launches = 0, km_allocations = [],
          km_manifest = [], km_restore_manifest = restore_manifest, km_aof = None, km_worker_handle = None\<rparr>)"

definition persist_manifest_best_effort :: "kimi_env \<Rightarrow> KimiConcordiaManager \<Rightarrow> disk \<Rightarrow> disk" where
  "persist_manifest_best_effort ke km dk =
     (if cfg_enabled (km_config km)
      then fst (write_manifest ke dk (cfg_manifest_path (km_config km)) (km_manifest km)) else dk)"

definition region_spec :: "KimiTrackedRegion \<Rightarrow> KimiRegionSpec" where
  "region_spec r =
     \<lparr>spec_region_id = tr_region_id r, spec_stable_key = tr_stable_key r, spec_kind = tr_kind r, spec_ptr = tr_ptr r,
      spec_requested_size = tr_requested_size r, spec_tracked_size = tr_tracked_size r,
      spec_allocation_index = tr_allocation_index r, spec_last_kernel = tr_last_kernel r,
      spec_allocator = tr_allocator r\<rparr>"

definition upsert_manifest_for_ptr :: "u64 \<Rightarrow> KimiConcordiaManager \<Rightarrow> KimiConcordiaManager" where
  "upsert_manifest_for_ptr p km =
     (case map_of (km_allocations km) p of
        None \<Rightarrow> km
      | Some r \<Rightarrow> km\<lparr>km_manifest := manifest_upsert (region_spec r) (km_manifest km)\<rparr>)"

definition note_allocation_inner ::
    "kimi_env \<Rightarrow> u64 \<Rightarrow> usize \<Rightarrow> KimiConcordiaManager \<times> disk \<Rightarrow> (KimiConcordiaManager \<times> disk) \<times> u64 option" where
  "note_allocation_inner ke p n st =
     (let (km, dk) = st in
      if p = 0 \<or> \<not> should_track_allocation (km_config km) n then (st, None)
      else if map_of (km_allocations km) p \<noteq> None \<or> length (km_allocations km) \<ge> cfg_max_regions (km_config km) then (st, None)
      else
        (let region_id = km_next_region_id km; allocation_index = km_next_allocation_index km;
             tracked_size = tracked_len n; kind = OpaqueMutable;
             km = km\<lparr>km_next_region_id := region_id + 1, km_next_allocation_index := allocation_index + 1,
                     km_allocations := btree_insert p
                       \<lparr>tr_ptr = p, tr_requested_size = n, tr_tracked_size = tracked_size, tr_region_id = region_id,
                        tr_allocation_index = allocation_index, tr_kind = kind,
                        tr_stable_key = stable_prefix kind @ '':'' @ show_pad4 (unat allocation_index) @ '':'' @ show_nat tracked_size,
                        tr_last_kernel = None, tr_initialized = False, tr_restored = False, tr_allocator = None, tr_device = None\<rparr>
                       (km_allocations km)\<rparr>;
             km = upsert_manifest_for_ptr p km
         in ((km, persist_manifest_best_effort ke km dk), Some region_id)))"

definition is_kimi_stateful_kernel_name :: "string \<Rightarrow> bool" where
  "is_kimi_stateful_kernel_name kernel_name \<longleftrightarrow>
     (let name = to_ascii_lowercase kernel_name in
      if contains ''kv'' name \<or> contains ''k_cache'' name \<or> contains ''v_cache'' name \<or> contains ''cache_update'' name
        \<or> contains ''paged_cache'' name \<or> contains ''pagedattention'' name then True
      else
        (contains ''attention'' name \<or> contains ''flash_attn'' name \<or> contains ''_attn'' name) \<and>
        (contains ''decode'' name \<or> contains ''rope'' name \<or> contains ''neox'' name \<or> contains ''qkv'' name \<or> contains ''kq'' name))"

definition region_kind_for_kernel :: "string \<Rightarrow> KimiRegionKind option" where
  "region_kind_for_kernel kernel_name =
     (let name = to_ascii_lowercase kernel_name in
      if contains ''lora'' name \<or> contains ''adapter'' name then Some Adapter
      else if is_kimi_stateful_kernel_name kernel_name then Some KvCache else None)"

definition should_checkpoint_after_launch_inner :: "string \<Rightarrow> KimiConcordiaManager \<Rightarrow> KimiConcordiaManager \<times> bool" where
  "should_checkpoint_after_launch_inner kernel_name km =
     (if \<not> cfg_enabled (km_config km) \<or> \<not> is_kimi_stateful_kernel_name kernel_name then (km, False)
      else
        (let n = (if km_stateful_launches km = - 1 then - 1 else km_stateful_launches km + 1) in
         (km\<lparr>km_stateful_launches := n\<rparr>, n mod cfg_checkpoint_every (km_config km) = 0)))"

definition stable_key_for_region :: "KimiConcordiaManager \<Rightarrow> u64 \<Rightarrow> KimiRegionKind \<Rightarrow> usize \<Rightarrow> string" where
  "stable_key_for_region km p kind n =
     (case List.find (\<lambda>r. spec_ptr r = p \<and> spec_kind r = kind) (km_manifest km) of
        Some existing \<Rightarrow> spec_stable_key existing
      | None \<Rightarrow>
          (let ordinal = length (filter (\<lambda>r. spec_ptr r \<noteq> p \<and> spec_kind r = kind) (km_manifest km)) + 1
           in stable_prefix kind @ '':'' @ show_pad4 ordinal @ '':'' @ show_nat n))"

definition note_kernel_pointer :: "string \<Rightarrow> KimiRegionKind \<Rightarrow> u64 \<Rightarrow> KimiConcordiaManager \<Rightarrow> KimiConcordiaManager" where
  "note_kernel_pointer kernel_name kind p km =
     (case map_of (km_allocations km) p of
        None \<Rightarrow> km
      | Some region \<Rightarrow>
          (let n = tr_tracked_size region; key = stable_key_for_region km p kind n;
               region_id = (case Option.bind (km_restore_manifest km) (\<lambda>rs. find_region_id rs kind key n) of
                              Some i \<Rightarrow> i | None \<Rightarrow> tr_region_id region)
           in upsert_manifest_for_ptr p
                (km\<lparr>km_allocations := btree_insert p
                   (region\<lparr>tr_kind := kind, tr_stable_key := key, tr_region_id := region_id,
                           tr_last_kernel := Some kernel_name\<rparr>) (km_allocations km)\<rparr>)))"

definition note_kernel_pointers_inner ::
    "kimi_env \<Rightarrow> string \<Rightarrow> u64 list \<Rightarrow> KimiConcordiaManager \<times> disk \<Rightarrow> KimiConcordiaManager \<times> disk" where
  "note_kernel_pointers_inner ke kernel_name ptrs st =
     (let (km, dk) = st in
      case region_kind_for_kernel kernel_name of
        None \<Rightarrow> st
      | Some kind \<Rightarrow>
          (let km = foldl (\<lambda>km p. note_kernel_pointer kernel_name kind p km) km (filter (\<lambda>p. p \<noteq> 0) ptrs)
           in (km, persist_manifest_best_effort ke km dk)))"

definition note_allocator_metadata_inner ::
    "kimi_env \<Rightarrow> u64 \<Rightarrow> u64 \<Rightarrow> usize \<Rightarrow> u64 \<Rightarrow> usize \<Rightarrow> KimiConcordiaManager \<times> disk \<Rightarrow>
     (KimiConcordiaManager \<times> disk) \<times> (unit, kimi_error) outcome" where
  "note_allocator_metadata_inner ke p table block_count bitmap nbytes st =
     (let (km, dk) = st in
      if p = 0 then (st, Err NullRegionPointer)
      else if bitmap = 0 \<or> nbytes = 0 then (st, Err (EmptyDirtyBitmap p))
      else case map_of (km_allocations km) p of
             None \<Rightarrow> (st, Err (UnknownAllocation p))
           | Some region \<Rightarrow>
               (let km = upsert_manifest_for_ptr p
                      (km\<lparr>km_allocations := btree_insert p
                         (region\<lparr>tr_allocator := Some \<lparr>am_block_table_ptr = table, am_block_count = block_count,
                            am_dirty_bitmap_ptr = bitmap, am_dirty_bitmap_bytes = nbytes, am_block_table_snapshot = []\<rparr>\<rparr>)
                         (km_allocations km)\<rparr>)
                in ((km, persist_manifest_best_effort ke km dk), Ok ())))"

text \<open>\<open>note_deallocation\<close> up to the release of the device resources, and the metadata entry points.\<close>

definition note_deallocation :: "kimi_env \<Rightarrow> bool \<Rightarrow> u64 \<Rightarrow> KimiConcordiaManager \<times> disk \<Rightarrow> KimiConcordiaManager \<times> disk" where
  "note_deallocation ke poisoned p st =
     (let (km, dk) = st in
      if poisoned then st
      else case map_of (km_allocations km) p of
             None \<Rightarrow> st
           | Some _ \<Rightarrow>
               (let km = km\<lparr>km_allocations := btree_remove p (km_allocations km),
                            km_manifest := manifest_remove_ptr p (km_manifest km)\<rparr>
                in (km, persist_manifest_best_effort ke km dk)))"

definition note_allocator_metadata ::
    "kimi_env \<Rightarrow> bool \<Rightarrow> u64 \<Rightarrow> u64 \<Rightarrow> usize \<Rightarrow> u64 \<Rightarrow> usize \<Rightarrow> KimiConcordiaManager \<times> disk \<Rightarrow>
     (KimiConcordiaManager \<times> disk) \<times> (unit, kimi_error) outcome" where
  "note_allocator_metadata ke poisoned p table block_count bitmap nbytes st =
     (if poisoned then (st, Err LockPoisoned) else note_allocator_metadata_inner ke p table block_count bitmap nbytes st)"

definition hetgpu_kimi_concordia_register_allocator_metadata ::
    "kimi_env \<Rightarrow> bool \<Rightarrow> u64 \<Rightarrow> u64 \<Rightarrow> usize \<Rightarrow> u64 \<Rightarrow> usize \<Rightarrow> KimiConcordiaManager \<times> disk \<Rightarrow>
     (KimiConcordiaManager \<times> disk) \<times> int" where
  "hetgpu_kimi_concordia_register_allocator_metadata ke poisoned p table block_count bitmap nbytes st =
     (case note_allocator_metadata ke poisoned p table block_count bitmap nbytes st of
        (st', Ok _) \<Rightarrow> (st', 0)
      | (st', _) \<Rightarrow> (st', - 1))"

definition open_aof :: "kimi_env \<Rightarrow> KimiConcordiaManager \<times> disk \<Rightarrow>
    (KimiConcordiaManager \<times> disk) \<times> (AofDiskLog, kimi_error) outcome" where
  "open_aof ke st =
     (let (km, dk) = st in
      case km_aof km of
        Some lg \<Rightarrow> (st, Ok lg)
      | None \<Rightarrow>
          (let path = mpi_scoped_aof_path (ke_environ ke) (cfg_aof_path (km_config km)) in
           case ensure_parent ke CreateAofDir path of
             Ok _ \<Rightarrow> (case aof_open_append dk path of
                        (dk', Ok lg) \<Rightarrow> ((km\<lparr>km_aof := Some lg\<rparr>, dk'), Ok lg)
                      | (dk', Err e) \<Rightarrow> ((km, dk'), Err (OpenAof path e))
                      | (dk', Panic) \<Rightarrow> ((km, dk'), Panic))
           | Err e \<Rightarrow> (st, Err e)
           | Panic \<Rightarrow> (st, Panic)))"

definition kimi_append_record ::
    "kimi_env \<Rightarrow> u64 \<Rightarrow> u64 \<Rightarrow> usize \<Rightarrow> bytes \<Rightarrow> KimiConcordiaManager \<times> disk \<Rightarrow>
     (KimiConcordiaManager \<times> disk) \<times> (unit, kimi_error) outcome" where
  "kimi_append_record ke epoch region_id off payload st =
     (case open_aof ke st of
        ((km, dk), Ok lg) \<Rightarrow>
          (case aof_append_record dk lg \<lparr>rec_epoch = epoch, rec_region_id = region_id, rec_offset = off, rec_payload = payload\<rparr> of
             (dk', r) \<Rightarrow> ((km, dk'), omap_err (AppendAof region_id) r))
      | (st', Err e) \<Rightarrow> (st', Err e)
      | (st', Panic) \<Rightarrow> (st', Panic))"

subsection \<open>Dirty pages and restore offsets\<close>

definition dirty_page_offsets_from_words :: "u64 list \<Rightarrow> usize \<Rightarrow> usize list" where
  "dirty_page_offsets_from_words ws page_count =
     map (\<lambda>page. page * PAGE_SIZE)
       (filter (\<lambda>page. (if page div 64 < length ws then ws ! (page div 64) else 0) AND push_bit (page mod 64) 1 \<noteq> 0)
          [0..<page_count])"

definition dirty_page_offsets_from_bitmap_bytes :: "bytes \<Rightarrow> usize \<Rightarrow> usize list" where
  "dirty_page_offsets_from_bitmap_bytes bitmap page_count =
     map (\<lambda>page. page * PAGE_SIZE)
       (filter (\<lambda>page. (if page div 8 < length bitmap then bitmap ! (page div 8) else 0) AND push_bit (page mod 8) 1 \<noteq> 0)
          [0..<page_count])"

fun decode_block_table_snapshot :: "bytes \<Rightarrow> u32 list" where
  "decode_block_table_snapshot (a # b # c # d # bs) = from_le [a, b, c, d] # decode_block_table_snapshot bs"
| "decode_block_table_snapshot _ = []"

fun position :: "('a \<Rightarrow> bool) \<Rightarrow> 'a list \<Rightarrow> nat option" where
  "position P [] = None"
| "position P (x # xs) = (if P x then Some 0 else map_option Suc (position P xs))"

definition translate_kv_restore_offset ::
    "usize \<Rightarrow> KimiAllocatorMetadata \<Rightarrow> KimiAllocatorMetadata \<Rightarrow> (usize, kimi_error) outcome" where
  "translate_kv_restore_offset old_offset old_am new_am =
     (if am_block_table_snapshot old_am = [] \<or> am_block_table_snapshot new_am = [] then Ok old_offset
      else
        (let old_physical_page = old_offset div PAGE_SIZE; intra_page = old_offset mod PAGE_SIZE in
         obind (ok_or (OldPageAbsent old_physical_page)
                  (position (\<lambda>page. unat page = old_physical_page) (am_block_table_snapshot old_am))) (\<lambda>logical_page.
         obind (ok_or (NoLogicalPage logical_page)
                  (if logical_page < length (am_block_table_snapshot new_am)
                   then Some (am_block_table_snapshot new_am ! logical_page) else None)) (\<lambda>page.
         if unat page * PAGE_SIZE < 2 ^ 64 \<and> unat page * PAGE_SIZE + intra_page < 2 ^ 64
         then Ok (unat page * PAGE_SIZE + intra_page) else Err (OffsetOverflow (unat page))))))"

lemma word_less_Suc: "w \<noteq> - 1 \<Longrightarrow> w < w + 1" for w :: u64
proof -
  assume "w \<noteq> - 1"
  then have "1 + w \<noteq> 0" using max_word_wrap [of w] by (auto simp: add.commute)
  then show "w < w + 1" using unatSuc [of w] by (simp only: word_less_nat_alt add.commute) simp
qed

subsection \<open>Ordered maps\<close>

lemma btree_remove_mem: "x \<in> set (btree_remove k xs) \<longleftrightarrow> x \<in> set xs \<and> fst x \<noteq> k"
  by (simp add: btree_remove_def)

lemma btree_remove_sorted: "sorted_wrt (<) (map fst xs) \<Longrightarrow> sorted_wrt (<) (map fst (btree_remove k xs))"
  by (induction xs) (auto simp: btree_remove_def)

lemma btree_insert_set: "fst ` set (btree_insert k v xs) = insert k (fst ` set xs)"
  by (induction k v xs rule: btree_insert.induct) auto

lemma btree_insert_sorted:
  "sorted_wrt (<) (map fst xs) \<Longrightarrow> sorted_wrt (<) (map fst (btree_insert k v xs))"
proof (induction k v xs rule: btree_insert.induct)
  case (2 k v k' v' xs)
  then show ?case using btree_insert_set [of k v xs] by (auto simp: image_iff)
qed simp

lemma mset_btree_insert:
  "sorted_wrt (<) (map fst xs) \<Longrightarrow> mset (btree_insert k v xs) = add_mset (k, v) (mset (btree_remove k xs))"
proof (induction k v xs rule: btree_insert.induct)
  case (2 k v k' v' xs)
  have "btree_remove k' xs = xs" using 2(2) by (auto simp: btree_remove_def filter_id_conv)
  moreover have "btree_remove k xs = xs" if "k < k'" using 2(2) that by (fastforce simp: btree_remove_def filter_id_conv)
  ultimately show ?case using 2 by (auto simp: btree_remove_def)
qed (simp add: btree_remove_def)

lemma btree_remove_absent: "k \<notin> fst ` set xs \<Longrightarrow> btree_remove k xs = xs"
  unfolding btree_remove_def filter_id_conv by (metis image_eqI)

lemma mset_btree_remove:
  "sorted_wrt (<) (map fst xs) \<Longrightarrow> map_of xs k = Some v \<Longrightarrow> mset xs = add_mset (k, v) (mset (btree_remove k xs))"
  for xs :: "('k :: linorder \<times> 'v) list"
proof (induction xs)
  case (Cons x xs)
  have "btree_remove (fst x) xs = xs" using Cons.prems(1) by (intro btree_remove_absent) fastforce
  then have "fst x = k \<Longrightarrow> btree_remove k (x # xs) = xs" by (simp add: btree_remove_def)
  moreover have "fst x \<noteq> k \<Longrightarrow> btree_remove k (x # xs) = x # btree_remove k xs" by (simp add: btree_remove_def)
  ultimately show ?case using Cons by (cases x) (auto split: if_splits)
qed simp

lemma map_of_btree_insert:
  "sorted_wrt (<) (map fst xs) \<Longrightarrow> map_of (btree_insert k v xs) = (map_of xs)(k \<mapsto> v)"
  by (induction k v xs rule: btree_insert.induct) (auto simp: fun_eq_iff)

lemma length_btree_insert:
  assumes so: "sorted_wrt (<) (map fst xs)"
  shows "length (btree_insert k v xs) = (if k \<in> fst ` set xs then length xs else Suc (length xs))"
proof (cases "map_of xs k")
  case None
  then show ?thesis
    using arg_cong [OF mset_btree_insert [OF so, of k v], of size] by (simp add: map_of_eq_None_iff btree_remove_absent)
next
  case (Some w)
  then have "k \<in> fst ` set xs" by (metis map_of_eq_None_iff option.distinct(1))
  then show ?thesis
    using arg_cong [OF mset_btree_insert [OF so, of k v], of size] arg_cong [OF mset_btree_remove [OF so Some], of size] by simp
qed

subsection \<open>The manifest\<close>

lemma replace_ptr_mset:
  "distinct (map spec_ptr rs) \<Longrightarrow>
   mset (case replace_ptr s rs of Some rs' \<Rightarrow> rs' | None \<Rightarrow> rs @ [s]) =
     add_mset s (filter_mset (\<lambda>r. spec_ptr r \<noteq> spec_ptr s) (mset rs))"
proof (induction rs)
  case (Cons r rs)
  have "filter_mset (\<lambda>x. spec_ptr x \<noteq> spec_ptr r) (mset rs) = mset rs"
    using Cons.prems by (auto simp: filter_mset_eq_conv image_iff)
  then show ?case using Cons by (auto split: option.splits)
qed simp

lemma manifest_upsert_mset:
  "distinct (map spec_ptr rs) \<Longrightarrow>
   mset (manifest_upsert s rs) = add_mset s (filter_mset (\<lambda>r. spec_ptr r \<noteq> spec_ptr s) (mset rs))"
  using replace_ptr_mset [of rs s] by (simp add: manifest_upsert_def)

subsection \<open>Runs of the manager\<close>

datatype kimi_op =
    NoteAllocation u64 usize
  | NoteDeallocation u64
  | NoteLaunch string "u64 list"
  | NoteMetadata u64 u64 usize u64 usize

fun kimi_step :: "kimi_env \<Rightarrow> kimi_op \<Rightarrow> KimiConcordiaManager \<times> disk \<Rightarrow> KimiConcordiaManager \<times> disk" where
  "kimi_step ke (NoteAllocation p n) st = fst (note_allocation_inner ke p n st)"
| "kimi_step ke (NoteDeallocation p) st = note_deallocation ke False p st"
| "kimi_step ke (NoteLaunch name ptrs) st = note_kernel_pointers_inner ke name ptrs st"
| "kimi_step ke (NoteMetadata p table block_count bitmap nbytes) st =
     fst (note_allocator_metadata ke False p table block_count bitmap nbytes st)"

definition kimi_run :: "kimi_env \<Rightarrow> kimi_op list \<Rightarrow> KimiConcordiaManager \<times> disk \<Rightarrow> KimiConcordiaManager \<times> disk" where
  "kimi_run ke ops st = foldl (\<lambda>st op. kimi_step ke op st) st ops"

definition tracked_ok :: "KimiConcordiaManager \<Rightarrow> u64 \<times> KimiTrackedRegion \<Rightarrow> bool" where
  "tracked_ok km e \<longleftrightarrow> (case e of (p, r) \<Rightarrow>
     tr_ptr r = p \<and> p \<noteq> 0 \<and> tr_tracked_size r = tracked_len (tr_requested_size r) \<and>
     should_track_allocation (km_config km) (tr_requested_size r) \<and>
     tr_allocation_index r < km_next_allocation_index km \<and>
     (km_restore_manifest km = None \<longrightarrow> tr_region_id r = tr_allocation_index r))"

definition kimi_inv :: "KimiConcordiaManager \<Rightarrow> bool" where
  "kimi_inv km \<longleftrightarrow>
     sorted_wrt (<) (map fst (km_allocations km)) \<and> list_all (tracked_ok km) (km_allocations km) \<and>
     mset (km_manifest km) = mset (map (region_spec \<circ> snd) (km_allocations km)) \<and>
     sorted (map spec_order (km_manifest km)) \<and>
     length (km_allocations km) \<le> cfg_max_regions (km_config km) \<and>
     distinct (map (tr_allocation_index \<circ> snd) (km_allocations km)) \<and>
     (km_restore_manifest km = None \<longrightarrow> km_next_region_id km = km_next_allocation_index km)"

lemma tracked_ptr:
  assumes "kimi_inv km" "e \<in> set (km_allocations km)"
  shows "spec_ptr (region_spec (snd e)) = fst e"
proof -
  have "tracked_ok km e" using assms by (auto simp: kimi_inv_def list_all_iff)
  then show ?thesis by (cases e) (simp add: tracked_ok_def region_spec_def)
qed

lemma manifest_ptrs:
  assumes "kimi_inv km"
  shows "mset (map spec_ptr (km_manifest km)) = mset (map fst (km_allocations km))"
    and "distinct (map spec_ptr (km_manifest km))"
proof -
  have "map (spec_ptr \<circ> region_spec \<circ> snd) (km_allocations km) = map fst (km_allocations km)"
    using tracked_ptr [OF assms] by simp
  moreover have "mset (map spec_ptr (km_manifest km)) = mset (map (spec_ptr \<circ> region_spec \<circ> snd) (km_allocations km))"
    using assms by (simp add: kimi_inv_def multiset.map_comp comp_assoc)
  ultimately show 1: "mset (map spec_ptr (km_manifest km)) = mset (map fst (km_allocations km))" by (simp only:)
  have "distinct (map fst (km_allocations km))"
    using assms strict_sorted_iff by (auto simp: kimi_inv_def)
  with 1 show "distinct (map spec_ptr (km_manifest km))" by (metis mset_eq_imp_distinct_iff)
qed

lemma manifest_without:
  assumes inv: "kimi_inv km"
  shows "filter_mset (\<lambda>s. spec_ptr s \<noteq> p) (mset (km_manifest km)) =
    image_mset (region_spec \<circ> snd) (mset (btree_remove p (km_allocations km)))"
proof -
  have "filter_mset (\<lambda>s. spec_ptr s \<noteq> p) (image_mset (region_spec \<circ> snd) (mset (km_allocations km))) =
      image_mset (region_spec \<circ> snd) (filter_mset (\<lambda>e. spec_ptr (region_spec (snd e)) \<noteq> p) (mset (km_allocations km)))"
    by (simp add: filter_mset_image_mset comp_def)
  also have "filter_mset (\<lambda>e. spec_ptr (region_spec (snd e)) \<noteq> p) (mset (km_allocations km)) =
      filter_mset (\<lambda>e. fst e \<noteq> p) (mset (km_allocations km))"
    by (intro filter_mset_cong refl) (simp add: tracked_ptr [OF inv])
  finally show ?thesis using inv by (simp add: kimi_inv_def btree_remove_def comp_def)
qed

text \<open>Storing a region under its pointer and copying it to the manifest keeps the two in step.\<close>

lemma store_region_manifest:
  assumes inv: "kimi_inv km" and r: "tr_ptr r = p"
    and km': "km' = upsert_manifest_for_ptr p (kn\<lparr>km_allocations := btree_insert p r (km_allocations km)\<rparr>)"
    and kn: "km_manifest kn = km_manifest km"
  shows "km_allocations km' = btree_insert p r (km_allocations km)"
    and "mset (km_manifest km') = mset (map (region_spec \<circ> snd) (km_allocations km'))"
    and "sorted (map spec_order (km_manifest km'))"
    and "km_config km' = km_config kn \<and> km_restore_manifest km' = km_restore_manifest kn \<and>
      km_next_allocation_index km' = km_next_allocation_index kn \<and> km_next_region_id km' = km_next_region_id kn"
proof -
  have so: "sorted_wrt (<) (map fst (km_allocations km))" using inv by (simp add: kimi_inv_def)
  have sp: "spec_ptr (region_spec r) = p" using r by (simp add: region_spec_def)
  have eq: "km' = kn\<lparr>km_allocations := btree_insert p r (km_allocations km),
      km_manifest := manifest_upsert (region_spec r) (km_manifest km)\<rparr>"
    using so by (simp add: km' upsert_manifest_for_ptr_def map_of_btree_insert kn)
  show al: "km_allocations km' = btree_insert p r (km_allocations km)" by (simp add: eq)
  show "sorted (map spec_order (km_manifest km'))" by (simp add: eq manifest_upsert_def)
  show "km_config km' = km_config kn \<and> km_restore_manifest km' = km_restore_manifest kn \<and>
      km_next_allocation_index km' = km_next_allocation_index kn \<and> km_next_region_id km' = km_next_region_id kn"
    by (simp add: eq)
  note manifest_without [OF inv, of p]
  then show "mset (km_manifest km') = mset (map (region_spec \<circ> snd) (km_allocations km'))"
    using manifest_upsert_mset [OF manifest_ptrs(2) [OF inv], of "region_spec r"] mset_btree_insert [OF so, of p r]
    by (simp add: eq sp)
qed

text \<open>Replacing a tracked region by one with the same pointer, index and sizes keeps the invariant.\<close>

lemma update_region_inv:
  assumes inv: "kimi_inv km" and old: "map_of (km_allocations km) p = Some r"
    and same: "tr_ptr r' = tr_ptr r" "tr_requested_size r' = tr_requested_size r" "tr_tracked_size r' = tr_tracked_size r"
      "tr_allocation_index r' = tr_allocation_index r" "km_restore_manifest km = None \<Longrightarrow> tr_region_id r' = tr_region_id r"
  shows "kimi_inv (upsert_manifest_for_ptr p (km\<lparr>km_allocations := btree_insert p r' (km_allocations km)\<rparr>))"
proof -
  let ?km = "upsert_manifest_for_ptr p (km\<lparr>km_allocations := btree_insert p r' (km_allocations km)\<rparr>)"
  let ?al = "km_allocations km"
  have so: "sorted_wrt (<) (map fst ?al)" using inv by (simp add: kimi_inv_def)
  have mem: "(p, r) \<in> set ?al" using old by (rule map_of_SomeD)
  then have ok: "tracked_ok km (p, r)" using inv by (auto simp: kimi_inv_def list_all_iff)
  then have "tr_ptr r' = p" using same by (simp add: tracked_ok_def)
  note st = store_region_manifest [OF inv this refl refl]
  have keep: "mset (map f (btree_insert p r' ?al)) = mset (map f ?al)" if "f (p, r') = f (p, r)" for f :: "_ \<Rightarrow> 'a"
    using mset_btree_insert [OF so, of p r'] mset_btree_remove [OF so old] that by simp
  have same_index: "distinct (map (tr_allocation_index \<circ> snd) (btree_insert p r' ?al))"
    using inv keep [of "tr_allocation_index \<circ> snd"] same(4) mset_eq_imp_distinct_iff
    by (metis (no_types, lifting) comp_apply kimi_inv_def snd_conv)
  have len: "length (btree_insert p r' ?al) = length ?al"
    using length_btree_insert [OF so, of p r'] mem by (auto simp: rev_image_eqI)
  have all: "list_all (tracked_ok ?km) (btree_insert p r' ?al)"
  proof -
    have sub: "set (btree_insert p r' ?al) \<subseteq> insert (p, r') (set ?al)"
      using arg_cong [OF mset_btree_insert [OF so, of p r'], of set_mset] by (auto simp: btree_remove_def)
    have "tracked_ok ?km e" if "tracked_ok km e" for e using that st(4) by (simp add: tracked_ok_def split: prod.splits)
    moreover have "tracked_ok ?km (p, r')" using ok same st(4) by (auto simp: tracked_ok_def)
    ultimately show ?thesis using sub inv by (auto simp: kimi_inv_def list_all_iff)
  qed
  show ?thesis
    unfolding kimi_inv_def using st btree_insert_sorted [OF so] inv same_index len all
    by (simp add: kimi_inv_def)
qed

text \<open>Adding a fresh region under the next allocation index keeps the invariant, as long as the counter has room.\<close>

lemma insert_region_inv:
  assumes inv: "kimi_inv km" and room: "km_next_allocation_index km \<noteq> - 1"
    and new: "p \<notin> fst ` set (km_allocations km)" and max: "length (km_allocations km) < cfg_max_regions (km_config km)"
    and r: "tr_ptr r = p" "p \<noteq> 0" "tr_tracked_size r = tracked_len (tr_requested_size r)"
      "should_track_allocation (km_config km) (tr_requested_size r)"
      "tr_allocation_index r = km_next_allocation_index km" "tr_region_id r = km_next_region_id km"
  shows "kimi_inv (upsert_manifest_for_ptr p (km\<lparr>km_next_region_id := km_next_region_id km + 1,
    km_next_allocation_index := km_next_allocation_index km + 1, km_allocations := btree_insert p r (km_allocations km)\<rparr>))"
proof -
  let ?al = "km_allocations km"
  define kn where "kn = km\<lparr>km_next_region_id := km_next_region_id km + 1, km_next_allocation_index := km_next_allocation_index km + 1\<rparr>"
  define km' where "km' = upsert_manifest_for_ptr p (kn\<lparr>km_allocations := btree_insert p r ?al\<rparr>)"
  have so: "sorted_wrt (<) (map fst ?al)" using inv by (simp add: kimi_inv_def)
  have up: "km_next_allocation_index km < km_next_allocation_index km + 1" using room by (rule word_less_Suc)
  have "km_manifest kn = km_manifest km" by (simp add: kn_def)
  note st = store_region_manifest [OF inv r(1) km'_def this]
  have kn: "km_config kn = km_config km" "km_restore_manifest kn = km_restore_manifest km"
    "km_next_allocation_index kn = km_next_allocation_index km + 1" "km_next_region_id kn = km_next_region_id km + 1"
    by (simp_all add: kn_def)
  have ms: "mset (btree_insert p r ?al) = add_mset (p, r) (mset ?al)"
    using mset_btree_insert [OF so, of p r] by (simp only: btree_remove_absent [OF new])
  have old: "tracked_ok km' e" "tr_allocation_index (snd e) < km_next_allocation_index km" if "e \<in> set ?al" for e
  proof -
    have "tracked_ok km e" using inv that by (auto simp: kimi_inv_def list_all_iff)
    then show "tracked_ok km' e" "tr_allocation_index (snd e) < km_next_allocation_index km"
      using st(4) kn up by (auto simp: tracked_ok_def split: prod.splits)
  qed
  have "tracked_ok km' (p, r)" using st(4) kn up inv r by (simp add: tracked_ok_def kimi_inv_def)
  then have all: "list_all (tracked_ok km') (btree_insert p r ?al)"
    using old(1) arg_cong [OF ms, of set_mset] by (simp add: list_all_iff)
  have "distinct (map (tr_allocation_index \<circ> snd) ((p, r) # ?al))" using inv old(2) r(5) by (force simp: kimi_inv_def)
  moreover have "mset (map (tr_allocation_index \<circ> snd) (btree_insert p r ?al)) =
      mset (map (tr_allocation_index \<circ> snd) ((p, r) # ?al))" using ms by simp
  ultimately have dis: "distinct (map (tr_allocation_index \<circ> snd) (btree_insert p r ?al))"
    using mset_eq_imp_distinct_iff by blast
  have len: "length (btree_insert p r ?al) \<le> cfg_max_regions (km_config km)"
    using length_btree_insert [OF so, of p r] new max by simp
  have "kimi_inv km'"
    unfolding kimi_inv_def using st kn btree_insert_sorted [OF so] inv dis len all by (simp add: kimi_inv_def)
  then show ?thesis by (simp add: km'_def kn_def)
qed

lemma note_allocation_kimi_inv:
  assumes inv: "kimi_inv km" and room: "km_next_allocation_index km \<noteq> - 1"
  shows "kimi_inv (fst (fst (note_allocation_inner ke p n (km, dk))))"
proof (cases "p = 0 \<or> \<not> should_track_allocation (km_config km) n \<or> map_of (km_allocations km) p \<noteq> None \<or>
    length (km_allocations km) \<ge> cfg_max_regions (km_config km)")
  case True
  then show ?thesis using inv by (auto simp: note_allocation_inner_def)
next
  case False
  then have new: "p \<notin> fst ` set (km_allocations km)" by (simp add: map_of_eq_None_iff)
  show ?thesis using False
    by (simp add: note_allocation_inner_def Let_def) (rule insert_region_inv [OF inv room new], simp_all)
qed

lemma note_deallocation_kimi_inv:
  assumes inv: "kimi_inv km"
  shows "kimi_inv (fst (note_deallocation ke poisoned p (km, dk)))"
proof -
  let ?km = "km\<lparr>km_allocations := btree_remove p (km_allocations km), km_manifest := manifest_remove_ptr p (km_manifest km)\<rparr>"
  have "tracked_ok ?km e = tracked_ok km e" for e by (simp add: tracked_ok_def)
  then have all: "list_all (tracked_ok ?km) (btree_remove p (km_allocations km))"
    using inv by (simp add: kimi_inv_def list_all_iff btree_remove_def)
  have man: "mset (manifest_remove_ptr p (km_manifest km)) =
      mset (map (region_spec \<circ> snd) (btree_remove p (km_allocations km)))"
    using manifest_without [OF inv, of p] by (simp add: manifest_remove_ptr_def)
  have "kimi_inv ?km"
    unfolding kimi_inv_def using inv all man btree_remove_sorted [of "km_allocations km" p]
      sorted_filter [of spec_order "km_manifest km"] distinct_map_filter [of "tr_allocation_index \<circ> snd" "km_allocations km"]
      le_trans [OF length_filter_le [of "\<lambda>e. fst e \<noteq> p" "km_allocations km"]]
    by (simp add: kimi_inv_def manifest_remove_ptr_def btree_remove_def)
  then show ?thesis using inv by (simp add: note_deallocation_def Let_def split: option.splits)
qed

lemma note_kernel_pointer_kimi_inv:
  assumes inv: "kimi_inv km"
  shows "kimi_inv (note_kernel_pointer kernel_name kind p km)"
proof (cases "map_of (km_allocations km) p")
  case (Some r)
  show ?thesis unfolding note_kernel_pointer_def Some option.case Let_def
    by (rule update_region_inv [OF inv Some]) simp_all
qed (simp add: note_kernel_pointer_def inv)

lemma note_kernel_pointers_kimi_inv:
  assumes inv: "kimi_inv km"
  shows "kimi_inv (fst (note_kernel_pointers_inner ke kernel_name ptrs (km, dk)))"
proof -
  have "kimi_inv (foldl (\<lambda>km p. note_kernel_pointer kernel_name kind p km) km ps)" for kind ps
    using inv by (induction ps arbitrary: km) (simp_all add: note_kernel_pointer_kimi_inv)
  then show ?thesis using inv by (simp add: note_kernel_pointers_inner_def Let_def split: option.splits)
qed

lemma note_allocator_metadata_kimi_inv:
  assumes inv: "kimi_inv km"
  shows "kimi_inv (fst (fst (note_allocator_metadata ke poisoned p table n bitmap nbytes (km, dk))))"
proof (cases "map_of (km_allocations km) p")
  case (Some r)
  show ?thesis using inv update_region_inv [OF inv Some]
    by (simp add: note_allocator_metadata_def note_allocator_metadata_inner_def Some Let_def)
qed (simp add: note_allocator_metadata_def note_allocator_metadata_inner_def inv)

lemma kimi_step_counter:
  "km_next_allocation_index (fst (kimi_step ke opn (km, dk))) \<in>
     {km_next_allocation_index km, km_next_allocation_index km + 1}"
proof -
  have up: "km_next_allocation_index (upsert_manifest_for_ptr p m) = km_next_allocation_index m" for p m
    by (simp add: upsert_manifest_for_ptr_def split: option.splits)
  have ptr: "km_next_allocation_index (note_kernel_pointer name kind p m) = km_next_allocation_index m" for name kind p m
    by (simp add: note_kernel_pointer_def Let_def up split: option.splits)
  have "km_next_allocation_index (foldl (\<lambda>m p. note_kernel_pointer name kind p m) km ps) = km_next_allocation_index km"
    for name kind ps by (induction ps arbitrary: km) (simp_all add: ptr)
  then show ?thesis
    by (cases opn) (auto simp: note_allocation_inner_def note_deallocation_def note_kernel_pointers_inner_def
      note_allocator_metadata_def note_allocator_metadata_inner_def Let_def up split: option.splits)
qed

lemma kimi_step_inv:
  assumes "kimi_inv km" "km_next_allocation_index km \<noteq> - 1"
  shows "kimi_inv (fst (kimi_step ke opn (km, dk)))"
  using assms by (cases opn) (simp_all add: note_allocation_kimi_inv note_deallocation_kimi_inv
    note_kernel_pointers_kimi_inv note_allocator_metadata_kimi_inv)

lemma kimi_run_inv:
  "kimi_inv km \<Longrightarrow> unat (km_next_allocation_index km) + length ops < 2 ^ 64 \<Longrightarrow> kimi_inv (fst (kimi_run ke ops (km, dk)))"
proof (induction ops arbitrary: km dk)
  case (Cons opn ops)
  obtain km' dk' where st: "kimi_step ke opn (km, dk) = (km', dk')" by fastforce
  have "km_next_allocation_index km \<noteq> - 1" using Cons.prems(2) by (auto simp: unsigned_minus_1_eq_mask mask_eq_exp_minus_1)
  then have "kimi_inv km'" using kimi_step_inv [OF Cons.prems(1), of ke opn dk] st by simp
  moreover have "unat (km_next_allocation_index km') \<le> unat (km_next_allocation_index km) + 1"
    using kimi_step_counter [of ke opn km dk] st by (auto simp: unat_word_ariths intro: le_trans [OF mod_less_eq_dividend])
  ultimately show ?case using Cons.IH [of km' dk'] Cons.prems(2) st by (simp add: kimi_run_def)
qed (simp add: kimi_run_def)

lemma kimi_new_inv: "kimi_inv (kimi_new ke dk cfg)" "km_next_allocation_index (kimi_new ke dk cfg) = 1"
  by (simp_all add: kimi_inv_def kimi_new_def Let_def)

subsection \<open>Dirty bitmaps\<close>

lemma bit_to_le: "k < n \<Longrightarrow> bit (to_le n w ! k) j \<longleftrightarrow> j < 8 \<and> bit w (8 * k + j)" for w :: "'a::len word"
proof (induction n arbitrary: w k)
  case (Suc n)
  then show ?case by (cases k) (auto simp: bit_ucast_iff bit_drop_bit_eq algebra_simps)
qed simp

lemma mask_test: "w AND push_bit j 1 \<noteq> 0 \<longleftrightarrow> bit w j" for w :: "'a::len word"
  by (metis and_exp_eq_0_iff_not_bit push_bit_of_1)

lemma nth_concat_blocks:
  assumes "list_all (\<lambda>b. length b = n) bs" "0 < n" "i < length bs * n"
  shows "concat bs ! i = (bs ! (i div n)) ! (i mod n)"
  using assms(1,3)
proof (induction bs arbitrary: i)
  case (Cons b bs)
  then show ?case using assms(2) by (cases "i < n") (auto simp: nth_append le_div_geq le_mod_geq)
qed simp

text \<open>C35. C0: the two encodings of a dirty bitmap agree: the worker's 64-bit words and the allocator's bytes that hold them
  in memory give the same page offsets, in the same order, whatever the page count (pages past the bitmap are clean).\<close>

theorem dirty_bitmap_words_bytes:
  "dirty_page_offsets_from_words ws page_count = dirty_page_offsets_from_bitmap_bytes (concat (map le_u64 ws)) page_count"
proof -
  let ?bs = "concat (map le_u64 ws)"
  have len: "length ?bs = 8 * length ws" by (induction ws) auto
  have "((if page div 64 < length ws then ws ! (page div 64) else 0) AND push_bit (page mod 64) 1 \<noteq> 0) \<longleftrightarrow>
      ((if page div 8 < length ?bs then ?bs ! (page div 8) else 0) AND push_bit (page mod 8) 1 \<noteq> 0)" for page
  proof (cases "page div 64 < length ws")
    case True
    then have i: "page div 8 < length ws * 8" by linarith
    have e: "page div 8 div 8 = page div 64" "8 * (page div 8 mod 8) + page mod 8 = page mod 64"
      using mod_mult2_eq [of page 8 8] div_mult2_eq [of page 8 8] by (simp_all add: add.commute)
    have "?bs ! (page div 8) = le_u64 (ws ! (page div 64)) ! (page div 8 mod 8)"
      using nth_concat_blocks [of 8 "map le_u64 ws" "page div 8"] i True e by (simp add: list_all_iff)
    then show ?thesis using True i len e(2) unfolding mask_test by (simp add: bit_to_le)
  next
    case False
    then have "\<not> page div 8 < length ?bs" using len by linarith
    then show ?thesis using False by simp
  qed
  then show ?thesis by (simp add: dirty_page_offsets_from_words_def dirty_page_offsets_from_bitmap_bytes_def)
qed

lemma dirty_page_offsets_mem:
  "set (dirty_page_offsets_from_words ws page_count) =
     (\<lambda>page. page * PAGE_SIZE) ` {page. page < page_count \<and> page div 64 < length ws \<and> bit (ws ! (page div 64)) (page mod 64)}"
proof -
  have "(if page div 64 < length ws then ws ! (page div 64) else 0) AND push_bit (page mod 64) 1 \<noteq> 0 \<longleftrightarrow>
      page div 64 < length ws \<and> bit (ws ! (page div 64)) (page mod 64)" for page
    unfolding mask_test by simp
  then show ?thesis by (auto simp: dirty_page_offsets_from_words_def)
qed

lemma decode_block_table_snapshot_roundtrip:
  "decode_block_table_snapshot (concat (map le_u32 ws)) = ws"
proof (induction ws)
  case (Cons w ws)
  obtain a b c d where e: "le_u32 w = [a, b, c, d]"
    using length_to_le [of 4 w] by (auto simp: numeral_eq_Suc length_Suc_conv)
  then show ?case using Cons from_le_to_le [of 4 w] by simp
qed simp

subsection \<open>Restore offsets\<close>

lemma position_Some:
  "position P xs = Some i \<Longrightarrow> i < length xs \<and> P (xs ! i) \<and> (\<forall>j < i. \<not> P (xs ! j))"
proof (induction xs arbitrary: i)
  case (Cons x xs)
  then show ?case by (auto simp: less_Suc_eq_0_disj nth_Cons split: if_splits nat.splits)
qed simp

lemma position_nth:
  "i < length xs \<Longrightarrow> P (xs ! i) \<Longrightarrow> (\<And>j. j < i \<Longrightarrow> \<not> P (xs ! j)) \<Longrightarrow> position P xs = Some i"
proof (induction xs arbitrary: i)
  case (Cons x xs)
  then show ?case by (cases i) force+
qed simp

text \<open>C34. C0: moving a restore offset from the saved to the current block table succeeds exactly when the page is in the saved
  table at a logical index the current table has; the result lies in that logical page's current block at the same place
  in the page, never overflows, and moving it back through the tables gives the saved offset again.\<close>

theorem kv_restore_offset_roundtrip:
  assumes "am_block_table_snapshot old_am \<noteq> []" "am_block_table_snapshot new_am \<noteq> []"
    and dis: "distinct (am_block_table_snapshot new_am)"
  shows "case position (\<lambda>page. unat page = off div PAGE_SIZE) (am_block_table_snapshot old_am) of
      None \<Rightarrow> translate_kv_restore_offset off old_am new_am = Err (OldPageAbsent (off div PAGE_SIZE))
    | Some i \<Rightarrow>
        if i < length (am_block_table_snapshot new_am)
        then \<exists>off'. translate_kv_restore_offset off old_am new_am = Ok off' \<and>
          off' div PAGE_SIZE = unat (am_block_table_snapshot new_am ! i) \<and> off' mod PAGE_SIZE = off mod PAGE_SIZE \<and>
          translate_kv_restore_offset off' new_am old_am = Ok off
        else translate_kv_restore_offset off old_am new_am = Err (NoLogicalPage i)"
proof (cases "position (\<lambda>page. unat page = off div PAGE_SIZE) (am_block_table_snapshot old_am)")
  case (Some i)
  let ?new = "am_block_table_snapshot new_am" and ?old = "am_block_table_snapshot old_am"
  have fit: "unat (w :: u32) * PAGE_SIZE + m mod PAGE_SIZE < 2 ^ 64" for w and m :: nat
  proof -
    have "unat w < 2 ^ 32" using unsigned_less [of w] by simp
    moreover have "m mod PAGE_SIZE < PAGE_SIZE" by (simp add: PAGE_SIZE_def)
    ultimately show ?thesis by (simp add: PAGE_SIZE_def)
  qed
  have fit': "unat (w :: u32) * PAGE_SIZE < 2 ^ 64" for w using fit [of w 0] by simp
  have i: "i < length ?old" "unat (?old ! i) = off div PAGE_SIZE" using position_Some [OF Some] by auto
  show ?thesis
  proof (cases "i < length ?new")
    case True
    define off' where "off' = unat (?new ! i) * PAGE_SIZE + off mod PAGE_SIZE"
    have off': "off' div PAGE_SIZE = unat (?new ! i)" "off' mod PAGE_SIZE = off mod PAGE_SIZE"
      by (simp_all add: off'_def PAGE_SIZE_def)
    have "position (\<lambda>page. unat page = off' div PAGE_SIZE) ?new = Some i"
      using True dis by (intro position_nth) (auto simp: off' nth_eq_iff_index_eq unsigned_word_eqI dest!: unsigned_word_eqI)
    then have "translate_kv_restore_offset off' new_am old_am = Ok off"
      using assms i fit [of "?old ! i" off'] fit' [of "?old ! i"] off'
      by (simp add: translate_kv_restore_offset_def Let_def)
    moreover have "translate_kv_restore_offset off old_am new_am = Ok off'"
      using assms True fit [of "?new ! i" off] fit' [of "?new ! i"]
      by (simp add: translate_kv_restore_offset_def Let_def Some off'_def)
    ultimately show ?thesis using Some True off' by auto
  qed (use assms in \<open>simp add: translate_kv_restore_offset_def Let_def Some\<close>)
qed (use assms in \<open>simp add: translate_kv_restore_offset_def Let_def\<close>)

definition example_allocator :: "u32 list \<Rightarrow> KimiAllocatorMetadata" where
  "example_allocator blocks = \<lparr>am_block_table_ptr = 4096, am_block_count = length blocks, am_dirty_bitmap_ptr = 8192,
     am_dirty_bitmap_bytes = 8, am_block_table_snapshot = blocks\<rparr>"

theorem kv_restore_offset_roundtrip_witness:
  "\<exists>off'. translate_kv_restore_offset 4101 (example_allocator [3, 1]) (example_allocator [0, 2]) = Ok off' \<and>
    off' div PAGE_SIZE = 2 \<and> translate_kv_restore_offset off' (example_allocator [0, 2]) (example_allocator [3, 1]) = Ok 4101"
  using kv_restore_offset_roundtrip [of "example_allocator [3, 1]" "example_allocator [0, 2]" 4101]
  by (auto simp: example_allocator_def PAGE_SIZE_def)

subsection \<open>Restart\<close>

lemma fs_write_read:
  assumes s: "list_all (\<lambda>c. of_char c < (128 :: nat)) s" and w: "fs_write dk path (str_bytes s) = (dk', Ok ())"
  shows "fs_read_to_string dk' path = Ok s"
proof -
  have b: "unat (of_char c :: u8) = of_char c" if "of_char c < (128 :: nat)" for c
    using that by (simp add: of_char_def unsigned_of_nat take_bit_nat_eq_self)
  have "file_bytes dk' path = str_bytes s \<and> disk_files dk' path \<noteq> None"
    using w by (auto simp: fs_write_def write_all_def file_bytes_def Let_def split: if_splits prod.splits)
  then have f: "disk_files dk' path = Some (str_bytes s)" by (auto simp: file_bytes_def)
  have "char_of (unat (of_char c :: u8)) = c \<and> (of_char c :: u8) < 128" if "c \<in> set s" for c
  proof -
    have c: "of_char c < (128 :: nat)" using s that by (simp add: list_all_iff)
    show ?thesis using b [OF c] c by (simp add: word_less_nat_alt)
  qed
  then show ?thesis by (simp add: fs_read_to_string_def f str_bytes_def list_all_iff map_idI)
qed

lemma write_manifest_read:
  assumes "ke_to_json ke rs = Ok s" "list_all (\<lambda>c. of_char c < (128 :: nat)) s" "ke_from_json ke s = Ok rs"
    and "write_manifest ke dk path rs = (dk', Ok ())"
  shows "read_manifest ke dk' path = Ok rs"
proof -
  have "fs_write dk path (str_bytes s) = (dk', Ok ())"
    using assms(1,4) by (cases "snd (fs_write dk path (str_bytes s))")
      (auto simp: write_manifest_def split: outcome.splits prod.splits)
  then show ?thesis using fs_write_read [OF assms(2)] assms(3) by (simp add: read_manifest_def)
qed

text \<open>No operation changes the configuration or the manifest to restore from, and region ids only grow.\<close>

lemma upsert_keeps:
  "km_config (upsert_manifest_for_ptr p m) = km_config m" "km_restore_manifest (upsert_manifest_for_ptr p m) = km_restore_manifest m"
  by (simp_all add: upsert_manifest_for_ptr_def split: option.splits)

lemma kernel_pointers_keep:
  "km_config (foldl (\<lambda>m p. note_kernel_pointer name kind p m) m ps) = km_config m"
  "km_restore_manifest (foldl (\<lambda>m p. note_kernel_pointer name kind p m) m ps) = km_restore_manifest m"
  by (induction ps arbitrary: m) (simp_all add: note_kernel_pointer_def Let_def upsert_keeps split: option.splits)

lemma kimi_step_keeps:
  "km_config (fst (kimi_step ke opn st)) = km_config (fst st) \<and>
   km_restore_manifest (fst (kimi_step ke opn st)) = km_restore_manifest (fst st)"
  by (cases opn; cases st)
    (simp_all add: note_allocation_inner_def note_deallocation_def note_kernel_pointers_inner_def
      note_allocator_metadata_def note_allocator_metadata_inner_def Let_def upsert_keeps kernel_pointers_keep
      split: option.splits)

lemma kimi_run_keeps:
  "km_config (fst (kimi_run ke ops st)) = km_config (fst st) \<and>
   km_restore_manifest (fst (kimi_run ke ops st)) = km_restore_manifest (fst st)"
  by (induction ops arbitrary: st) (simp_all add: kimi_run_def kimi_step_keeps)

lemma saved_id_le_max: "s \<in> set rs \<Longrightarrow> spec_region_id s \<le> max_region_id rs"
proof -
  have "a \<le> foldl max a xs \<and> (\<forall>x \<in> set xs. x \<le> foldl max a xs)" for a :: u64 and xs
    by (induction xs arbitrary: a) (auto, metis max.bounded_iff, metis max.bounded_iff)
  then show "s \<in> set rs \<Longrightarrow> spec_region_id s \<le> max_region_id rs" by (simp add: max_region_id_def)
qed

lemma tracked_in_manifest:
  assumes "kimi_inv km" "e \<in> set (km_allocations km)"
  shows "region_spec (snd e) \<in> set (km_manifest km)"
proof -
  have "set (km_manifest km) = set (map (region_spec \<circ> snd) (km_allocations km))"
    using assms(1) by (intro mset_eq_setD) (simp add: kimi_inv_def)
  then show ?thesis using assms(2) by auto
qed

text \<open>C15. C0: a manifest that was written is the one a restarted manager restores from, through any run of calls: a region
  whose kind, stable key and tracked size the saved manifest has gets its saved region id back at its first launch, in the
  allocation and in the new manifest, and fresh ids start above every saved one.\<close>

theorem kimi_restart_restores_ids:
  assumes codec: "ke_to_json ke rs = Ok s" "list_all (\<lambda>c. of_char c < (128 :: nat)) s" "ke_from_json ke s = Ok rs"
    and saved: "write_manifest ke dk (cfg_manifest_path cfg) rs = (dk', Ok ())"
    and cfg: "cfg_restore_enabled cfg"
    and run: "kimi_run ke ops (kimi_new ke dk' cfg, dk') = (km, dk'')"
    and region: "map_of (km_allocations km) p = Some r" "length ops < 2 ^ 64 - 1"
    and found: "find_region_id rs kind (stable_key_for_region km p kind (tr_tracked_size r)) (tr_tracked_size r) = Some i"
  shows "(\<exists>r'. map_of (km_allocations (note_kernel_pointer name kind p km)) p = Some r' \<and> tr_region_id r' = i \<and>
    tr_kind r' = kind \<and> tr_tracked_size r' = tr_tracked_size r \<and>
    region_spec r' \<in> set (km_manifest (note_kernel_pointer name kind p km))) \<and>
    (max_region_id rs = - 1 \<or> list_all (\<lambda>s. spec_region_id s < km_next_region_id (kimi_new ke dk' cfg)) rs)"
proof (rule conjI)
  have inv: "kimi_inv km" using kimi_run_inv [OF kimi_new_inv(1), of ke dk' cfg ops ke dk'] run region(2) by (simp add: kimi_new_inv(2))
  have rd: "read_manifest ke dk' (cfg_manifest_path cfg) = Ok rs" by (rule write_manifest_read [OF codec saved])
  have "km_restore_manifest km = Some rs"
    using kimi_run_keeps [of ke ops "(kimi_new ke dk' cfg, dk')"] run cfg rd
    by (simp add: kimi_new_def Let_def outcome_ok_def)
  then have e: "note_kernel_pointer name kind p km =
      upsert_manifest_for_ptr p (km\<lparr>km_allocations := btree_insert p (r\<lparr>tr_kind := kind,
        tr_stable_key := stable_key_for_region km p kind (tr_tracked_size r), tr_region_id := i,
        tr_last_kernel := Some name\<rparr>) (km_allocations km)\<rparr>)" (is "_ = upsert_manifest_for_ptr p (km\<lparr>km_allocations := btree_insert p ?r _\<rparr>)")
    using region(1) found by (simp add: note_kernel_pointer_def Let_def)
  have inv': "kimi_inv (note_kernel_pointer name kind p km)" by (rule note_kernel_pointer_kimi_inv [OF inv])
  have so: "sorted_wrt (<) (map fst (km_allocations km))" using inv by (simp add: kimi_inv_def)
  have m: "map_of (km_allocations (note_kernel_pointer name kind p km)) p = Some ?r"
    using so by (simp add: e upsert_manifest_for_ptr_def map_of_btree_insert)
  then have "(p, ?r) \<in> set (km_allocations (note_kernel_pointer name kind p km))" by (rule map_of_SomeD)
  then have "region_spec ?r \<in> set (km_manifest (note_kernel_pointer name kind p km))"
    using tracked_in_manifest [OF inv'] by fastforce
  then show "\<exists>r'. map_of (km_allocations (note_kernel_pointer name kind p km)) p = Some r' \<and> tr_region_id r' = i \<and>
    tr_kind r' = kind \<and> tr_tracked_size r' = tr_tracked_size r \<and>
    region_spec r' \<in> set (km_manifest (note_kernel_pointer name kind p km))"
    using m by (intro exI [of _ ?r]) simp
  show "max_region_id rs = - 1 \<or> list_all (\<lambda>s. spec_region_id s < km_next_region_id (kimi_new ke dk' cfg)) rs"
  proof (cases "max_region_id rs = - 1")
    case False
    then have "max_region_id rs < max (max_region_id rs + 1) 1" using word_less_Suc by (auto simp: less_max_iff_disj)
    then have "spec_region_id s < max (max_region_id rs + 1) 1" if "s \<in> set rs" for s
      using saved_id_le_max [OF that] by simp
    then show ?thesis using False cfg rd by (simp add: kimi_new_def Let_def outcome_ok_def list_all_iff)
  qed simp
qed

text \<open>The manager's state never depends on whether the manifest could be written.\<close>

lemma kimi_run_disk: "fst (kimi_run ke ops (km, dk)) = fst (kimi_run ke ops (km, dk'))"
proof (induction ops arbitrary: km dk dk')
  case (Cons opn ops)
  have "fst (kimi_step ke opn (km, dk)) = fst (kimi_step ke opn (km, dk'))"
    by (cases opn) (simp_all add: note_allocation_inner_def note_deallocation_def note_kernel_pointers_inner_def
      note_allocator_metadata_def note_allocator_metadata_inner_def Let_def split: option.splits)
  then show ?case
    using Cons by (cases "kimi_step ke opn (km, dk)"; cases "kimi_step ke opn (km, dk')") (simp add: kimi_run_def)
qed (simp add: kimi_run_def)

definition readonly_disk :: disk where
  "readonly_disk = \<lparr>disk_files = (\<lambda>_. None), disk_room = 0, disk_opens = (\<lambda>_. False)\<rparr>"

lemma persist_readonly: "persist_manifest_best_effort ke km readonly_disk = readonly_disk"
  by (simp add: persist_manifest_best_effort_def write_manifest_def fs_write_def readonly_disk_def split: outcome.splits)

definition example_config :: "bool \<Rightarrow> KimiConcordiaConfig" where
  "example_config restore = \<lparr>cfg_enabled = True, cfg_restore_enabled = restore, cfg_min_allocation_bytes = 4096, cfg_max_regions = 8,
     cfg_checkpoint_every = 1, cfg_aof_path = ''kimi.aof'', cfg_restore_aof_path = ''kimi.aof'',
     cfg_manifest_path = ''kimi.manifest.json'', cfg_logs_enabled = False\<rparr>"

lemma example_numbers:
  "tracked_len 4096 = 4096" "show_nat 4096 = ''4096''" "show_pad4 (Suc (Suc 0)) = ''0002''" "show_pad4 2 = ''0002''"
  "show_pad4 (Suc 0) = ''0001''" "show_pad4 3 = ''0003''" "region_kind_for_kernel ''kv_update'' = Some KvCache"
  by (simp_all add: tracked_len_def PAGE_SIZE_def show_nat.simps show_pad4_def digit_char_def) code_simp+

lemmas kimi_eval = kimi_run_def kimi_new_def example_config_def note_allocation_inner_def should_track_allocation_def
    example_numbers upsert_manifest_for_ptr_def manifest_upsert_def region_spec_def note_kernel_pointers_inner_def
    note_kernel_pointer_def stable_key_for_region_def stable_prefix_def note_deallocation_def btree_remove_def
    manifest_remove_ptr_def sort_key_def spec_order_def persist_readonly Let_def

definition example_spec :: KimiRegionSpec where
  "example_spec = \<lparr>spec_region_id = 7, spec_stable_key = ''kv-cache:0001:4096'', spec_kind = KvCache, spec_ptr = 65536,
     spec_requested_size = 4096, spec_tracked_size = 4096, spec_allocation_index = 1, spec_last_kernel = None, spec_allocator = None\<rparr>"

definition example_kimi_env :: kimi_env where
  "example_kimi_env = \<lparr>ke_environ = (\<lambda>_. None), ke_create_dir_all = (\<lambda>_. True), ke_to_json = (\<lambda>_. Ok ''7''),
     ke_from_json = (\<lambda>_. Ok [example_spec])\<rparr>"

definition writable_disk :: "bytes option \<Rightarrow> disk" where
  "writable_disk content = \<lparr>disk_files = (\<lambda>_. None)(''kimi.manifest.json'' := content),
     disk_room = (if content = None then 1 else 0), disk_opens = (\<lambda>_. True)\<rparr>"

text \<open>C14. C0: whatever sequence of allocations, deallocations, kernel launches and metadata registrations the manager is
  told of (fewer than \<open>2\<^sup>64 - 1\<close> calls), its manifest lists exactly the tracked allocations, in allocation order, each
  pointer and allocation index once, at most \<open>max_regions\<close> of them, each non-null, rounded down to whole pages and at
  least the minimum size; without a manifest to restore from, the region ids are distinct too.\<close>

theorem kimi_manifest_tracks_allocations:
  assumes "length ops < 2 ^ 64 - 1"
    and "kimi_run ke ops (kimi_new ke dk cfg, dk) = (km, dk')"
  shows "km_config km = cfg \<and> mset (km_manifest km) = mset (map (region_spec \<circ> snd) (km_allocations km)) \<and>
    sorted (map spec_order (km_manifest km)) \<and> distinct (map spec_ptr (km_manifest km)) \<and>
    distinct (map spec_allocation_index (km_manifest km)) \<and> length (km_manifest km) \<le> cfg_max_regions cfg \<and>
    list_all (\<lambda>s. spec_ptr s \<noteq> 0 \<and> spec_tracked_size s = tracked_len (spec_requested_size s) \<and>
      should_track_allocation cfg (spec_requested_size s)) (km_manifest km) \<and>
    (km_restore_manifest km = None \<longrightarrow> distinct (map spec_region_id (km_manifest km)))"
proof -
  have inv: "kimi_inv km" using kimi_run_inv [OF kimi_new_inv(1), of ke dk cfg ops ke dk] assms by (simp add: kimi_new_inv(2))
  have cfg: "km_config km = cfg"
    using kimi_run_keeps [of ke ops "(kimi_new ke dk cfg, dk)"] assms(2) by (simp add: kimi_new_def Let_def)
  let ?rs = "map (region_spec \<circ> snd) (km_allocations km)"
  have ms: "mset (km_manifest km) = mset ?rs" using inv by (simp add: kimi_inv_def)
  have specs: "map spec_allocation_index ?rs = map (tr_allocation_index \<circ> snd) (km_allocations km)"
    by (simp add: region_spec_def)
  have ids: "map spec_region_id ?rs = map spec_allocation_index ?rs" if "km_restore_manifest km = None"
    using inv that by (auto simp: kimi_inv_def list_all_iff tracked_ok_def region_spec_def)
  have dis: "distinct (map f (km_manifest km)) \<longleftrightarrow> distinct (map f ?rs)" for f :: "KimiRegionSpec \<Rightarrow> u64"
    using arg_cong [OF ms, of "image_mset f"] by (intro mset_eq_imp_distinct_iff) (simp only: mset_map)
  have index: "distinct (map spec_allocation_index (km_manifest km))" using dis specs inv by (simp only: kimi_inv_def)
  then have id: "distinct (map spec_region_id (km_manifest km))" if "km_restore_manifest km = None"
    using dis ids [OF that] by (simp only:)
  have "list_all (\<lambda>s. spec_ptr s \<noteq> 0 \<and> spec_tracked_size s = tracked_len (spec_requested_size s) \<and>
      should_track_allocation cfg (spec_requested_size s)) ?rs"
    using inv cfg by (auto simp: kimi_inv_def list_all_iff tracked_ok_def region_spec_def)
  then have "list_all (\<lambda>s. spec_ptr s \<noteq> 0 \<and> spec_tracked_size s = tracked_len (spec_requested_size s) \<and>
      should_track_allocation cfg (spec_requested_size s)) (km_manifest km)"
    unfolding list_all_iff mset_eq_setD [OF ms] .
  then show ?thesis using inv cfg ms mset_eq_length [OF ms] manifest_ptrs(2) [OF inv] index id by (simp add: kimi_inv_def)
qed

theorem kimi_manifest_tracks_allocations_witness:
  "distinct (map spec_region_id (km_manifest (fst (kimi_run example_kimi_env
     [NoteAllocation 4096 4096, NoteAllocation 8192 5000, NoteLaunch ''kv_update'' [4096, 8192], NoteDeallocation 4096,
      NoteMetadata 8192 0 0 65536 8]
     (kimi_new example_kimi_env readonly_disk (example_config False), readonly_disk)))))"
  using kimi_manifest_tracks_allocations [OF _ prod.collapse [symmetric], of
    "[NoteAllocation 4096 4096, NoteAllocation 8192 5000, NoteLaunch ''kv_update'' [4096, 8192], NoteDeallocation 4096,
      NoteMetadata 8192 0 0 65536 8]" example_kimi_env readonly_disk "example_config False"]
    kimi_run_keeps [of example_kimi_env "[NoteAllocation 4096 4096, NoteAllocation 8192 5000,
      NoteLaunch ''kv_update'' [4096, 8192], NoteDeallocation 4096, NoteMetadata 8192 0 0 65536 8]"
      "(kimi_new example_kimi_env readonly_disk (example_config False), readonly_disk)"]
  by (simp add: kimi_new_def example_config_def Let_def)

lemma example_save:
  "write_manifest example_kimi_env (writable_disk None) (cfg_manifest_path (example_config True)) [example_spec] =
     (writable_disk (Some (str_bytes ''7'')), Ok ())"
  by (simp add: write_manifest_def example_kimi_env_def ensure_parent_def example_config_def fs_write_def write_all_def
    writable_disk_def file_bytes_def str_bytes_def Let_def fun_eq_iff split: option.splits)

lemma example_ascii: "list_all (\<lambda>c. of_char c < (128 :: nat)) ''7''"
  by code_simp

lemma example_restart:
  "map_of (km_allocations (fst (kimi_run example_kimi_env [NoteAllocation 4096 4096]
      (kimi_new example_kimi_env (writable_disk (Some (str_bytes ''7''))) (example_config True), dk)))) 4096 =
   Some \<lparr>tr_ptr = 4096, tr_requested_size = 4096, tr_tracked_size = 4096, tr_region_id = 8, tr_allocation_index = 1,
     tr_kind = OpaqueMutable, tr_stable_key = ''opaque:0001:4096'', tr_last_kernel = None, tr_initialized = False,
     tr_restored = False, tr_allocator = None, tr_device = None\<rparr>" (is ?a)
  "stable_key_for_region (fst (kimi_run example_kimi_env [NoteAllocation 4096 4096]
      (kimi_new example_kimi_env (writable_disk (Some (str_bytes ''7''))) (example_config True), dk))) 4096 KvCache 4096 =
   ''kv-cache:0001:4096''" (is ?b)
proof -
  have r: "read_manifest example_kimi_env (writable_disk (Some (str_bytes ''7''))) ''kimi.manifest.json'' = Ok [example_spec]"
    by (rule write_manifest_read [OF _ example_ascii _ example_save [unfolded example_config_def KimiConcordiaConfig.select_convs]])
      (simp_all add: example_kimi_env_def)
  show ?a ?b unfolding kimi_run_disk [of _ _ _ dk readonly_disk]
    by (simp_all add: kimi_eval r outcome_ok_def max_region_id_def example_spec_def)
qed

theorem kimi_restart_restores_ids_witness:
  "\<exists>km r'. fst (kimi_run example_kimi_env [NoteAllocation 4096 4096]
      (kimi_new example_kimi_env (writable_disk (Some (str_bytes ''7''))) (example_config True), readonly_disk)) = km \<and>
    map_of (km_allocations (note_kernel_pointer ''kv_update'' KvCache 4096 km)) 4096 = Some r' \<and> tr_region_id r' = 7"
proof -
  let ?dk = "writable_disk (Some (str_bytes ''7''))"
  obtain km dk'' where run: "kimi_run example_kimi_env [NoteAllocation 4096 4096]
      (kimi_new example_kimi_env ?dk (example_config True), ?dk) = (km, dk'')" by fastforce
  have km: "fst (kimi_run example_kimi_env [NoteAllocation 4096 4096]
      (kimi_new example_kimi_env ?dk (example_config True), dk)) = km" for dk
    using run kimi_run_disk by (metis fst_conv)
  note ex = example_restart [of readonly_disk, unfolded km]
  show ?thesis
    using kimi_restart_restores_ids [OF _ example_ascii _ example_save _ run ex(1), of KvCache 7 "''kv_update''"] km ex(2)
    by (auto simp: example_kimi_env_def example_config_def find_region_id_def example_spec_def)
qed


end
