(* ===== verification/Nccl_Recovery.thy ===== *)
theory Nccl_Recovery
  imports Rust_Str
begin

text \<open>
  Failure classification and ring repair of \<^verbatim>\<open>zluda/src/impl/nccl_recovery.rs\<close>: the state machine
  Healthy, Isolated, Restoring, Reintegrated over the list of active ranks, the replacement planner,
  and the two C entry points. Ranks are \<open>i32\<close> values that are only compared and copied, so they are
  integers here; error strings are the exact texts.
\<close>

subsection \<open>Data\<close>

datatype FaultClass = Transient | Degraded | Permanent

datatype RecoveryAction = Retry | Migrate | Replace

record NcclRecoveryDecision =
  decision_class :: FaultClass
  decision_action :: RecoveryAction
  decision_reason :: string

datatype NcclRecoveryPhase = Healthy | Isolated | Restoring | Reintegrated

record NcclRecoveryState =
  nccl_phase :: NcclRecoveryPhase
  original_nranks :: int
  failed_rank :: "int option"
  replacement_rank :: "int option"
  active_ranks :: "int list"

subsection \<open>Operations\<close>

definition validate_rank :: "int \<Rightarrow> int \<Rightarrow> string \<Rightarrow> (unit, string) outcome" where
  "validate_rank nranks rank label =
     (if nranks \<le> 0 then Err (''nranks must be positive, got '' @ show_int nranks)
      else if \<not> (0 \<le> rank \<and> rank < nranks) then
        Err (label @ '' rank '' @ show_int rank @ '' outside 0..'' @ show_int nranks)
      else Ok ())"

definition plan_replacement_ring :: "int \<Rightarrow> int \<Rightarrow> int \<Rightarrow> (int list, string) outcome" where
  "plan_replacement_ring nranks failed replacement =
     obind (validate_rank nranks failed ''failed'') (\<lambda>_.
       if (0 \<le> replacement \<and> replacement < nranks) \<and> replacement \<noteq> failed then
         Err (''replacement rank '' @ show_int replacement @ '' collides with existing live rank'')
       else Ok (map (\<lambda>rank. if rank = failed then replacement else rank) [0..nranks - 1]))"

definition healthy :: "int \<Rightarrow> NcclRecoveryState" where
  "healthy nranks =
     \<lparr>nccl_phase = Healthy, original_nranks = max nranks 0, failed_rank = None,
      replacement_rank = None,
      active_ranks = (if nranks > 0 then [0..nranks - 1] else [])\<rparr>"

definition on_failure :: "NcclRecoveryState \<Rightarrow> int \<Rightarrow> FaultClass \<Rightarrow> (NcclRecoveryState, string) outcome" where
  "on_failure st failed cls =
     obind (validate_rank (original_nranks st) failed ''failed'') (\<lambda>_.
       if cls = Transient then Ok st
       else Ok (st\<lparr>nccl_phase := Isolated, failed_rank := Some failed, replacement_rank := None,
                   active_ranks := filter (\<lambda>rank. rank \<noteq> failed) [0..original_nranks st - 1]\<rparr>))"

definition with_replacement :: "NcclRecoveryState \<Rightarrow> int \<Rightarrow> (NcclRecoveryState, string) outcome" where
  "with_replacement st replacement =
     obind (ok_or ''replacement requested before permanent failure'' (failed_rank st)) (\<lambda>failed.
       obind (plan_replacement_ring (original_nranks st) failed replacement) (\<lambda>ring.
         Ok (st\<lparr>active_ranks := ring, nccl_phase := Restoring, replacement_rank := Some replacement\<rparr>)))"

definition restore_complete :: "NcclRecoveryState \<Rightarrow> (NcclRecoveryState, string) outcome" where
  "restore_complete st =
     (if nccl_phase st \<noteq> Restoring then Err ''restore completion requires restoring phase''
      else Ok (st\<lparr>nccl_phase := Reintegrated\<rparr>))"

definition classify_nccl_failure :: "int \<Rightarrow> int \<Rightarrow> u32 \<Rightarrow> bool \<Rightarrow> NcclRecoveryDecision" where
  "classify_nccl_failure result async_error consecutive_errors health_degraded =
     (if health_degraded \<and> result = 0 \<and> async_error = 0 then
        \<lparr>decision_class = Degraded, decision_action = Migrate, decision_reason = ''health_degraded''\<rparr>
      else if consecutive_errors \<ge> 3 then
        \<lparr>decision_class = Permanent, decision_action = Replace, decision_reason = ''repeated_nccl_errors''\<rparr>
      else
        \<lparr>decision_class = Transient, decision_action = Retry, decision_reason = ''retryable_nccl_error''\<rparr>)"

definition format_active_ring :: "int list \<Rightarrow> string" where
  "format_active_ring ranks = join_with '','' (map show_int ranks)"

definition hetgpu_concordia_nccl_classify_failure :: "int \<Rightarrow> int \<Rightarrow> u32 \<Rightarrow> int \<Rightarrow> int" where
  "hetgpu_concordia_nccl_classify_failure result async_error consecutive_errors health_degraded =
     (case decision_action (classify_nccl_failure result async_error consecutive_errors (health_degraded \<noteq> 0)) of
        Retry \<Rightarrow> 0 | Migrate \<Rightarrow> 1 | Replace \<Rightarrow> 2)"

text \<open>The result pairs the return code with what the caller's buffer holds afterwards.\<close>

definition hetgpu_concordia_nccl_plan_replacement ::
    "int \<Rightarrow> int \<Rightarrow> int \<Rightarrow> int list option \<Rightarrow> int \<Rightarrow> int \<times> int list option" where
  "hetgpu_concordia_nccl_plan_replacement nranks failed replacement out_ranks out_len =
     (case out_ranks of
        None \<Rightarrow> (- 1, out_ranks)
      | Some buf \<Rightarrow>
          if out_len < 0 then (- 1, out_ranks)
          else case plan_replacement_ring nranks failed replacement of
                 Ok plan \<Rightarrow>
                   if out_len < int (length plan) then (- 3, out_ranks)
                   else (int (length plan), Some (overwrite 0 plan buf))
               | _ \<Rightarrow> (- 2, out_ranks))"

subsection \<open>Reachable recovery states\<close>

inductive nccl_reach :: "int \<Rightarrow> NcclRecoveryState \<Rightarrow> bool" for nranks where
  nccl_healthy: "nccl_reach nranks (healthy nranks)"
| nccl_failure: "nccl_reach nranks st \<Longrightarrow> on_failure st r cls = Ok st' \<Longrightarrow> nccl_reach nranks st'"
| nccl_replacement: "nccl_reach nranks st \<Longrightarrow> with_replacement st r = Ok st' \<Longrightarrow> nccl_reach nranks st'"
| nccl_restored: "nccl_reach nranks st \<Longrightarrow> restore_complete st = Ok st' \<Longrightarrow> nccl_reach nranks st'"

text \<open>What a phase says about the ring of \<open>n\<close> ranks.\<close>

definition ring_ok :: "int \<Rightarrow> NcclRecoveryState \<Rightarrow> bool" where
  "ring_ok n st \<longleftrightarrow>
     original_nranks st = n \<and>
     (case nccl_phase st of
        Healthy \<Rightarrow> active_ranks st = [0..n - 1] \<and> failed_rank st = None \<and> replacement_rank st = None
      | Isolated \<Rightarrow> \<exists>f. failed_rank st = Some f \<and> 0 \<le> f \<and> f < n \<and> replacement_rank st = None \<and>
          active_ranks st = filter (\<lambda>r. r \<noteq> f) [0..n - 1]
      | _ \<Rightarrow> \<exists>f r. failed_rank st = Some f \<and> 0 \<le> f \<and> f < n \<and> replacement_rank st = Some r \<and>
          (r = f \<or> r < 0 \<or> n \<le> r) \<and>
          active_ranks st = map (\<lambda>k. if k = f then r else k) [0..n - 1])"

lemma validate_rank_Ok [simp]: "validate_rank n r l = Ok u \<longleftrightarrow> 0 \<le> r \<and> r < n"
  by (auto simp: validate_rank_def)

lemma plan_replacement_ring_Ok [simp]:
  "plan_replacement_ring n f r = Ok ring \<longleftrightarrow>
     0 \<le> f \<and> f < n \<and> (r = f \<or> r < 0 \<or> n \<le> r) \<and> ring = map (\<lambda>k. if k = f then r else k) [0..n - 1]"
  by (auto simp: plan_replacement_ring_def)

lemma replaced_ring_distinct:
  assumes "r = f \<or> r < 0 \<or> n \<le> r"
  shows "distinct (map (\<lambda>k. if k = f then r else k) [0..n - 1 :: int])"
  using assms by (auto simp: distinct_map inj_on_def)

lemma nccl_reach_ring_ok: "nccl_reach n st \<Longrightarrow> ring_ok (max n 0) st"
proof (induction rule: nccl_reach.induct)
  case nccl_healthy
  then show ?case by (simp add: ring_ok_def healthy_def max_def)
next
  case (nccl_failure st r cls st')
  then show ?case by (auto simp: ring_ok_def on_failure_def split: if_splits)
next
  case (nccl_replacement st r st')
  then show ?case
    by (cases "nccl_phase st") (auto simp: ring_ok_def with_replacement_def)
next
  case (nccl_restored st st')
  then show ?case by (auto simp: ring_ok_def restore_complete_def split: if_splits)
qed

lemma ring_ok_distinct: "ring_ok n st \<Longrightarrow> distinct (active_ranks st)"
  by (cases "nccl_phase st") (auto simp: ring_ok_def intro: replaced_ring_distinct)

lemma length_filter_neq_upto: "0 \<le> f \<Longrightarrow> f < n \<Longrightarrow> length (filter (\<lambda>r. r \<noteq> f) [0..n - 1]) = nat n - 1"
proof -
  assume f: "0 \<le> f" "f < n"
  have "length (filter (\<lambda>r. r \<noteq> f) [0..n - 1]) = card (set [0..n - 1] - {f})"
    by (subst distinct_card [symmetric]) (simp_all add: set_diff_eq)
  also have "\<dots> = nat n - 1" using f by (simp add: card_Diff_singleton)
  finally show ?thesis .
qed

subsection \<open>Properties of recovery\<close>

text \<open>
  C30. In every reachable recovery state the active ranks are pairwise distinct, the ring has one
  member fewer than the job while a failed rank is isolated and exactly as many otherwise, the failed
  rank is a rank of the job and is never active unless it was named as its own replacement, and the
  replacement never coincides with another live rank.
\<close>

theorem nccl_ring_invariant:
  assumes "nccl_reach n st" "0 < n"
  shows "distinct (active_ranks st) \<and>
    length (active_ranks st) = (if nccl_phase st = Isolated then nat n - 1 else nat n) \<and>
    (\<forall>f. failed_rank st = Some f \<longrightarrow> 0 \<le> f \<and> f < n \<and>
       (f \<in> set (active_ranks st) \<longrightarrow> replacement_rank st = Some f)) \<and>
    (\<forall>r. replacement_rank st = Some r \<longrightarrow> r \<in> set (active_ranks st) \<and>
       (0 \<le> r \<and> r < n \<longrightarrow> failed_rank st = Some r))"
proof -
  have ok: "ring_ok n st" using nccl_reach_ring_ok [OF assms(1)] assms(2) by (simp add: max_def)
  show ?thesis
  proof (cases "nccl_phase st")
    case Isolated
    with ok ring_ok_distinct [OF ok] length_filter_neq_upto [of _ n] show ?thesis
      by (auto simp: ring_ok_def)
  qed (use ok ring_ok_distinct [OF ok] in \<open>auto simp: ring_ok_def image_iff\<close>)
qed

theorem nccl_ring_invariant_witness:
  "\<exists>st. nccl_reach 4 st \<and> active_ranks st = [0, 1, 7, 3] \<and> distinct (active_ranks st)"
proof -
  let ?st = "\<lparr>nccl_phase = Restoring, original_nranks = 4, failed_rank = Some 2,
    replacement_rank = Some 7, active_ranks = [0, 1, 7, 3]\<rparr>"
  let ?iso = "\<lparr>nccl_phase = Isolated, original_nranks = 4, failed_rank = Some 2,
    replacement_rank = None, active_ranks = [0, 1, 3]\<rparr>"
  have "on_failure (healthy 4) 2 Permanent = Ok ?iso" by code_simp
  then have iso: "nccl_reach 4 ?iso" by (rule nccl_failure [OF nccl_healthy])
  have "with_replacement ?iso 7 = Ok ?st" by code_simp
  with iso have r: "nccl_reach 4 ?st" by (rule nccl_replacement)
  from nccl_ring_invariant [OF r] r show ?thesis by (intro exI [of _ ?st]) simp
qed

text \<open>
  C31. The replacement planner accepts exactly the plans it should, and an accepted plan keeps the
  ring order: position \<open>i\<close> holds \<open>i\<close>, except that the failed rank's position holds the replacement.
  The C planner writes that plan to the front of the caller's buffer and returns its length, or
  leaves the buffer as it was and returns a negative code.
\<close>

theorem nccl_plan_replacement_correct:
  assumes "hetgpu_concordia_nccl_plan_replacement n f r (Some buf) len = (code, out)"
    "int (length buf) = len"
  shows "if 0 \<le> f \<and> f < n \<and> (r = f \<or> r < 0 \<or> n \<le> r) \<and> n \<le> len
    then code = n \<and> (\<exists>buf'. out = Some buf' \<and> length buf' = length buf \<and>
           (\<forall>i < length buf. buf' ! i = (if int i < n then if int i = f then r else int i else buf ! i)))
    else code < 0 \<and> out = Some buf"
proof (cases "plan_replacement_ring n f r")
  case (Ok plan)
  then have plan: "0 \<le> f" "f < n" "r = f \<or> r < 0 \<or> n \<le> r" "length plan = nat n"
    "\<forall>i < nat n. plan ! i = (if int i = f then r else int i)" by auto
  have "(code, out) = (if len < n then (- 3, Some buf) else (n, Some (overwrite 0 plan buf)))"
    using Ok assms plan by (auto simp: hetgpu_concordia_nccl_plan_replacement_def simp del: plan_replacement_ring_Ok split: if_splits)
  with assms(2) plan show ?thesis
    by (auto simp: nth_overwrite split: if_splits)
next
  case (Err e)
  then have "\<not> (0 \<le> f \<and> f < n \<and> (r = f \<or> r < 0 \<or> n \<le> r))"
    by (metis outcome.distinct(1) plan_replacement_ring_Ok)
  with Err assms show ?thesis
    by (auto simp: hetgpu_concordia_nccl_plan_replacement_def split: if_splits)
next
  case Panic
  then have "\<not> (0 \<le> f \<and> f < n \<and> (r = f \<or> r < 0 \<or> n \<le> r))"
    by (metis outcome.distinct(3) plan_replacement_ring_Ok)
  with Panic assms show ?thesis
    by (auto simp: hetgpu_concordia_nccl_plan_replacement_def split: if_splits)
qed

theorem nccl_plan_replacement_correct_witness:
  "hetgpu_concordia_nccl_plan_replacement 4 1 9 (Some [-1, -1, -1, -1, -1]) 5 = (4, Some [0, 9, 2, 3, -1]) \<and>
   (4 :: int) = 4"
proof -
  have e: "hetgpu_concordia_nccl_plan_replacement 4 1 9 (Some [-1, -1, -1, -1, -1]) 5 = (4, Some [0, 9, 2, 3, -1])"
    by code_simp
  from nccl_plan_replacement_correct [OF e] e show ?thesis by simp
qed

text \<open>
  A second permanent failure forgets the first one: once a replacement has been integrated for
  rank \<open>f\<close>, the failure of another rank \<open>g\<close> puts the dead rank \<open>f\<close> back among the active ranks and
  drops the live replacement.
\<close>

theorem nccl_second_failure_resurrects:
  assumes "nccl_reach n st" "nccl_phase st = Reintegrated" "failed_rank st = Some f"
    "replacement_rank st = Some r" "r \<noteq> f" "on_failure st g Permanent = Ok st'" "g \<noteq> f"
  shows "f \<notin> set (active_ranks st) \<and> r \<in> set (active_ranks st) \<and>
    f \<in> set (active_ranks st') \<and> r \<notin> set (active_ranks st')"
  using nccl_reach_ring_ok [OF assms(1)] assms(2-) by (auto simp: ring_ok_def on_failure_def)

theorem nccl_second_failure_resurrects_witness:
  "\<exists>st st'. nccl_reach 4 st \<and> active_ranks st = [0, 1, 7, 3] \<and> on_failure st 1 Permanent = Ok st' \<and>
     2 \<in> set (active_ranks st') \<and> 7 \<notin> set (active_ranks st')"
proof -
  let ?st = "\<lambda>ph. \<lparr>nccl_phase = ph, original_nranks = 4, failed_rank = Some 2,
    replacement_rank = Some 7, active_ranks = [0, 1, 7, 3]\<rparr>"
  let ?iso = "\<lparr>nccl_phase = Isolated, original_nranks = 4, failed_rank = Some 2,
    replacement_rank = None, active_ranks = [0, 1, 3]\<rparr>"
  let ?st' = "\<lparr>nccl_phase = Isolated, original_nranks = 4, failed_rank = Some 1,
    replacement_rank = None, active_ranks = [0, 2, 3]\<rparr>"
  have "on_failure (healthy 4) 2 Permanent = Ok ?iso" by code_simp
  then have iso: "nccl_reach 4 ?iso" by (rule nccl_failure [OF nccl_healthy])
  have "with_replacement ?iso 7 = Ok (?st Restoring)" by code_simp
  with iso have res: "nccl_reach 4 (?st Restoring)" by (rule nccl_replacement)
  have "restore_complete (?st Restoring) = Ok (?st Reintegrated)" by code_simp
  with res have re: "nccl_reach 4 (?st Reintegrated)" by (rule nccl_restored)
  have "on_failure (?st Reintegrated) 1 Permanent = Ok ?st'" by code_simp
  with nccl_second_failure_resurrects [OF re, of 2 7 1 ?st'] re show ?thesis
    by (intro exI [of _ "?st Reintegrated"] exI [of _ ?st']) simp
qed

end
