(* ===== verification/Instrument.thy ===== *)
theory Instrument
  imports Rust_Str Delta_Checkpoint
begin

text \<open>
  PTX instrumentation and resume records of \<^verbatim>\<open>zluda/src/impl/concordia_instrument.rs\<close>: discovery of
  checkpoint safe points in PTX text, annotation of the text with safe-point labels, the layout of
  saved SASS registers, and the serialised resume record.
\<close>

subsection \<open>Resume records\<close>

definition CTX_RESUME_MAGIC :: u32 where "CTX_RESUME_MAGIC = 0x30585443"
definition CTX_RESUME_VERSION :: u16 where "CTX_RESUME_VERSION = 1"
definition CTX_RESUME_HEADER_BYTES :: usize where "CTX_RESUME_HEADER_BYTES = 48"

datatype CtxResumeTarget = NvidiaPtx | AmdRocm | IntelSpirv | TenstorrentTosa

definition target_parse :: "string \<Rightarrow> (CtxResumeTarget, string) outcome" where
  "target_parse value =
     (let v = map (\<lambda>c. if c = CHR ''_'' then CHR ''-'' else c) (to_ascii_lowercase (trim value))
      in if v \<in> {''nvidia'', ''nvidia-ptx'', ''ptx''} then Ok NvidiaPtx
         else if v \<in> {''amd'', ''amd-rocm'', ''rocm''} then Ok AmdRocm
         else if v \<in> {''intel'', ''intel-spirv'', ''spirv'', ''level-zero''} then Ok IntelSpirv
         else if v \<in> {''tenstorrent'', ''tenstorrent-tosa'', ''tosa''} then Ok TenstorrentTosa
         else Err (''unsupported CTX resume target '' @ [CHR 0x27] @ v @ [CHR 0x27]))"

definition target_code :: "CtxResumeTarget \<Rightarrow> u16" where
  "target_code t = (case t of NvidiaPtx \<Rightarrow> 1 | AmdRocm \<Rightarrow> 2 | IntelSpirv \<Rightarrow> 3 | TenstorrentTosa \<Rightarrow> 4)"

record CtxResumeHeader =
  ctx_magic :: u32
  ctx_version :: u16
  ctx_header_bytes :: usize
  ctx_target :: CtxResumeTarget
  ctx_kernel_id :: u64
  ctx_safe_point_id :: u64
  ctx_register_bytes :: usize
  ctx_shared_memory_bytes :: usize
  ctx_record_bytes :: usize

record CtxResumeRecord =
  ctx_header :: CtxResumeHeader
  ctx_bytes :: bytes

definition u32_of_usize :: "string \<Rightarrow> usize \<Rightarrow> (u32, string) outcome" where
  "u32_of_usize msg n = (if n < 2 ^ 32 then Ok (of_nat n) else Err msg)"

definition build_ctx_resume_record ::
    "CtxResumeTarget \<Rightarrow> u64 \<Rightarrow> u64 \<Rightarrow> bytes \<Rightarrow> bytes \<Rightarrow> (CtxResumeRecord, string) outcome" where
  "build_ctx_resume_record target kernel_id safe_point_id register_payload shared_memory_payload =
     (let register_bytes = length register_payload;
          shared_memory_bytes = length shared_memory_payload;
          payload_bytes = register_bytes + shared_memory_bytes;
          record_bytes = CTX_RESUME_HEADER_BYTES + payload_bytes
      in if 2 ^ 64 \<le> payload_bytes then Err ''CTX resume payload length overflow''
         else if 2 ^ 64 \<le> record_bytes then Err ''CTX resume record length overflow''
         else
           obind (u32_of_usize ''CTX register payload is too large'' register_bytes) (\<lambda>register_bytes_u32.
           obind (u32_of_usize ''CTX shared-memory payload is too large'' shared_memory_bytes) (\<lambda>shared_memory_bytes_u32.
           obind (u32_of_usize ''CTX resume record is too large'' record_bytes) (\<lambda>record_bytes_u32.
             Ok \<lparr>ctx_header =
                   \<lparr>ctx_magic = CTX_RESUME_MAGIC, ctx_version = CTX_RESUME_VERSION,
                    ctx_header_bytes = CTX_RESUME_HEADER_BYTES, ctx_target = target, ctx_kernel_id = kernel_id,
                    ctx_safe_point_id = safe_point_id, ctx_register_bytes = register_bytes,
                    ctx_shared_memory_bytes = shared_memory_bytes, ctx_record_bytes = record_bytes\<rparr>,
                 ctx_bytes =
                   le_u32 CTX_RESUME_MAGIC @ le_u16 CTX_RESUME_VERSION @
                   le_u16 (of_nat CTX_RESUME_HEADER_BYTES) @ le_u16 (target_code target) @ le_u16 0 @
                   le_u64 kernel_id @ le_u64 safe_point_id @ le_u32 register_bytes_u32 @
                   le_u32 shared_memory_bytes_u32 @ le_u32 record_bytes_u32 @ le_u32 0 @ le_u32 0 @
                   register_payload @ shared_memory_payload\<rparr>))))"

subsection \<open>Layout of saved registers\<close>

definition SASS_LIVE_STATE_MAGIC :: u32 where "SASS_LIVE_STATE_MAGIC = 0x43535353"
definition SASS_LIVE_STATE_VERSION :: u16 where "SASS_LIVE_STATE_VERSION = 1"
definition SASS_LIVE_STATE_HEADER_BYTES :: usize where "SASS_LIVE_STATE_HEADER_BYTES = 64"

record SassLiveRegisterSlot =
  slot_name :: string
  slot_offset :: usize
  slot_bytes :: usize

record SassLiveStateLayout =
  live_magic :: u32
  live_version :: u16
  live_header_bytes :: usize
  live_record_bytes :: usize
  live_slots :: "SassLiveRegisterSlot list"

definition register_number :: "string \<Rightarrow> u32 option" where
  "register_number s = (if s = [] then None else outcome_ok (parse_u32 s))"

definition sass_live_register_bytes :: "string \<Rightarrow> usize option" where
  "sass_live_register_bytes name =
     (case strip_prefix ''UR'' name of
        Some rest \<Rightarrow> map_option (\<lambda>_. 8) (register_number rest)
      | None \<Rightarrow>
     (case strip_prefix ''UP'' name of
        Some rest \<Rightarrow> map_option (\<lambda>_. 1) (register_number rest)
      | None \<Rightarrow>
     (case strip_prefix ''R'' name of
        Some rest \<Rightarrow> map_option (\<lambda>_. 8) (register_number rest)
      | None \<Rightarrow>
     (case strip_prefix ''P'' name of
        Some rest \<Rightarrow> map_option (\<lambda>_. 1) (register_number rest)
      | None \<Rightarrow> None))))"

definition unsupported_register :: "string \<Rightarrow> string" where
  "unsupported_register raw = ''unsupported SASS live register '' @ [CHR 0x27] @ raw @ [CHR 0x27]"

definition canonical_sass_live_register :: "string \<Rightarrow> (string, string) outcome" where
  "canonical_sass_live_register raw =
     (let name = to_ascii_uppercase (trim raw)
      in if sass_live_register_bytes name \<noteq> None then Ok name else Err (unsupported_register raw))"

definition align_up :: "usize \<Rightarrow> usize \<Rightarrow> usize" where
  "align_up value align = (let a = max align 1 in (div_ceil value a * a) mod 2 ^ 64)"

text \<open>The loop over the requested registers, carrying \<open>seen\<close>, the next offset and the slots.\<close>

fun layout_loop ::
    "string list \<Rightarrow> string list \<Rightarrow> usize \<Rightarrow> SassLiveRegisterSlot list \<Rightarrow>
     (usize \<times> SassLiveRegisterSlot list, string) outcome" where
  "layout_loop [] seen off slots = Ok (off, slots)"
| "layout_loop (raw # raws) seen off slots =
     obind (canonical_sass_live_register raw) (\<lambda>name.
       if name \<in> set seen then layout_loop raws seen off slots
       else obind (ok_or (unsupported_register raw) (sass_live_register_bytes name)) (\<lambda>n.
         let off' = align_up off (min n 8)
         in layout_loop raws (seen @ [name]) (min (off' + n) (2 ^ 64 - 1))
              (slots @ [\<lparr>slot_name = name, slot_offset = off', slot_bytes = n\<rparr>])))"

definition build_sass_live_state_layout :: "string list \<Rightarrow> (SassLiveStateLayout, string) outcome" where
  "build_sass_live_state_layout registers =
     obind (layout_loop registers [] SASS_LIVE_STATE_HEADER_BYTES []) (\<lambda>(off, slots).
       Ok \<lparr>live_magic = SASS_LIVE_STATE_MAGIC, live_version = SASS_LIVE_STATE_VERSION,
           live_header_bytes = SASS_LIVE_STATE_HEADER_BYTES, live_record_bytes = align_up off 8,
           live_slots = slots\<rparr>)"

subsection \<open>Safe points\<close>

datatype SafePointKind = SpEntry | SpBarrier | SpExit

record SafePoint =
  sp_kind :: SafePointKind
  sp_line :: usize
  sp_label :: string

definition is_entry_line :: "string \<Rightarrow> bool" where
  "is_entry_line l = (contains ''.entry '' (trim_start l) \<or> starts_with ''.entry'' (trim_start l))"

definition is_barrier_line :: "string \<Rightarrow> bool" where
  "is_barrier_line l = (starts_with ''bar.'' (trim_start l) \<or> contains ''bar.sync'' (trim_start l))"

definition is_exit_line :: "string \<Rightarrow> bool" where
  "is_exit_line l = starts_with ''ret'' (trim_start l)"

definition is_close_line :: "string \<Rightarrow> bool" where
  "is_close_line l = starts_with ''}'' (trim_start l)"

definition entry_label :: "nat \<Rightarrow> string" where
  "entry_label n = ''__concordia_safe_entry_'' @ show_nat n"

definition barrier_label :: "nat \<Rightarrow> string" where
  "barrier_label n = ''__concordia_safe_barrier_'' @ show_nat n"

definition exit_label :: "nat \<Rightarrow> string" where
  "exit_label n = ''__concordia_safe_exit_'' @ show_nat n"

text \<open>The line loop; the state is \<open>in_entry\<close> and the three label counters.\<close>

fun discover_loop :: "string list \<Rightarrow> usize \<Rightarrow> bool \<Rightarrow> nat \<Rightarrow> nat \<Rightarrow> nat \<Rightarrow> SafePoint list" where
  "discover_loop [] line in_entry e b x = []"
| "discover_loop (l # ls) line in_entry e b x =
     (let entry = is_entry_line l;
          inside = (in_entry \<or> entry);
          entries = (if entry then [\<lparr>sp_kind = SpEntry, sp_line = line, sp_label = entry_label e\<rparr>] else []);
          e' = (if entry then e + 1 else e)
      in if \<not> inside then entries @ discover_loop ls (line + 1) inside e' b x
         else
           let barrier = is_barrier_line l; exit = is_exit_line l
           in entries
              @ (if barrier then [\<lparr>sp_kind = SpBarrier, sp_line = line, sp_label = barrier_label b\<rparr>] else [])
              @ (if exit then [\<lparr>sp_kind = SpExit, sp_line = line, sp_label = exit_label x\<rparr>] else [])
              @ discover_loop ls (line + 1) (\<not> is_close_line l) e'
                  (if barrier then b + 1 else b) (if exit then x + 1 else x))"

definition discover_ptx_safe_points :: "string \<Rightarrow> SafePoint list" where
  "discover_ptx_safe_points ptx = discover_loop (str_lines ptx) 0 False 0 0 0"

text \<open>
  The annotation loop emits the output line by line. A piece is either an original line or an inserted
  label line.
\<close>

datatype ptx_piece = Original string | LabelLine string string

definition piece_text :: "ptx_piece \<Rightarrow> string" where
  "piece_text p =
     (case p of
        Original l \<Rightarrow> l @ [CHR 0x0A]
      | LabelLine indent label \<Rightarrow> indent @ label @ '':'' @ [CHR 0x0A])"

definition indent_of :: "string \<Rightarrow> string" where
  "indent_of l = take (length l - length (trim_start l)) l"

fun annotate_loop :: "string list \<Rightarrow> bool \<Rightarrow> string option \<Rightarrow> nat \<Rightarrow> nat \<Rightarrow> nat \<Rightarrow> ptx_piece list" where
  "annotate_loop [] in_entry pending e b x = []"
| "annotate_loop (l # ls) in_entry pending e b x =
     (let entry = is_entry_line l;
          inside = (in_entry \<or> entry);
          pending = (if entry then Some (entry_label e) else pending);
          e' = (if entry then e + 1 else e);
          barrier = (inside \<and> is_barrier_line l);
          exit = (inside \<and> is_exit_line l);
          open_brace = (CHR 0x7B \<in> set l);
          closed = (inside \<and> is_close_line l)
      in (if barrier then [LabelLine (indent_of l) (barrier_label b)] else [])
         @ (if exit then [LabelLine (indent_of l) (exit_label x)] else [])
         @ [Original l]
         @ (case pending of
              Some label \<Rightarrow> if open_brace then [LabelLine (indent_of l) label] else []
            | None \<Rightarrow> [])
         @ annotate_loop ls (inside \<and> \<not> closed)
             (if closed \<or> open_brace then None else pending) e'
             (if barrier then b + 1 else b) (if exit then x + 1 else x))"

definition annotate_ptx_with_concordia_safe_points :: "string \<Rightarrow> string" where
  "annotate_ptx_with_concordia_safe_points ptx =
     concat (map piece_text (annotate_loop (str_lines ptx) False None 0 0 0))"

subsection \<open>Resume records\<close>

lemma u32_of_usize_Ok [simp]: "u32_of_usize msg n = Ok w \<longleftrightarrow> n < 2 ^ 32 \<and> w = of_nat n"
  by (auto simp: u32_of_usize_def)

lemma build_ctx_resume_record_OkD:
  assumes "build_ctx_resume_record target kid sid regs smem = Ok r"
  shows "length regs + length smem + 48 < 2 ^ 32"
    "ctx_record_bytes (ctx_header r) = 48 + (length regs + length smem)"
    "ctx_bytes r = le_u32 CTX_RESUME_MAGIC @ le_u16 CTX_RESUME_VERSION @ le_u16 48 @
       le_u16 (target_code target) @ le_u16 0 @ le_u64 kid @ le_u64 sid @ le_u32 (of_nat (length regs)) @
       le_u32 (of_nat (length smem)) @ le_u32 (of_nat (48 + (length regs + length smem))) @ le_u32 0 @ le_u32 0 @
       regs @ smem"
  using assms
  by (auto simp: build_ctx_resume_record_def CTX_RESUME_HEADER_BYTES_def Let_def split: if_splits)

lemma target_code_inject [simp]: "target_code t = target_code u \<longleftrightarrow> t = u"
  by (cases t; cases u) (simp_all add: target_code_def)



subsection \<open>Register layout\<close>

lemma align_up_spec:
  assumes "v + a < 2 ^ 64" "0 < a"
  shows "v \<le> align_up v a" "align_up v a < v + a" "align_up v a mod a = 0"
proof -
  have up: "v \<le> div_ceil v a * a" by (rule div_ceil_covers [OF assms(2)])
  have lt: "div_ceil v a * a < v + a"
  proof (cases "div_ceil v a")
    case 0
    then show ?thesis using assms by simp
  next
    case (Suc k)
    then have "k * a < v" using div_ceil_lt [OF assms(2), of k v] by simp
    then show ?thesis using Suc by simp
  qed
  moreover have "max a 1 = a" using assms(2) by simp
  ultimately have "align_up v a = div_ceil v a * a"
    unfolding align_up_def Let_def using assms(1) by simp
  with up lt show "v \<le> align_up v a" "align_up v a < v + a" "align_up v a mod a = 0"
    by simp_all
qed

definition slots_ok :: "usize \<Rightarrow> SassLiveRegisterSlot list \<Rightarrow> bool" where
  "slots_ok off slots \<longleftrightarrow>
     sorted_wrt (\<lambda>a b. slot_offset a + slot_bytes a \<le> slot_offset b) slots \<and>
     (\<forall>s \<in> set slots. 64 \<le> slot_offset s \<and> slot_offset s + slot_bytes s \<le> off \<and>
        sass_live_register_bytes (slot_name s) = Some (slot_bytes s) \<and>
        slot_offset s mod slot_bytes s = 0)"

lemma sass_live_register_bytes_range: "sass_live_register_bytes name = Some n \<Longrightarrow> n \<in> {1, 8}"
  by (auto simp: sass_live_register_bytes_def split: option.splits)

lemma layout_loop_ok:
  assumes "layout_loop raws seen off slots = Ok (off', slots')" "slots_ok off slots"
    "seen = map slot_name slots" "distinct seen" "off + 16 * length raws < 2 ^ 63" "64 \<le> off"
  shows "slots_ok off' slots' \<and> distinct (map slot_name slots') \<and> 64 \<le> off' \<and> off' < 2 ^ 63 \<and>
    slot_name ` set slots' = set seen \<union> (\<lambda>r. to_ascii_uppercase (trim r)) ` set raws"
  using assms
proof (induction raws arbitrary: seen off slots)
  case Nil
  then show ?case by auto
next
  case (Cons raw raws)
  let ?name = "to_ascii_uppercase (trim raw)"
  from Cons.prems(1) obtain n where n: "sass_live_register_bytes ?name = Some n"
    and c: "canonical_sass_live_register raw = Ok ?name"
    by (auto simp: canonical_sass_live_register_def Let_def split: if_splits)
  show ?case
  proof (cases "?name \<in> set seen")
    case True
    with Cons c show ?thesis by auto
  next
    case False
    let ?off = "align_up off n"
    let ?slot = "\<lparr>slot_name = ?name, slot_offset = ?off, slot_bytes = n\<rparr>"
    have n8: "n = 1 \<or> n = 8" using sass_live_register_bytes_range [OF n] by simp
    have "off + n < 2 ^ 64" "0 < n" using Cons.prems(5) n8 by auto
    note al = align_up_spec [OF this]
    have mins: "min n 8 = n" "min (?off + n) (2 ^ 64 - 1) = ?off + n"
      using n8 al(2) Cons.prems(5) by auto
    have rest: "layout_loop raws (seen @ [?name]) (?off + n) (slots @ [?slot]) = Ok (off', slots')"
      using Cons.prems(1) c n False by (simp only: layout_loop.simps obind.simps ok_or_simps if_False Let_def mins)
    have "slots_ok (?off + n) (slots @ [?slot])"
      using Cons.prems(2,6) al n by (fastforce simp: slots_ok_def sorted_wrt_append)
    moreover have "?off + n + 16 * length raws < 2 ^ 63" "64 \<le> ?off + n"
      using Cons.prems(5,6) al n8 by auto
    ultimately show ?thesis
      using Cons.IH [OF rest] Cons.prems(3,4) False by auto
  qed
qed

text \<open>
  The register layout is a valid record: the slots carry each requested register exactly once, lie
  one after another without overlap between the 64-byte header and the end of the record, are aligned
  to their size, and the record size is a multiple of eight.
\<close>

theorem sass_live_state_layout_valid:
  assumes "build_sass_live_state_layout regs = Ok lay" "length regs < 2 ^ 32"
  shows "distinct (map slot_name (live_slots lay)) \<and>
    slot_name ` set (live_slots lay) = (\<lambda>r. to_ascii_uppercase (trim r)) ` set regs \<and>
    sorted_wrt (\<lambda>a b. slot_offset a + slot_bytes a \<le> slot_offset b) (live_slots lay) \<and>
    (\<forall>s \<in> set (live_slots lay). 64 \<le> slot_offset s \<and> slot_offset s + slot_bytes s \<le> live_record_bytes lay \<and>
       slot_bytes s \<in> {1, 8} \<and> slot_offset s mod slot_bytes s = 0) \<and>
    live_record_bytes lay mod 8 = 0"
proof -
  from assms(1) obtain off where l: "layout_loop regs [] 64 [] = Ok (off, live_slots lay)"
    and r: "live_record_bytes lay = align_up off 8"
    by (auto simp: build_sass_live_state_layout_def SASS_LIVE_STATE_HEADER_BYTES_def)
  have ok: "slots_ok off (live_slots lay) \<and> distinct (map slot_name (live_slots lay)) \<and> 64 \<le> off \<and> off < 2 ^ 63 \<and>
    slot_name ` set (live_slots lay) = set [] \<union> (\<lambda>r. to_ascii_uppercase (trim r)) ` set regs"
    by (rule layout_loop_ok [OF l]) (use assms(2) in \<open>simp_all add: slots_ok_def\<close>)
  then have "off + 8 < 2 ^ 64" "(0 :: nat) < 8" by auto
  note al = align_up_spec [OF this]
  have "slot_bytes s \<in> {1, 8}" if "s \<in> set (live_slots lay)" for s
    using ok that sass_live_register_bytes_range by (auto simp: slots_ok_def)
  with ok al show ?thesis by (auto simp: slots_ok_def r intro: order_trans)
qed

theorem sass_live_state_layout_valid_witness:
  "\<exists>lay. build_sass_live_state_layout ['' r4 '', ''P0'', ''R5'', ''R4''] = Ok lay \<and>
     map slot_offset (live_slots lay) = [64, 72, 80] \<and> live_record_bytes lay mod 8 = 0"
proof -
  let ?lay = "\<lparr>live_magic = SASS_LIVE_STATE_MAGIC, live_version = SASS_LIVE_STATE_VERSION,
    live_header_bytes = 64, live_record_bytes = 88,
    live_slots = [\<lparr>slot_name = ''R4'', slot_offset = 64, slot_bytes = 8\<rparr>,
      \<lparr>slot_name = ''P0'', slot_offset = 72, slot_bytes = 1\<rparr>,
      \<lparr>slot_name = ''R5'', slot_offset = 80, slot_bytes = 8\<rparr>]\<rparr>"
  have b: "sass_live_register_bytes ''R4'' = Some 8" "sass_live_register_bytes ''P0'' = Some 1"
    "sass_live_register_bytes ''R5'' = Some 8" by code_simp+
  have c: "canonical_sass_live_register '' r4 '' = Ok ''R4''" "canonical_sass_live_register ''P0'' = Ok ''P0''"
    "canonical_sass_live_register ''R5'' = Ok ''R5''" "canonical_sass_live_register ''R4'' = Ok ''R4''"
    by code_simp+
  have al: "align_up 64 8 = 64" "align_up 72 1 = 72" "align_up 73 8 = 80" "align_up 88 8 = 88"
    by (simp_all add: align_up_def div_ceil_def)
  have l: "layout_loop ['' r4 '', ''P0'', ''R5'', ''R4''] [] 64 [] = Ok (88, live_slots ?lay)"
    by (simp add: c b al Let_def del: One_nat_def obind_Ok_iff)
  have lay: "build_sass_live_state_layout ['' r4 '', ''P0'', ''R5'', ''R4''] = Ok ?lay"
    by (simp add: build_sass_live_state_layout_def SASS_LIVE_STATE_HEADER_BYTES_def al l del: layout_loop.simps obind_Ok_iff)
  from sass_live_state_layout_valid [OF lay] lay show ?thesis by (intro exI [of _ ?lay]) simp
qed

subsection \<open>Annotation\<close>

definition piece_label :: "ptx_piece \<Rightarrow> string option" where
  "piece_label p = (case p of LabelLine i l \<Rightarrow> Some l | _ \<Rightarrow> None)"

lemma label_kinds [simp]:
  "starts_with ''__concordia_safe_entry_'' (entry_label n)"
  "\<not> starts_with ''__concordia_safe_entry_'' (barrier_label n)"
  "\<not> starts_with ''__concordia_safe_entry_'' (exit_label n)"
  by (simp_all add: starts_with_def entry_label_def barrier_label_def exit_label_def)

definition line_points :: "string \<Rightarrow> usize \<Rightarrow> bool \<Rightarrow> nat \<Rightarrow> nat \<Rightarrow> nat \<Rightarrow> SafePoint list" where
  "line_points l n inside e b x =
     (if is_entry_line l then [\<lparr>sp_kind = SpEntry, sp_line = n, sp_label = entry_label e\<rparr>] else []) @
     (if inside \<and> is_barrier_line l then [\<lparr>sp_kind = SpBarrier, sp_line = n, sp_label = barrier_label b\<rparr>] else []) @
     (if inside \<and> is_exit_line l then [\<lparr>sp_kind = SpExit, sp_line = n, sp_label = exit_label x\<rparr>] else [])"

lemma discover_Cons:
  "discover_loop (l # ls) n ie e b x =
   (let inside = (ie \<or> is_entry_line l)
    in line_points l n inside e b x @
       discover_loop ls (n + 1) (inside \<and> \<not> is_close_line l) (if is_entry_line l then e + 1 else e)
         (if inside \<and> is_barrier_line l then b + 1 else b) (if inside \<and> is_exit_line l then x + 1 else x))"
  by (cases ie; cases "is_entry_line l") (simp_all add: Let_def line_points_def)

definition line_pieces :: "string \<Rightarrow> bool \<Rightarrow> string option \<Rightarrow> nat \<Rightarrow> nat \<Rightarrow> ptx_piece list" where
  "line_pieces l inside pend b x =
     (if inside \<and> is_barrier_line l then [LabelLine (indent_of l) (barrier_label b)] else []) @
     (if inside \<and> is_exit_line l then [LabelLine (indent_of l) (exit_label x)] else []) @
     [Original l] @
     (case pend of Some label \<Rightarrow> if CHR 0x7B \<in> set l then [LabelLine (indent_of l) label] else [] | None \<Rightarrow> [])"

lemma annotate_Cons:
  "annotate_loop (l # ls) ie pend e b x =
   (let inside = (ie \<or> is_entry_line l); pend' = (if is_entry_line l then Some (entry_label e) else pend)
    in line_pieces l inside pend' b x @
       annotate_loop ls (inside \<and> \<not> is_close_line l)
         (if inside \<and> is_close_line l \<or> CHR 0x7B \<in> set l then None else pend')
         (if is_entry_line l then e + 1 else e)
         (if inside \<and> is_barrier_line l then b + 1 else b) (if inside \<and> is_exit_line l then x + 1 else x))"
proof -
  have ie: "((ie \<or> is_entry_line l) \<and> \<not> ((ie \<or> is_entry_line l) \<and> is_close_line l)) =
      ((ie \<or> is_entry_line l) \<and> \<not> is_close_line l)" by blast
  show ?thesis unfolding annotate_loop.simps Let_def line_pieces_def append_assoc ie ..
qed

lemma line_pieces_labels:
  assumes "\<forall>l. pend = Some l \<longrightarrow> starts_with ''__concordia_safe_entry_'' l"
  shows "filter (\<lambda>l. \<not> starts_with ''__concordia_safe_entry_'' l)
      (List.map_filter piece_label (line_pieces l inside pend b x)) =
    map sp_label (filter (\<lambda>s. sp_kind s \<noteq> SpEntry) (line_points l n inside e b x))"
  using assms by (auto simp: line_pieces_def line_points_def map_filter_def piece_label_def split: option.splits)

definition piece_original :: "ptx_piece \<Rightarrow> string option" where
  "piece_original p = (case p of Original l \<Rightarrow> Some l | _ \<Rightarrow> None)"

lemma annotate_originals: "List.map_filter piece_original (annotate_loop ls ie pend e b x) = ls"
proof (induction ls arbitrary: ie pend e b x)
  case Nil
  then show ?case by (simp add: map_filter_def)
next
  case (Cons l ls)
  have "List.map_filter piece_original (line_pieces l inside pend b x) = [l]" for inside pend
    by (auto simp: line_pieces_def map_filter_def piece_original_def split: option.splits)
  then show ?case unfolding annotate_Cons Let_def map_filter_append Cons.IH by simp
qed

lemma annotate_labels:
  assumes "\<forall>l. pend = Some l \<longrightarrow> starts_with ''__concordia_safe_entry_'' l"
  shows "filter (\<lambda>l. \<not> starts_with ''__concordia_safe_entry_'' l)
      (List.map_filter piece_label (annotate_loop ls ie pend e b x)) =
    map sp_label (filter (\<lambda>s. sp_kind s \<noteq> SpEntry) (discover_loop ls n ie e b x))"
  using assms
proof (induction ls arbitrary: ie pend e b x n)
  case Nil
  then show ?case by (simp add: map_filter_def)
next
  case (Cons l ls)
  let ?pend = "if is_entry_line l then Some (entry_label e) else pend"
  have p: "\<forall>l. ?pend = Some l \<longrightarrow> starts_with ''__concordia_safe_entry_'' l" using Cons.prems by auto
  then have p': "\<forall>m. (if (ie \<or> is_entry_line l) \<and> is_close_line l \<or> CHR 0x7B \<in> set l then None else ?pend) = Some m \<longrightarrow>
      starts_with ''__concordia_safe_entry_'' m" by auto
  show ?case
    unfolding annotate_Cons discover_Cons Let_def map_filter_append filter_append map_append
      line_pieces_labels [OF p, where e = e and n = n] Cons.IH [OF p', where n = "n + 1"] ..
qed

text \<open>
  Annotation only adds label lines, and the right ones: removing the inserted labels gives back the
  original lines in order, and the inserted barrier and exit labels are exactly, and in the same order,
  the labels of the barrier and exit safe points that discovery reports for the same text.
\<close>

theorem annotate_matches_discovery:
  "\<exists>pieces. annotate_ptx_with_concordia_safe_points ptx = concat (map piece_text pieces) \<and>
     List.map_filter piece_original pieces = str_lines ptx \<and>
     filter (\<lambda>l. \<not> starts_with ''__concordia_safe_entry_'' l) (List.map_filter piece_label pieces) =
       map sp_label (filter (\<lambda>s. sp_kind s \<noteq> SpEntry) (discover_ptx_safe_points ptx))"
  unfolding annotate_ptx_with_concordia_safe_points_def discover_ptx_safe_points_def
  using annotate_originals annotate_labels [of None _ _ _ _ _ 0] by auto

lemma discover_outside:
  "\<forall>l \<in> set ls. \<not> is_entry_line l \<Longrightarrow> discover_loop ls n False e b x = []"
  by (induction ls arbitrary: n) (simp_all add: Let_def)

text \<open>
  Safe points after a nested block are missed: a line that starts with a closing brace ends the
  entry for discovery, so when the rest of the kernel follows a nested \<open>{ .. }\<close> block, none of its
  barriers and exits is reported.
\<close>

theorem nested_block_hides_safe_points:
  assumes "is_close_line l" "\<forall>r \<in> set rest. \<not> is_entry_line r"
  shows "discover_loop (pre @ l # rest) n ie e b x = discover_loop (pre @ [l]) n ie e b x"
proof (induction pre arbitrary: n ie e b x)
  case Nil
  then show ?case using assms by (simp add: discover_Cons discover_outside Let_def del: discover_loop.simps(2))
next
  case (Cons p pre)
  then show ?case by (simp add: discover_Cons Let_def del: discover_loop.simps(2))
qed

theorem nested_block_hides_safe_points_witness:
  "map sp_kind (discover_loop [''.entry k() {'', ''{ // callseq 0'', ''} // callseq 0'', ''bar.sync 0;'', ''ret;'', ''}''] 0 False 0 0 0) =
   [SpEntry]"
proof -
  have "discover_loop ([''.entry k() {'', ''{ // callseq 0''] @ ''} // callseq 0'' # [''bar.sync 0;'', ''ret;'', ''}'']) 0 False 0 0 0 =
      discover_loop ([''.entry k() {'', ''{ // callseq 0''] @ [''} // callseq 0'']) 0 False 0 0 0"
    by (rule nested_block_hides_safe_points) code_simp+
  moreover have "map sp_kind (discover_loop ([''.entry k() {'', ''{ // callseq 0''] @ [''} // callseq 0'']) 0 False 0 0 0) =
      [SpEntry]"
    by code_simp
  ultimately show ?thesis by simp
qed

end
