(* ===== verification/Persistent_Queue.thy ===== *)
theory Persistent_Queue
  imports Rust_Str
begin

text \<open>
  The persistent GPU worker of \<^verbatim>\<open>zluda/src/impl/concordia_gpu.rs\<close>: the pinned task ring shared by the
  host and the device, \<open>enqueue_task\<close> on the host side, and the CUDA kernel \<open>persistent_worker\<close> with
  its operations on the device side. The host and every worker block take steps in any order; a block
  reads the head, reads the tail, copies the slot, advances the head, runs the task and counts it in
  separate steps.

  The CUDA driver is a parameter (the return code of every call), single-precision arithmetic is a
  parameter (bit patterns to bit patterns), device memory is a map from addresses to bytes.
\<close>

subsection \<open>Tasks in the ring\<close>

definition TASK_SIZE :: usize where
  "TASK_SIZE = 64"

record Task =
  task_op :: i32
  task_flags :: i32
  task_numel :: u64
  task_in0 :: u64
  task_in1 :: u64
  task_out0 :: u64
  task_num_params :: i32

definition encode_task :: "i32 \<Rightarrow> u64 \<Rightarrow> u64 \<Rightarrow> u64 \<Rightarrow> u64 \<Rightarrow> bytes" where
  "encode_task op numel in0 in1 out0 =
     (let task = replicate TASK_SIZE 0;
          task = overwrite 0 (le_u32 op) task;
          task = overwrite 4 (le_u32 0) task;
          task = overwrite 8 (le_u64 numel) task;
          task = overwrite 16 (le_u64 in0) task;
          task = overwrite 24 (le_u64 in1) task;
          task = overwrite 32 (le_u64 out0) task
      in overwrite 40 (le_u32 3) task)"

text \<open>The C structure as the device reads it, with its natural alignment.\<close>

definition decode_task :: "bytes \<Rightarrow> Task" where
  "decode_task bs =
     \<lparr>task_op = from_le (subslice 0 4 bs), task_flags = from_le (subslice 4 8 bs),
      task_numel = from_le (subslice 8 16 bs), task_in0 = from_le (subslice 16 24 bs),
      task_in1 = from_le (subslice 24 32 bs), task_out0 = from_le (subslice 32 40 bs),
      task_num_params = from_le (subslice 40 44 bs)\<rparr>"

subsection \<open>The kernel handle\<close>

record GpuPersistentKernel =
  k_tasks :: bytes
  k_capacity :: u32
  k_head :: i32
  k_tail :: i32
  k_quit :: i32
  k_processed :: u64
  k_submitted :: u64
  k_running :: bool
  k_num_blocks :: u32
  k_threads_per_block :: u32

definition enqueue_task ::
    "GpuPersistentKernel \<Rightarrow> i32 \<Rightarrow> u64 \<Rightarrow> u64 \<Rightarrow> u64 \<Rightarrow> u64 \<Rightarrow>
     GpuPersistentKernel \<times> (u64, string) outcome" where
  "enqueue_task k op numel in0 in1 out0 =
     (if \<not> k_running k then (k, Err ''persistent worker is not running'')
      else if sint (k_tail k - k_head k) \<ge> sint (k_capacity k) then
        (k, Err ''persistent worker ring is full'')
      else if k_capacity k = 0 then (k, Panic)
      else
        let slot = unat (k_tail k) mod unat (k_capacity k)
        in (k\<lparr>k_tasks := overwrite (slot * TASK_SIZE) (encode_task op numel in0 in1 out0) (k_tasks k),
              k_tail := k_tail k + 1, k_submitted := k_submitted k + 1\<rparr>,
            Ok (k_submitted k)))"

definition shutdown_kernel :: "GpuPersistentKernel \<Rightarrow> GpuPersistentKernel" where
  "shutdown_kernel k = (if \<not> k_running k then k else k\<lparr>k_quit := 1, k_running := False\<rparr>)"

text \<open>One turn of the \<open>sync\<close> loop: the counter it returns, or another turn.\<close>

definition sync_poll :: "GpuPersistentKernel \<Rightarrow> u64 \<Rightarrow> u64 option" where
  "sync_poll k target = (if k_processed k \<ge> target then Some (k_processed k) else None)"

definition seq_code :: "(u64, string) outcome \<Rightarrow> int" where
  "seq_code r = (case r of Ok n \<Rightarrow> sint n | _ \<Rightarrow> - 1)"

definition concordia_gpu_enqueue ::
    "int \<Rightarrow> GpuPersistentKernel \<Rightarrow> i32 \<Rightarrow> u64 \<Rightarrow> u64 \<Rightarrow> u64 \<Rightarrow> u64 \<Rightarrow> GpuPersistentKernel \<times> int" where
  "concordia_gpu_enqueue handle k op numel in0 in1 out0 =
     (if handle \<le> 0 then (k, - 1)
      else case enqueue_task k op numel in0 in1 out0 of (k', r) \<Rightarrow> (k', seq_code r))"

definition concordia_gpu_scan_dirty_pages ::
    "int \<Rightarrow> GpuPersistentKernel \<Rightarrow> u64 \<Rightarrow> u64 \<Rightarrow> u64 \<Rightarrow> u64 \<Rightarrow> GpuPersistentKernel \<times> int" where
  "concordia_gpu_scan_dirty_pages handle k current shadow bitmap page_count =
     (if handle \<le> 0 \<or> current = 0 \<or> shadow = 0 \<or> bitmap = 0 \<or> sint page_count < 0 then (k, - 1)
      else case enqueue_task k 7 page_count current shadow bitmap of (k', r) \<Rightarrow> (k', seq_code r))"

definition concordia_gpu_stage_aof_bytes ::
    "int \<Rightarrow> GpuPersistentKernel \<Rightarrow> u64 \<Rightarrow> u64 \<Rightarrow> u64 \<Rightarrow> GpuPersistentKernel \<times> int" where
  "concordia_gpu_stage_aof_bytes handle k source staging byte_count =
     (if handle \<le> 0 \<or> source = 0 \<or> staging = 0 \<or> sint byte_count < 0 then (k, - 1)
      else case enqueue_task k 8 byte_count source 0 staging of (k', r) \<Rightarrow> (k', seq_code r))"

definition concordia_gpu_restore_bytes ::
    "int \<Rightarrow> GpuPersistentKernel \<Rightarrow> u64 \<Rightarrow> u64 \<Rightarrow> u64 \<Rightarrow> GpuPersistentKernel \<times> int" where
  "concordia_gpu_restore_bytes handle k staging target byte_count =
     (if handle \<le> 0 \<or> staging = 0 \<or> target = 0 \<or> sint byte_count < 0 then (k, - 1)
      else case enqueue_task k 9 byte_count staging 0 target of (k', r) \<Rightarrow> (k', seq_code r))"

subsection \<open>Initialisation\<close>

datatype drv_call =
    RuntimeInit | CuInit | CuDeviceGet | CuDevicePrimaryCtxRetain | CuCtxSetCurrent | CompilePtx
  | CuModuleLoadData | CuModuleGetFunction | AllocTasks | TasksDevicePointer | AllocCtrl
  | CtrlDevicePointer | CuStreamCreate | CuLaunchKernel

datatype drv_event =
    HostAlloc drv_call | HostFree drv_call | ModuleLoaded | ModuleUnloaded | StreamCreated

datatype init_error = DriverError drv_call int | QueueSizeOverflow

text \<open>
  \<open>rc\<close> is the return code of each call (0 is success), \<open>null\<close> tells whether an allocation handed out a
  null pointer, \<open>sm_count\<close> is what the attribute query left behind. The events are what the function
  acquired and released, in order.
\<close>

definition first_failure :: "(drv_call \<Rightarrow> int) \<Rightarrow> drv_call list \<Rightarrow> drv_call option" where
  "first_failure rc cs = List.find (\<lambda>c. rc c \<noteq> 0) cs"

definition init_blocks :: "string option \<Rightarrow> i32 \<Rightarrow> u32" where
  "init_blocks var sm_count =
     (let n = (case Option.bind var (\<lambda>v. outcome_ok (parse_u32 v)) of None \<Rightarrow> 1 | Some n \<Rightarrow> n)
      in min (max n 1) (of_int (max (sint sm_count) 1)))"

definition fresh_kernel :: "u32 \<Rightarrow> u32 \<Rightarrow> GpuPersistentKernel" where
  "fresh_kernel capacity num_blocks =
     \<lparr>k_tasks = replicate (unat capacity * TASK_SIZE) 0, k_capacity = capacity, k_head = 0, k_tail = 0,
      k_quit = 0, k_processed = 0, k_submitted = 0, k_running = False, k_num_blocks = num_blocks,
      k_threads_per_block = 128\<rparr>"

definition kernel_init ::
    "(drv_call \<Rightarrow> int) \<Rightarrow> (drv_call \<Rightarrow> bool) \<Rightarrow> string option \<Rightarrow> i32 \<Rightarrow> u32 \<Rightarrow>
     drv_event list \<times> (GpuPersistentKernel, init_error) outcome" where
  "kernel_init rc null blocks_var sm_count capacity_arg =
     (let capacity = max capacity_arg 1 in
      case first_failure rc [RuntimeInit, CuInit, CuDeviceGet, CuDevicePrimaryCtxRetain, CuCtxSetCurrent,
             CompilePtx, CuModuleLoadData] of
        Some c \<Rightarrow> ([], Err (DriverError c (rc c)))
      | None \<Rightarrow>
          if rc CuModuleGetFunction \<noteq> 0 then
            ([ModuleLoaded], Err (DriverError CuModuleGetFunction (rc CuModuleGetFunction)))
          else if 2 ^ 64 \<le> unat capacity * TASK_SIZE then ([ModuleLoaded], Err QueueSizeOverflow)
          else if rc AllocTasks \<noteq> 0 \<or> null AllocTasks then
            ([ModuleLoaded], Err (DriverError AllocTasks (rc AllocTasks)))
          else if rc TasksDevicePointer \<noteq> 0 then
            ([ModuleLoaded, HostAlloc AllocTasks, HostFree AllocTasks],
             Err (DriverError TasksDevicePointer (rc TasksDevicePointer)))
          else if rc AllocCtrl \<noteq> 0 \<or> null AllocCtrl then
            ([ModuleLoaded, HostAlloc AllocTasks, HostFree AllocTasks],
             Err (DriverError AllocCtrl (rc AllocCtrl)))
          else if rc CtrlDevicePointer \<noteq> 0 then
            ([ModuleLoaded, HostAlloc AllocTasks, HostAlloc AllocCtrl, HostFree AllocTasks,
              HostFree AllocCtrl], Err (DriverError CtrlDevicePointer (rc CtrlDevicePointer)))
          else if rc CuStreamCreate \<noteq> 0 then
            ([ModuleLoaded, HostAlloc AllocTasks, HostAlloc AllocCtrl, HostFree AllocTasks,
              HostFree AllocCtrl], Err (DriverError CuStreamCreate (rc CuStreamCreate)))
          else if rc CuLaunchKernel \<noteq> 0 then
            ([ModuleLoaded, HostAlloc AllocTasks, HostAlloc AllocCtrl, StreamCreated, ModuleUnloaded,
              HostFree AllocTasks, HostFree AllocCtrl],
             Err (DriverError CuLaunchKernel (rc CuLaunchKernel)))
          else
            ([ModuleLoaded, HostAlloc AllocTasks, HostAlloc AllocCtrl, StreamCreated],
             Ok ((fresh_kernel capacity (init_blocks blocks_var sm_count))\<lparr>k_running := True\<rparr>)))"

text \<open>\<open>Drop\<close> for the kernel, with whether the two host pointers are null; the C entry points that drop and create it.\<close>

definition kernel_drop :: "bool \<Rightarrow> bool \<Rightarrow> GpuPersistentKernel \<Rightarrow> GpuPersistentKernel \<times> drv_event list" where
  "kernel_drop tasks_null ctrl_null k =
     (shutdown_kernel k,
      [ModuleUnloaded] @ (if tasks_null then [] else [HostFree AllocTasks]) @ (if ctrl_null then [] else [HostFree AllocCtrl]))"

definition concordia_gpu_shutdown ::
    "int \<Rightarrow> bool \<Rightarrow> bool \<Rightarrow> GpuPersistentKernel \<Rightarrow> GpuPersistentKernel \<times> drv_event list" where
  "concordia_gpu_shutdown handle tasks_null ctrl_null k =
     (if handle \<le> 0 then (k, []) else kernel_drop tasks_null ctrl_null (shutdown_kernel k))"

definition concordia_gpu_init ::
    "(drv_call \<Rightarrow> int) \<Rightarrow> (drv_call \<Rightarrow> bool) \<Rightarrow> string option \<Rightarrow> i32 \<Rightarrow> u32 \<Rightarrow> int \<Rightarrow>
     int \<times> GpuPersistentKernel option" where
  "concordia_gpu_init rc null blocks_var sm_count capacity box_address =
     (case kernel_init rc null blocks_var sm_count capacity of
        (_, Ok k) \<Rightarrow> (box_address, Some k)
      | _ \<Rightarrow> (- 1, None))"

subsection \<open>Device memory and operations\<close>

type_synonym devmem = "u64 \<Rightarrow> u8"

record f32_ops =
  f_add :: "u32 \<Rightarrow> u32 \<Rightarrow> u32"
  f_sub :: "u32 \<Rightarrow> u32 \<Rightarrow> u32"
  f_mul :: "u32 \<Rightarrow> u32 \<Rightarrow> u32"
  f_div :: "u32 \<Rightarrow> u32 \<Rightarrow> u32"
  f_neg :: "u32 \<Rightarrow> u32"
  f_exp :: "u32 \<Rightarrow> u32"
  f_gt :: "u32 \<Rightarrow> u32 \<Rightarrow> bool"

definition load_bytes :: "devmem \<Rightarrow> u64 \<Rightarrow> nat \<Rightarrow> bytes" where
  "load_bytes m a n = map (\<lambda>k. m (a + of_nat k)) [0..<n]"

primrec store_bytes :: "u64 \<Rightarrow> bytes \<Rightarrow> devmem \<Rightarrow> devmem" where
  "store_bytes a [] m = m"
| "store_bytes a (b # bs) m = store_bytes (a + 1) bs (m(a := b))"

definition load_f32 :: "devmem \<Rightarrow> u64 \<Rightarrow> int \<Rightarrow> u32" where
  "load_f32 m base i = from_le (load_bytes m (base + 4 * of_int i) 4)"

definition store_f32 :: "u64 \<Rightarrow> int \<Rightarrow> u32 \<Rightarrow> devmem \<Rightarrow> devmem" where
  "store_f32 base i v m = store_bytes (base + 4 * of_int i) (le_u32 v) m"

definition F32_ZERO :: u32 where "F32_ZERO = 0"
definition F32_ONE :: u32 where "F32_ONE = 0x3F800000"

definition do_add :: "f32_ops \<Rightarrow> Task \<Rightarrow> int \<Rightarrow> devmem \<Rightarrow> devmem" where
  "do_add fo t i m =
     store_f32 (task_out0 t) i (f_add fo (load_f32 m (task_in0 t) i) (load_f32 m (task_in1 t) i)) m"

definition do_mul :: "f32_ops \<Rightarrow> Task \<Rightarrow> int \<Rightarrow> devmem \<Rightarrow> devmem" where
  "do_mul fo t i m =
     store_f32 (task_out0 t) i (f_mul fo (load_f32 m (task_in0 t) i) (load_f32 m (task_in1 t) i)) m"

definition do_sub :: "f32_ops \<Rightarrow> Task \<Rightarrow> int \<Rightarrow> devmem \<Rightarrow> devmem" where
  "do_sub fo t i m =
     store_f32 (task_out0 t) i (f_sub fo (load_f32 m (task_in0 t) i) (load_f32 m (task_in1 t) i)) m"

definition do_silu :: "f32_ops \<Rightarrow> Task \<Rightarrow> int \<Rightarrow> devmem \<Rightarrow> devmem" where
  "do_silu fo t i m =
     (let x = load_f32 m (task_in0 t) i
      in store_f32 (task_out0 t) i (f_div fo x (f_add fo F32_ONE (f_exp fo (f_neg fo x)))) m)"

definition do_relu :: "f32_ops \<Rightarrow> Task \<Rightarrow> int \<Rightarrow> devmem \<Rightarrow> devmem" where
  "do_relu fo t i m =
     (let x = load_f32 m (task_in0 t) i
      in store_f32 (task_out0 t) i (if f_gt fo x F32_ZERO then x else F32_ZERO) m)"

definition do_scale :: "f32_ops \<Rightarrow> u32 \<Rightarrow> Task \<Rightarrow> int \<Rightarrow> devmem \<Rightarrow> devmem" where
  "do_scale fo s t i m = store_f32 (task_out0 t) i (f_mul fo (load_f32 m (task_in0 t) i) s) m"

definition do_add_relu :: "f32_ops \<Rightarrow> Task \<Rightarrow> int \<Rightarrow> devmem \<Rightarrow> devmem" where
  "do_add_relu fo t i m =
     (let v = f_add fo (load_f32 m (task_in0 t) i) (load_f32 m (task_in1 t) i)
      in store_f32 (task_out0 t) i (if f_gt fo v F32_ZERO then v else F32_ZERO) m)"

definition SCAN_PAGE :: nat where "SCAN_PAGE = 4096"

definition do_dirty_scan :: "Task \<Rightarrow> int \<Rightarrow> devmem \<Rightarrow> devmem" where
  "do_dirty_scan t page m =
     (let off = of_int page * of_nat SCAN_PAGE;
          current = task_in0 t + off; shadow = task_in1 t + off;
          dirty = list_ex (\<lambda>i. m (current + of_nat i) \<noteq> m (shadow + of_nat i)) [0..<SCAN_PAGE]
      in if dirty then
           let m = foldl (\<lambda>m i. m(shadow + of_nat i := m (current + of_nat i))) m [0..<SCAN_PAGE];
               word = task_out0 t + 8 * of_int (page div 64)
           in store_bytes word
                (le_u64 (from_le (load_bytes m word 8) OR push_bit (nat (page mod 64)) 1)) m
         else m)"

definition do_copy_bytes :: "Task \<Rightarrow> int \<Rightarrow> devmem \<Rightarrow> devmem" where
  "do_copy_bytes t i m = m(task_out0 t + of_int i := m (task_in0 t + of_int i))"

text \<open>
  The grid-stride loop \<open>for (i = threadIdx.x + blockIdx.x * blockDim.x; i < n; i += blockDim.x * gridDim.x)\<close>
  of one thread, and the operation a task selects.
\<close>

function stride :: "int \<Rightarrow> nat \<Rightarrow> int \<Rightarrow> int list" where
  "stride i step n = (if i < n \<and> 0 < step then i # stride (i + int step) step n else [])"
  by pat_completeness auto
termination
  by (relation "measure (\<lambda>(i, step, n). nat (n - i))") auto

declare stride.simps [simp del]

definition thread_indices :: "nat \<Rightarrow> nat \<Rightarrow> nat \<Rightarrow> nat \<Rightarrow> int \<Rightarrow> int list" where
  "thread_indices gdim bdim block tid n = stride (int tid + int block * int bdim) (bdim * gdim) n"

definition task_body :: "f32_ops \<Rightarrow> devmem \<Rightarrow> Task \<Rightarrow> int \<Rightarrow> devmem \<Rightarrow> devmem" where
  "task_body fo m0 t =
     (let op = sint (task_op t)
      in if op = 0 then do_add fo t
         else if op = 1 then do_mul fo t
         else if op = 2 then do_sub fo t
         else if op = 3 then do_silu fo t
         else if op = 4 then do_relu fo t
         else if op = 5 then do_scale fo (if task_in1 t \<noteq> 0 then load_f32 m0 (task_in1 t) 0 else F32_ONE) t
         else if op = 6 then do_add_relu fo t
         else if op = 7 then do_dirty_scan t
         else if op = 8 then do_copy_bytes t
         else if op = 9 then do_copy_bytes t
         else (\<lambda>i m. m))"

text \<open>
  What one block does to memory for one task: the iterations of all its threads. The order of threads
  is fixed here; iterations of different threads touch different elements.
\<close>

definition block_indices :: "nat \<Rightarrow> nat \<Rightarrow> nat \<Rightarrow> int \<Rightarrow> int list" where
  "block_indices gdim bdim block n = concat (map (\<lambda>tid. thread_indices gdim bdim block tid n) [0..<bdim])"

definition run_task :: "f32_ops \<Rightarrow> nat \<Rightarrow> nat \<Rightarrow> nat \<Rightarrow> Task \<Rightarrow> devmem \<Rightarrow> devmem" where
  "run_task fo gdim bdim block t m =
     foldl (\<lambda>m' i. task_body fo m t i m') m (block_indices gdim bdim block (sint (task_numel t)))"

subsection \<open>Host and worker blocks\<close>

datatype worker_pc =
    Poll
  | GotHead i32
  | HasWork i32
  | Copied i32 Task
  | Working Task
  | Counting
  | Stopped

text \<open>\<open>sys_log\<close> and \<open>sys_done\<close> record the history: what was enqueued, and which block ran what.\<close>

record gpu_system =
  sys_k :: GpuPersistentKernel
  sys_mem :: devmem
  sys_pc :: "nat \<Rightarrow> worker_pc"
  sys_log :: "Task list"
  sys_done :: "(nat \<times> Task) list"

definition mk_task :: "i32 \<Rightarrow> u64 \<Rightarrow> u64 \<Rightarrow> u64 \<Rightarrow> u64 \<Rightarrow> Task" where
  "mk_task op numel in0 in1 out0 =
     \<lparr>task_op = op, task_flags = 0, task_numel = numel, task_in0 = in0, task_in1 = in1, task_out0 = out0,
      task_num_params = 3\<rparr>"

text \<open>\<open>tasks[h % capacity]\<close> for a non-negative \<open>h\<close>.\<close>

definition ring_slot :: "GpuPersistentKernel \<Rightarrow> i32 \<Rightarrow> Task" where
  "ring_slot k h =
     (let i = unat h mod unat (k_capacity k)
      in decode_task (subslice (i * TASK_SIZE) (i * TASK_SIZE + TASK_SIZE) (k_tasks k)))"

text \<open>One step of block \<open>b\<close> of \<open>persistent_worker\<close>; \<open>None\<close> when it has returned or left the ring.\<close>

definition worker_step :: "f32_ops \<Rightarrow> nat \<Rightarrow> gpu_system \<Rightarrow> gpu_system option" where
  "worker_step fo b s =
     (let k = sys_k s; goto = (\<lambda>pc s. s\<lparr>sys_pc := (sys_pc s)(b := pc)\<rparr>)
      in case sys_pc s b of
           Poll \<Rightarrow> Some (if k_quit k \<noteq> 0 then goto Stopped s else goto (GotHead (k_head k)) s)
         | GotHead h \<Rightarrow> Some (if sint h < sint (k_tail k) then goto (HasWork h) s else goto Poll s)
         | HasWork h \<Rightarrow> if sint h < 0 then None else Some (goto (Copied h (ring_slot k h)) s)
         | Copied h t \<Rightarrow> Some (goto (Working t) (s\<lparr>sys_k := k\<lparr>k_head := h + 1\<rparr>\<rparr>))
         | Working t \<Rightarrow>
             Some (goto Counting (s\<lparr>sys_mem := run_task fo (unat (k_num_blocks k))
                     (unat (k_threads_per_block k)) b t (sys_mem s),
                     sys_done := sys_done s @ [(b, t)]\<rparr>))
         | Counting \<Rightarrow> Some (goto Poll (s\<lparr>sys_k := k\<lparr>k_processed := k_processed k + 1\<rparr>\<rparr>))
         | Stopped \<Rightarrow> None)"

inductive gpu_reach :: "f32_ops \<Rightarrow> GpuPersistentKernel \<Rightarrow> devmem \<Rightarrow> gpu_system \<Rightarrow> bool" for fo k0 m0 where
  reach_init:
    "gpu_reach fo k0 m0 \<lparr>sys_k = k0, sys_mem = m0, sys_pc = (\<lambda>_. Poll), sys_log = [], sys_done = []\<rparr>"
| reach_enqueue:
    "gpu_reach fo k0 m0 s \<Longrightarrow> enqueue_task (sys_k s) op numel in0 in1 out0 = (k', Ok n) \<Longrightarrow>
     gpu_reach fo k0 m0 (s\<lparr>sys_k := k', sys_log := sys_log s @ [mk_task op numel in0 in1 out0]\<rparr>)"
| reach_shutdown:
    "gpu_reach fo k0 m0 s \<Longrightarrow> gpu_reach fo k0 m0 (s\<lparr>sys_k := shutdown_kernel (sys_k s)\<rparr>)"
| reach_worker:
    "gpu_reach fo k0 m0 s \<Longrightarrow> b < unat (k_num_blocks (sys_k s)) \<Longrightarrow> worker_step fo b s = Some s' \<Longrightarrow>
     gpu_reach fo k0 m0 s'"

subsection \<open>The ring\<close>

lemma overwrite_append_right:
  "length xs \<le> n \<Longrightarrow> overwrite n e (xs @ ys) = xs @ overwrite (n - length xs) e ys"
  by (simp add: overwrite_def)

lemma overwrite_replicate: "overwrite 0 e (replicate k z) = e @ replicate (k - length e) z"
  by (simp add: overwrite_def)

lemma encode_task_layout:
  "encode_task op numel in0 in1 out0 =
   le_u32 op @ le_u32 0 @ le_u64 numel @ le_u64 in0 @ le_u64 in1 @ le_u64 out0 @ le_u32 3 @ replicate 20 0"
  unfolding encode_task_def TASK_SIZE_def Let_def
  by (simp add: overwrite_append_right overwrite_replicate del: to_le.simps)

lemma length_encode_task [simp]: "length (encode_task op numel in0 in1 out0) = 64"
  by (simp add: encode_task_layout)

lemma decode_encode_task:
  "decode_task (encode_task op numel in0 in1 out0) = mk_task op numel in0 in1 out0"
  by (simp add: encode_task_layout decode_task_def mk_task_def subslice_def from_le_to_le)

lemma slot_overwrite:
  assumes "i < cap" "j < cap" "length xs = cap * 64" "length e = 64"
  shows "subslice (j * 64) (j * 64 + 64) (overwrite (i * 64) e xs) =
         (if i = j then e else subslice (j * 64) (j * 64 + 64) xs)"
proof (rule nth_equalityI)
  have fit: "i * 64 + 64 \<le> cap * 64" "j * 64 + 64 \<le> cap * 64" using assms(1,2) by linarith+
  then show len: "length (subslice (j * 64) (j * 64 + 64) (overwrite (i * 64) e xs)) =
      length (if i = j then e else subslice (j * 64) (j * 64 + 64) xs)"
    using assms(3,4) by (simp add: min_def)
  fix l
  assume "l < length (subslice (j * 64) (j * 64 + 64) (overwrite (i * 64) e xs))"
  then have l: "l < 64" by simp
  then have "(i * 64 \<le> j * 64 + l \<and> j * 64 + l < i * 64 + 64) \<longleftrightarrow> i = j" by presburger
  then show "subslice (j * 64) (j * 64 + 64) (overwrite (i * 64) e xs) ! l =
      (if i = j then e else subslice (j * 64) (j * 64 + 64) xs) ! l"
    using l fit assms(3,4) by (simp add: nth_subslice nth_overwrite)
qed

lemma sint_small: "n < 2 ^ 31 \<Longrightarrow> sint (of_nat n :: i32) = int n"
  by (simp add: sint_uint unsigned_of_nat take_bit_nat_eq_self signed_take_bit_int_eq_self)

lemma unat_small: "n < 2 ^ 31 \<Longrightarrow> unat (of_nat n :: i32) = n"
  by (simp add: unat_of_nat)

definition ring_holds :: "Task list \<Rightarrow> nat \<Rightarrow> GpuPersistentKernel \<Rightarrow> bool" where
  "ring_holds log taken k \<longleftrightarrow>
     length log < 2 ^ 31 \<and> 0 < unat (k_capacity k) \<and> unat (k_capacity k) < 2 ^ 31 \<and>
     length (k_tasks k) = unat (k_capacity k) * 64 \<and>
     k_tail k = of_nat (length log) \<and> k_head k = of_nat taken \<and> k_submitted k = of_nat (length log) \<and>
     taken \<le> length log \<and> length log - taken \<le> unat (k_capacity k) \<and>
     (\<forall>j. taken \<le> j \<and> j < length log \<longrightarrow> ring_slot k (of_nat j) = log ! j)"

lemma sint_capacity: "unat (c :: u32) < 2 ^ 31 \<Longrightarrow> sint c = int (unat c)"
  using sint_small [of "unat c"] by simp

lemma ring_room: 
  assumes "ring_holds log taken k"
  shows "sint (k_tail k - k_head k) \<ge> sint (k_capacity k) \<longleftrightarrow> length log - taken = unat (k_capacity k)"
proof -
  have "k_tail k - k_head k = of_nat (length log - taken)"
    using assms by (simp add: ring_holds_def of_nat_diff)
  moreover have "length log - taken < 2 ^ 31" using assms by (simp add: ring_holds_def)
  ultimately have "sint (k_tail k - k_head k) = int (length log - taken)" by (simp only: sint_small)
  moreover have "sint (k_capacity k) = int (unat (k_capacity k))"
    using assms sint_capacity [of "k_capacity k"] by (simp add: ring_holds_def)
  moreover have "length log - taken \<le> unat (k_capacity k)" using assms by (simp add: ring_holds_def)
  ultimately show ?thesis by (metis le_antisym of_nat_le_iff order_refl)
qed

lemma mod_slot_neq:
  assumes "taken \<le> j" "j < n" "n - taken < cap" 
  shows "j mod cap \<noteq> n mod (cap :: nat)"
proof
  assume "j mod cap = n mod cap"
  then have "cap dvd n - j" using assms(2) by (metis less_imp_le mod_eq_dvd_iff_nat)
  moreover have "0 < n - j" "n - j < cap" using assms by auto
  ultimately show False by (auto dest: dvd_imp_le)
qed

lemma ring_enqueue:
  assumes r: "ring_holds log taken k" and e: "enqueue_task k op numel in0 in1 out0 = (k', Ok n)"
    and len: "length log + 1 < 2 ^ 31"
  shows "ring_holds (log @ [mk_task op numel in0 in1 out0]) taken k'"
    and "k_processed k' = k_processed k" "k_num_blocks k' = k_num_blocks k"
      "k_threads_per_block k' = k_threads_per_block k" "k_quit k' = k_quit k"
proof -
  let ?cap = "unat (k_capacity k)" and ?n = "length log" and ?t = "mk_task op numel in0 in1 out0"
  have k': "k' = k\<lparr>k_tasks := overwrite (?n mod ?cap * 64) (encode_task op numel in0 in1 out0) (k_tasks k),
              k_tail := k_tail k + 1, k_submitted := k_submitted k + 1\<rparr>"
    and room: "\<not> sint (k_tail k - k_head k) \<ge> sint (k_capacity k)"
    using e r unat_small [of ?n]
    by (auto simp: enqueue_task_def TASK_SIZE_def ring_holds_def Let_def split: if_splits)
  have lt: "?n - taken < ?cap" using room ring_room [OF r] r by (simp add: ring_holds_def)
  have cap: "0 < ?cap" "length (k_tasks k) = ?cap * 64" using r by (simp_all add: ring_holds_def)
  have slot: "ring_slot k' (of_nat j) = (log @ [?t]) ! j" if "taken \<le> j" "j < Suc ?n" for j
  proof -
    have uj: "unat (of_nat j :: i32) = j" using that len by (intro unat_small) simp
    have "?n mod ?cap < ?cap" "j mod ?cap < ?cap" using cap by simp_all
    note ov = slot_overwrite [OF this cap(2) length_encode_task [of op numel in0 in1 out0]]
    show ?thesis
    proof (cases "j = ?n")
      case True
      with ov uj show ?thesis
        by (simp add: ring_slot_def k' TASK_SIZE_def Let_def decode_encode_task)
    next
      case False
      then have "j < ?n" using that by simp
      moreover from this have "?n mod ?cap \<noteq> j mod ?cap" using mod_slot_neq [OF that(1) _ lt] by simp
      moreover have "ring_slot k (of_nat j) = log ! j" using r that(1) \<open>j < ?n\<close> by (simp add: ring_holds_def)
      ultimately show ?thesis
        using ov uj by (simp add: ring_slot_def k' TASK_SIZE_def Let_def nth_append)
    qed
  qed
  have "length (k_tasks k') = ?cap * 64"
  proof -
    have "?n mod ?cap + 1 \<le> ?cap" using cap by (simp add: Suc_leI)
    then have "(?n mod ?cap + 1) * 64 \<le> ?cap * 64" by (rule mult_right_mono) simp
    then show ?thesis using cap by (simp add: k')
  qed
  with r len lt slot show "ring_holds (log @ [?t]) taken k'"
    by (auto simp: ring_holds_def k')
qed (use e in \<open>auto simp: enqueue_task_def Let_def split: if_splits\<close>)


subsection \<open>One worker block\<close>

definition run_log :: "f32_ops \<Rightarrow> nat \<Rightarrow> Task list \<Rightarrow> devmem \<Rightarrow> devmem" where
  "run_log fo bdim ts m = foldl (\<lambda>m t. run_task fo 1 bdim 0 t m) m ts"

text \<open>\<open>taken\<close> tasks have left the ring, \<open>nrun\<close> of them have been executed and \<open>counted\<close> of those counted.\<close>

definition pc_ok :: "worker_pc \<Rightarrow> Task list \<Rightarrow> nat \<Rightarrow> nat \<Rightarrow> nat \<Rightarrow> bool" where
  "pc_ok pc log taken nrun counted \<longleftrightarrow>
     (case pc of
        Working t \<Rightarrow> taken = Suc nrun \<and> counted = nrun \<and> t = log ! nrun
      | Counting \<Rightarrow> taken = nrun \<and> nrun = Suc counted
      | GotHead h \<Rightarrow> taken = nrun \<and> counted = nrun \<and> h = of_nat taken
      | HasWork h \<Rightarrow> taken = nrun \<and> counted = nrun \<and> h = of_nat taken \<and> taken < length log
      | Copied h t \<Rightarrow> taken = nrun \<and> counted = nrun \<and> h = of_nat taken \<and> taken < length log \<and> t = log ! taken
      | _ \<Rightarrow> taken = nrun \<and> counted = nrun)"

definition one_block :: "f32_ops \<Rightarrow> devmem \<Rightarrow> gpu_system \<Rightarrow> nat \<Rightarrow> nat \<Rightarrow> nat \<Rightarrow> bool" where
  "one_block fo m0 s taken nrun counted \<longleftrightarrow>
     ring_holds (sys_log s) taken (sys_k s) \<and> k_num_blocks (sys_k s) = 1 \<and>
     k_threads_per_block (sys_k s) = 128 \<and>
     pc_ok (sys_pc s 0) (sys_log s) taken nrun counted \<and>
     k_processed (sys_k s) = of_nat counted \<and>
     sys_done s = map (Pair 0) (take nrun (sys_log s)) \<and>
     sys_mem s = run_log fo 128 (take nrun (sys_log s)) m0"

lemma ring_holds_mono_head: "ring_holds log taken k \<Longrightarrow> taken < length log \<Longrightarrow>
   ring_holds log (Suc taken) (k\<lparr>k_head := of_nat taken + 1\<rparr>)"
  by (auto simp: ring_holds_def ring_slot_def add.commute)

lemma ring_holds_other [simp]:
  "ring_holds log taken (k\<lparr>k_processed := p\<rparr>) = ring_holds log taken k"
  "ring_holds log taken (shutdown_kernel k) = ring_holds log taken k"
  by (auto simp: ring_holds_def ring_slot_def shutdown_kernel_def)

lemma shutdown_kernel_simps [simp]:
  "k_num_blocks (shutdown_kernel k) = k_num_blocks k"
  "k_threads_per_block (shutdown_kernel k) = k_threads_per_block k"
  "k_processed (shutdown_kernel k) = k_processed k"
  "k_submitted (shutdown_kernel k) = k_submitted k"
  by (simp_all add: shutdown_kernel_def)

lemma ring_head_tail:
  assumes "ring_holds log taken k"
  shows "sint (of_nat taken :: i32) < sint (k_tail k) \<longleftrightarrow> taken < length log"
  using assms sint_small [of taken] sint_small [of "length log"] by (simp add: ring_holds_def)

lemma one_block_enqueue:
  assumes inv: "one_block fo m0 s taken nrun counted"
    and e: "enqueue_task (sys_k s) op numel in0 in1 out0 = (k', Ok n)" and len: "length (sys_log s) + 1 < 2 ^ 31"
  shows "one_block fo m0 (s\<lparr>sys_k := k', sys_log := sys_log s @ [mk_task op numel in0 in1 out0]\<rparr>) taken nrun counted"
proof -
  have r: "ring_holds (sys_log s) taken (sys_k s)" using inv by (simp add: one_block_def)
  have le: "nrun \<le> length (sys_log s)" "pc_ok (sys_pc s 0) (sys_log s) taken nrun counted"
    using inv by (auto simp: one_block_def pc_ok_def ring_holds_def split: worker_pc.splits)
  then have pc: "pc_ok (sys_pc s 0) (sys_log s @ [t]) taken nrun counted" for t
    using r by (auto simp: pc_ok_def nth_append ring_holds_def split: worker_pc.splits)
  show ?thesis
    using inv ring_enqueue [OF r e len] le(1) pc by (simp add: one_block_def)
qed

lemma one_block_worker:
  assumes inv: "one_block fo m0 s taken nrun counted" and w: "worker_step fo 0 s = Some s'"
  shows "\<exists>taken nrun counted. one_block fo m0 s' taken nrun counted"
proof (cases "sys_pc s 0")
  case Poll
  with inv w have "one_block fo m0 s' taken nrun counted"
    by (auto simp: one_block_def worker_step_def pc_ok_def ring_holds_def Let_def)
  then show ?thesis by blast
next
  case (GotHead h)
  with inv w have "one_block fo m0 s' taken nrun counted"
    using ring_head_tail [of "sys_log s" taken "sys_k s"]
    by (auto simp: one_block_def worker_step_def pc_ok_def Let_def)
  then show ?thesis by blast
next
  case (HasWork h)
  with inv have h: "h = of_nat taken" "taken < length (sys_log s)" and r: "ring_holds (sys_log s) taken (sys_k s)"
    by (auto simp: one_block_def pc_ok_def)
  then have "ring_slot (sys_k s) h = sys_log s ! taken" "\<not> sint h < 0"
    using sint_small [of taken] by (auto simp: ring_holds_def)
  with HasWork inv w have "one_block fo m0 s' taken nrun counted"
    by (auto simp: one_block_def worker_step_def pc_ok_def Let_def)
  then show ?thesis by blast
next
  case (Copied h t)
  with inv w have "one_block fo m0 s' (Suc taken) nrun counted"
    using ring_holds_mono_head [of "sys_log s" taken "sys_k s"]
    by (auto simp: one_block_def worker_step_def pc_ok_def Let_def)
  then show ?thesis by blast
next
  case (Working t)
  with inv have nrun: "nrun < length (sys_log s)" "t = sys_log s ! nrun"
    by (auto simp: one_block_def pc_ok_def ring_holds_def)
  with Working inv w have "one_block fo m0 s' taken (Suc nrun) counted"
    by (auto simp: one_block_def worker_step_def pc_ok_def Let_def run_log_def take_Suc_conv_app_nth)
  then show ?thesis by blast
next
  case Counting
  with inv w have "one_block fo m0 s' taken nrun (Suc counted)"
    by (auto simp: one_block_def worker_step_def pc_ok_def Let_def add.commute)
  then show ?thesis by blast
next
  case Stopped
  with w show ?thesis by (simp add: worker_step_def)
qed

lemma ring_holds_fresh:
  assumes "0 < cap" "unat cap < 2 ^ 31"
  shows "ring_holds [] 0 ((fresh_kernel cap n)\<lparr>k_running := True\<rparr>)"
  using assms by (simp add: ring_holds_def fresh_kernel_def TASK_SIZE_def unat_gt_0)

lemma worker_step_log: "worker_step fo b s = Some s' \<Longrightarrow> sys_log s' = sys_log s"
  by (auto simp: worker_step_def Let_def split: worker_pc.splits if_splits)

lemma gpu_reach_one_block:
  assumes "gpu_reach fo ((fresh_kernel cap 1)\<lparr>k_running := True\<rparr>) m0 s" "length (sys_log s) < 2 ^ 31"
    "0 < cap" "unat cap < 2 ^ 31"
  shows "\<exists>taken nrun counted. one_block fo m0 s taken nrun counted"
  using assms(1,2)
proof (induction rule: gpu_reach.induct)
  case reach_init
  have "one_block fo m0 \<lparr>sys_k = (fresh_kernel cap 1)\<lparr>k_running := True\<rparr>, sys_mem = m0,
      sys_pc = (\<lambda>_. Poll), sys_log = [], sys_done = []\<rparr> 0 0 0"
    using ring_holds_fresh [OF assms(3,4), of 1]
    by (simp add: one_block_def pc_ok_def run_log_def) (simp add: fresh_kernel_def)
  then show ?case by blast
next
  case (reach_enqueue s op numel in0 in1 out0 k' n)
  then show ?case using one_block_enqueue by fastforce
next
  case (reach_shutdown s)
  then show ?case by (simp add: one_block_def)
next
  case (reach_worker s b s')
  then obtain taken nrun counted where inv: "one_block fo m0 s taken nrun counted"
    using worker_step_log by force
  then have "b = 0" using reach_worker(2) by (simp add: one_block_def)
  with inv reach_worker(3) show ?case using one_block_worker by blast
qed



subsection \<open>Grid-stride loops\<close>

lemma set_stride:
  "0 < step \<Longrightarrow> x \<in> set (stride i step n) \<longleftrightarrow> i \<le> x \<and> x < n \<and> (x - i) mod int step = 0"
proof (induction i step n rule: stride.induct)
  case (1 i step n)
  show ?case
  proof (cases "i < n")
    case False
    then show ?thesis by (subst stride.simps) auto
  next
    case True
    have "x \<in> set (stride i step n) \<longleftrightarrow> x = i \<or> x \<in> set (stride (i + int step) step n)"
      using True 1(2) by (subst stride.simps) simp
    also have "\<dots> \<longleftrightarrow> x = i \<or> (i + int step \<le> x \<and> x < n \<and> (x - (i + int step)) mod int step = 0)"
      using 1 True by simp
    also have "\<dots> \<longleftrightarrow> i \<le> x \<and> x < n \<and> (x - i) mod int step = 0"
    proof -
      have eq: "(x - (i + int step)) mod int step = (x - i) mod int step"
        by (metis diff_diff_eq minus_mod_self2)
      have "i + int step \<le> x" if "i \<le> x" "x \<noteq> i" "(x - i) mod int step = 0"
      proof -
        from that have "int step dvd x - i" "0 < x - i" by (simp_all add: dvd_eq_mod_eq_0)
        then have "int step \<le> x - i" by (rule zdvd_imp_le)
        then show ?thesis by simp
      qed
      with eq True show ?thesis by auto
    qed
    finally show ?thesis .
  qed
qed

lemma distinct_stride: "distinct (stride i step n)"
proof (induction i step n rule: stride.induct)
  case (1 i step n)
  show ?case
  proof (cases "i < n \<and> 0 < step")
    case True
    then have "i \<notin> set (stride (i + int step) step n)" by (simp add: set_stride)
    with 1 True show ?thesis by (subst stride.simps) simp
  next
    case False
    then show ?thesis by (subst stride.simps) auto
  qed
qed

lemma thread_indices_iff:
  assumes "b < gd" "t < bd"
  shows "x \<in> set (thread_indices gd bd b t n) \<longleftrightarrow>
    0 \<le> x \<and> x < n \<and> x mod (int bd * int gd) = int t + int b * int bd"
proof -
  let ?o = "int t + int b * int bd" and ?m = "int bd * int gd"
  have pos: "0 < bd * gd" using assms by simp
  have "Suc b * bd \<le> gd * bd" using assms(1) by (intro mult_le_mono1) simp
  then have "int (Suc b * bd) \<le> int (gd * bd)" by (simp only: of_nat_le_iff)
  then have "int b * int bd + int bd \<le> int gd * int bd" by (simp add: algebra_simps)
  then have o: "0 \<le> ?o" "?o < ?m" using assms(2) by (simp_all add: mult.commute)
  have "?o \<le> x \<and> (x - ?o) mod ?m = 0 \<longleftrightarrow> 0 \<le> x \<and> x mod ?m = ?o"
  proof
    assume a: "?o \<le> x \<and> (x - ?o) mod ?m = 0"
    then have "x mod ?m = ?o mod ?m" by (metis mod_eq_dvd_iff dvd_eq_mod_eq_0)
    moreover have "?o mod ?m = ?o" using o by (rule mod_pos_pos_trivial)
    moreover have "0 \<le> x" using a o(1) by linarith
    ultimately show "0 \<le> x \<and> x mod ?m = ?o" by simp
  next
    assume a: "0 \<le> x \<and> x mod ?m = ?o"
    then have "?o \<le> x" using zmod_le_nonneg_dividend [of x ?m] by simp
    moreover have "(x - ?o) mod ?m = 0" using a by (metis minus_mod_eq_mult_div mod_mult_self1_is_0)
    ultimately show "?o \<le> x \<and> (x - ?o) mod ?m = 0" by simp
  qed
  with pos show ?thesis by (auto simp: thread_indices_def set_stride)
qed

text \<open>
  The grid-stride loops of a launch with at least one block and one thread partition the work:
  every index below the element count is visited by exactly one thread of exactly one block, exactly
  once.
\<close>

theorem grid_stride_partition:
  assumes "0 \<le> x" "x < n" "0 < gd" "0 < bd"
  shows "(\<exists>!p. fst p < gd \<and> snd p < bd \<and> x \<in> set (thread_indices gd bd (fst p) (snd p) n)) \<and>
    (\<forall>b t. distinct (thread_indices gd bd b t n))"
proof -
  obtain k where k: "x = int k" using assms(1) by (rule nonneg_int_cases)
  let ?r = "k mod (bd * gd)"
  have r: "?r < gd * bd" using assms(3,4) by (simp add: mult.commute)
  have iff: "x \<in> set (thread_indices gd bd b t n) \<longleftrightarrow> b = ?r div bd \<and> t = ?r mod bd"
    if "b < gd" "t < bd" for b t
  proof -
    have "x mod (int bd * int gd) = int t + int b * int bd \<longleftrightarrow> ?r = t + b * bd"
      unfolding k by (metis of_nat_add of_nat_eq_iff of_nat_mod of_nat_mult)
    moreover have "?r = t + b * bd \<longleftrightarrow> b = ?r div bd \<and> t = ?r mod bd"
      using that(2) by (metis add.commute add_0 div_mult_mod_eq div_mult_self1 div_less mod_less
          mod_mult_self1 neq0_conv not_less_zero)
    ultimately show ?thesis using thread_indices_iff [OF that] assms(1,2) by simp
  qed
  have b: "?r div bd < gd" "?r mod bd < bd" using r assms(4) by (simp_all add: less_mult_imp_div_less)
  have "\<exists>!p. fst p < gd \<and> snd p < bd \<and> x \<in> set (thread_indices gd bd (fst p) (snd p) n)"
    using iff b by (intro ex1I [of _ "(?r div bd, ?r mod bd)"]) (auto simp: prod_eq_iff)
  then show ?thesis by (simp add: thread_indices_def distinct_stride)
qed

theorem grid_stride_partition_witness:
  "(\<exists>!p. fst p < 2 \<and> snd p < 128 \<and> 130 \<in> set (thread_indices 2 128 (fst p) (snd p) 200)) \<and>
   thread_indices 2 128 1 2 200 = [130]"
proof -
  have "thread_indices 2 128 1 2 200 = [130]" by code_simp
  with grid_stride_partition [of 130 200 2 128] show ?thesis by simp
qed

lemma set_block_indices:
  "b < gd \<Longrightarrow> x \<in> set (block_indices gd bd b n) \<longleftrightarrow>
     (\<exists>t < bd. 0 \<le> x \<and> x < n \<and> x mod (int bd * int gd) = int t + int b * int bd)"
  by (auto simp: block_indices_def thread_indices_iff)

lemma set_block_indices_one:
  assumes "0 < bd"
  shows "set (block_indices 1 bd 0 n) = {0..<n}"
proof -
  have "\<exists>t < bd. x mod int bd = int t" if "0 \<le> x" for x
    using assms by (intro exI [of _ "nat (x mod int bd)"]) (simp add: nat_less_iff)
  then show ?thesis by (auto simp: set_block_indices)
qed

subsection \<open>Copy tasks\<close>

definition copy_disjoint :: "u64 \<Rightarrow> u64 \<Rightarrow> nat \<Rightarrow> bool" where
  "copy_disjoint src dst n \<longleftrightarrow> (\<forall>i < n. \<forall>j < n. src + of_nat i \<noteq> dst + of_nat j)"

lemma foldl_copy:
  assumes "copy_disjoint (task_in0 t) (task_out0 t) n" "set idx \<subseteq> {0..<int n}"
  shows "foldl (\<lambda>m i. do_copy_bytes t i m) m idx a =
    (if \<exists>i \<in> set idx. a = task_out0 t + of_int i then m (task_in0 t + (a - task_out0 t)) else m a)"
  using assms(2)
proof (induction idx arbitrary: m)
  case Nil
  then show ?case by simp
next
  case (Cons i idx)
  have dis: "task_in0 t + of_int j \<noteq> task_out0 t + of_int l" if "j \<in> set (i # idx)" "l \<in> set (i # idx)" for j l
  proof -
    have "{j, l} \<subseteq> {0..<int n}" using Cons.prems that by blast
    then have "0 \<le> j" "0 \<le> l" "nat j < n" "nat l < n" by auto
    then show ?thesis using assms(1) unfolding copy_disjoint_def by (metis of_int_of_nat_eq int_nat_eq)
  qed
  have other: "foldl (\<lambda>m i. do_copy_bytes t i m) (do_copy_bytes t i m) idx a =
    (if \<exists>j \<in> set idx. a = task_out0 t + of_int j then do_copy_bytes t i m (task_in0 t + (a - task_out0 t))
     else do_copy_bytes t i m a)"
    using Cons by simp
  show ?case
  proof (cases "\<exists>j \<in> set idx. a = task_out0 t + of_int j")
    case True
    then obtain j where "j \<in> set idx" "a = task_out0 t + of_int j" by blast
    then have "do_copy_bytes t i m (task_in0 t + (a - task_out0 t)) = m (task_in0 t + (a - task_out0 t))"
      using dis [of j i] by (simp add: do_copy_bytes_def)
    with other True show ?thesis by simp
  next
    case False
    moreover have "do_copy_bytes t i m a =
        (if a = task_out0 t + of_int i then m (task_in0 t + (a - task_out0 t)) else m a)"
      by (simp add: do_copy_bytes_def)
    ultimately show ?thesis using other by simp
  qed
qed

lemma copy_below_untouched:
  assumes "\<forall>i \<in> set idx. 0 \<le> i \<and> i < int n" "n < 2 ^ 63"
  shows "foldl (\<lambda>m i. do_copy_bytes t i m) m idx (task_out0 t + of_nat n) = m (task_out0 t + of_nat n)"
  using assms(1)
proof (induction idx arbitrary: m)
  case (Cons i idx)
  have "(of_int i :: u64) \<noteq> of_nat n"
  proof
    assume "(of_int i :: u64) = of_nat n"
    then have "uint (of_int i :: u64) = uint (of_nat n :: u64)" by simp
    then show False using Cons.prems assms(2) by (simp add: unsigned_of_nat uint_word_of_int take_bit_nat_eq_self)
  qed
  then have "do_copy_bytes t i m (task_out0 t + of_nat n) = m (task_out0 t + of_nat n)"
    by (simp add: do_copy_bytes_def)
  with Cons show ?case by simp
qed simp

lemma run_task_copy:
  assumes "sint (task_op t) \<in> {8, 9}"
  shows "run_task fo gd bd b t m = foldl (\<lambda>m i. do_copy_bytes t i m) m (block_indices gd bd b (sint (task_numel t)))"
  using assms by (auto simp: run_task_def task_body_def Let_def)

text \<open>
  C33. A staging or restore task run by the single worker block copies exactly its bytes: with disjoint
  source and destination, every destination byte becomes the source byte at the same index and
  no other byte of device memory changes.
\<close>

theorem gpu_copy_task_correct:
  assumes "sint (task_op t) \<in> {8, 9}" "sint (task_numel t) = int n" "0 < bd"
    "copy_disjoint (task_in0 t) (task_out0 t) n"
  shows "(\<forall>i < n. run_task fo 1 bd 0 t m (task_out0 t + of_nat i) = m (task_in0 t + of_nat i)) \<and>
    (\<forall>a. (\<forall>i < n. a \<noteq> task_out0 t + of_nat i) \<longrightarrow> run_task fo 1 bd 0 t m a = m a)"
proof -
  have idx: "set (block_indices 1 bd 0 (int n)) = {0..<int n}" by (rule set_block_indices_one [OF assms(3)])
  have run: "run_task fo 1 bd 0 t m a =
    (if \<exists>i \<in> {0..<int n}. a = task_out0 t + of_int i then m (task_in0 t + (a - task_out0 t)) else m a)" for a
    using foldl_copy [OF assms(4), of "block_indices 1 bd 0 (int n)" m a] idx assms(2)
    by (simp add: run_task_copy [OF assms(1)])
  show ?thesis
  proof (intro conjI allI impI)
    fix i assume "i < n"
    then have "\<exists>j \<in> {0..<int n}. task_out0 t + of_nat i = task_out0 t + of_int j"
      by (intro bexI [of _ "int i"]) auto
    then show "run_task fo 1 bd 0 t m (task_out0 t + of_nat i) = m (task_in0 t + of_nat i)"
      by (subst run) simp
  next
    fix a assume a: "\<forall>i < n. a \<noteq> task_out0 t + of_nat i"
    have "\<not> (\<exists>i \<in> {0..<int n}. a = task_out0 t + of_int i)"
    proof
      assume "\<exists>i \<in> {0..<int n}. a = task_out0 t + of_int i"
      then obtain i where "0 \<le> i" "i < int n" "a = task_out0 t + of_int i" by auto
      then have "nat i < n" "a = task_out0 t + of_nat (nat i)" by auto
      with a show False by blast
    qed
    then show "run_task fo 1 bd 0 t m a = m a" by (subst run) simp
  qed
qed


lemma copy_disjoint_far:
  assumes "n \<le> 2 ^ 32" "dst = src + of_nat d" "2 ^ 32 \<le> d" "d \<le> 2 ^ 63"
  shows "copy_disjoint src dst n"
  unfolding copy_disjoint_def
proof (intro allI impI)
  fix i j assume "i < n" "j < n"
  then have "i < d + j" "d + j < 2 ^ 64" using assms by auto
  then have "(of_nat i :: u64) \<noteq> of_nat (d + j)"
    by (auto simp: unat_of_nat simp del: of_nat_add dest!: arg_cong [of _ _ unat])
  then show "src + of_nat i \<noteq> dst + of_nat j" by (simp add: assms(2) add.assoc)
qed

theorem gpu_copy_task_correct_witness:
  "\<forall>fo. run_task fo 1 128 0 (mk_task 8 3 0x1000 0 0x100001000) (\<lambda>a. ucast a) 0x100001002 = 2"
proof
  fix fo
  let ?t = "mk_task 8 3 0x1000 0 0x100001000"
  have "copy_disjoint (task_in0 ?t) (task_out0 ?t) 3"
    by (rule copy_disjoint_far [of _ _ _ "2 ^ 32"]) (simp_all add: mk_task_def)
  then have "\<forall>i < 3. run_task fo 1 128 0 ?t (\<lambda>a. ucast a) (task_out0 ?t + of_nat i) = ucast (task_in0 ?t + of_nat i)"
    using gpu_copy_task_correct [of ?t 3 128 fo "\<lambda>a. ucast a"] by (simp add: mk_task_def)
  then have "run_task fo 1 128 0 ?t (\<lambda>a. ucast a) (task_out0 ?t + of_nat 2) = ucast (task_in0 ?t + of_nat 2)"
    by (rule allE [of _ 2]) simp
  then show "run_task fo 1 128 0 ?t (\<lambda>a. ucast a) 0x100001002 = 2" by (simp add: mk_task_def)
qed

lemma init_blocks_bounds: "1 \<le> init_blocks var sm \<and> uint (init_blocks var sm) \<le> max (sint sm) 1"
proof -
  let ?m = "max (sint sm) 1"
  have "sint sm < 2 ^ 31" using sint_lt [of sm] by simp
  then have u: "uint (of_int ?m :: u32) = ?m" by (simp add: uint_word_of_int_eq take_bit_int_eq_self)
  then have one: "1 \<le> (of_int ?m :: u32)" by (simp add: word_le_def)
  have "uint (min a (of_int ?m :: u32)) \<le> ?m" for a using u by (simp add: min_def word_le_def)
  with one show ?thesis by (simp add: init_blocks_def Let_def)
qed

subsection \<open>Several worker blocks\<close>

text \<open>The steps of block \<open>b\<close> from polling to counting when a task is pending at the head.\<close>

lemma block_runs_task:
  assumes "gpu_reach fo k0 m0 s" "b < unat (k_num_blocks (sys_k s))" "sys_pc s b = Poll"
    "k_quit (sys_k s) = 0" "sint (k_head (sys_k s)) < sint (k_tail (sys_k s))" "0 \<le> sint (k_head (sys_k s))"
    "t = ring_slot (sys_k s) (k_head (sys_k s))"
  shows "gpu_reach fo k0 m0 (s\<lparr>sys_k := (sys_k s)\<lparr>k_head := k_head (sys_k s) + 1, k_processed := k_processed (sys_k s) + 1\<rparr>,
     sys_mem := run_task fo (unat (k_num_blocks (sys_k s))) (unat (k_threads_per_block (sys_k s))) b t (sys_mem s),
     sys_done := sys_done s @ [(b, t)]\<rparr>)"
proof -
  let ?h = "k_head (sys_k s)"
  let ?at = "\<lambda>pc s. s\<lparr>sys_pc := (sys_pc s)(b := pc)\<rparr>"
  have 1: "gpu_reach fo k0 m0 (?at (GotHead ?h) s)"
    by (rule reach_worker [OF assms(1,2)]) (simp add: worker_step_def assms)
  have 2: "gpu_reach fo k0 m0 (?at (HasWork ?h) s)"
    by (rule reach_worker [OF 1, of b]) (simp_all add: worker_step_def assms)
  have 3: "gpu_reach fo k0 m0 (?at (Copied ?h t) s)"
    by (rule reach_worker [OF 2, of b]) (use assms in \<open>simp_all add: worker_step_def\<close>)
  have 4: "gpu_reach fo k0 m0 (?at (Working t) (s\<lparr>sys_k := (sys_k s)\<lparr>k_head := ?h + 1\<rparr>\<rparr>))"
    by (rule reach_worker [OF 3, of b]) (simp_all add: worker_step_def assms)
  have 5: "gpu_reach fo k0 m0 (?at Counting (s\<lparr>sys_k := (sys_k s)\<lparr>k_head := ?h + 1\<rparr>,
     sys_mem := run_task fo (unat (k_num_blocks (sys_k s))) (unat (k_threads_per_block (sys_k s))) b t (sys_mem s),
     sys_done := sys_done s @ [(b, t)]\<rparr>))"
    by (rule reach_worker [OF 4, of b]) (simp_all add: worker_step_def assms)
  show ?thesis
    by (rule reach_worker [OF 5, of b]) (use assms in \<open>simp_all add: worker_step_def fun_upd_idem\<close>)
qed

lemma first_task_run:
  fixes op numel in0 in1 out0
  defines "t \<equiv> mk_task op numel in0 in1 out0"
  assumes "0 < nb"
  shows "\<exists>k. gpu_reach fo ((fresh_kernel 4 nb)\<lparr>k_running := True\<rparr>) m0
      \<lparr>sys_k = k, sys_mem = run_task fo (unat nb) 128 0 t m0, sys_pc = (\<lambda>_. Poll), sys_log = [t], sys_done = [(0, t)]\<rparr> \<and>
    k_submitted k = 1 \<and> k_processed k = 1"
proof -
  let ?k0 = "(fresh_kernel 4 nb)\<lparr>k_running := True\<rparr>"
  have r0: "ring_holds [] 0 ?k0" by (rule ring_holds_fresh) simp_all
  obtain k1 n where e: "enqueue_task ?k0 op numel in0 in1 out0 = (k1, Ok n)"
    by (simp add: enqueue_task_def fresh_kernel_def Let_def)
  note r1 = ring_enqueue [OF r0 e, simplified]
  have k1: "k_head k1 = 0" "k_tail k1 = 1" "k_submitted k1 = 1" "ring_slot k1 0 = t"
    "k_num_blocks k1 = nb" "k_threads_per_block k1 = 128" "k_quit k1 = 0" "k_processed k1 = 0"
    using r1 by (simp_all add: ring_holds_def fresh_kernel_def t_def)
  let ?s1 = "\<lparr>sys_k = k1, sys_mem = m0, sys_pc = (\<lambda>_. Poll), sys_log = [t], sys_done = []\<rparr>"
  have s1: "gpu_reach fo ?k0 m0 ?s1"
    using reach_enqueue [OF reach_init, where op = op and numel = numel and ?in0.0 = in0 and ?in1.0 = in1
      and ?out0.0 = out0 and k' = k1 and n = n and ?k0.0 = ?k0 and ?m0.0 = m0 and fo = fo] e
    by (simp add: t_def)
  have "0 < unat nb" using assms(2) by (simp add: unat_gt_0)
  then show ?thesis using block_runs_task [OF s1, of 0 t] k1 by fastforce
qed


text \<open>
  With two worker blocks a task is not executed completely: a reachable state exists in which a
  200-byte copy was enqueued, \<open>sync\<close> reports every submitted task as processed, and byte 128 of the
  destination was never written. Only the block that took the task runs its share of the indices.
\<close>

theorem gpu_two_blocks_drop_elements:
  "\<exists>s. gpu_reach fo ((fresh_kernel 4 2)\<lparr>k_running := True\<rparr>) m0 s \<and>
     sys_log s = [mk_task 9 200 src 0 dst] \<and>
     sync_poll (sys_k s) (k_submitted (sys_k s)) = Some 1 \<and>
     sys_done s = [(0, mk_task 9 200 src 0 dst)] \<and> sys_mem s (dst + 128) = m0 (dst + 128)"
proof -
  let ?t = "mk_task 9 200 src 0 dst"
  obtain k where k: "gpu_reach fo ((fresh_kernel 4 2)\<lparr>k_running := True\<rparr>) m0
      \<lparr>sys_k = k, sys_mem = run_task fo 2 128 0 ?t m0, sys_pc = (\<lambda>_. Poll), sys_log = [?t], sys_done = [(0, ?t)]\<rparr>"
    "k_submitted k = 1" "k_processed k = 1"
    using first_task_run [of 2 fo m0 9 200 src 0 dst] by auto
  have "run_task fo 2 128 0 ?t m0 (dst + 128) = m0 (dst + 128)"
  proof -
    have "\<forall>i \<in> set (block_indices 2 128 0 200). 0 \<le> i \<and> i < 128"
      by (auto simp: set_block_indices)
    then show ?thesis
      using run_task_copy [of ?t fo 2 128 0 m0] copy_below_untouched [of _ 128 ?t] by (simp add: mk_task_def)
  qed
  with k(2,3) show ?thesis
    by (intro exI [of _ "\<lparr>sys_k = k, sys_mem = run_task fo 2 128 0 ?t m0, sys_pc = (\<lambda>_. Poll),
      sys_log = [?t], sys_done = [(0, ?t)]\<rparr>"]) (simp add: sync_poll_def k(1))
qed

text \<open>
  The 32-bit ring counters are not safe to wrap: once \<open>2 ^ 31 - 1\<close> tasks have been taken, the next
  enqueue still succeeds but makes the tail negative, and from then on the worker's test for pending
  work fails although the ring holds a task.
\<close>

theorem gpu_ring_counter_wraps:
  assumes "k_head k = 0x7FFFFFFF" "k_tail k = 0x7FFFFFFF"
    "enqueue_task k op numel in0 in1 out0 = (k', Ok n)"
  shows "k_tail k' - k_head k' = 1 \<and> \<not> sint (k_head k') < sint (k_tail k')"
proof -
  have "k_head k' = 0x7FFFFFFF" "k_tail k' = 0x80000000"
    using assms by (auto simp: enqueue_task_def Let_def split: if_splits)
  then show ?thesis by simp
qed

theorem gpu_ring_counter_wraps_witness:
  "let k = (fresh_kernel 4 1)\<lparr>k_running := True, k_head := 0x7FFFFFFF, k_tail := 0x7FFFFFFF\<rparr>;
       k' = fst (enqueue_task k 8 3 1 0 2)
   in snd (enqueue_task k 8 3 1 0 2) = Ok 0 \<and> \<not> sint (k_head k') < sint (k_tail k')"
proof -
  let ?k = "(fresh_kernel 4 1)\<lparr>k_running := True, k_head := 0x7FFFFFFF, k_tail := 0x7FFFFFFF\<rparr>"
  obtain k' where e: "enqueue_task ?k 8 3 1 0 2 = (k', Ok 0)"
    by (simp add: enqueue_task_def fresh_kernel_def Let_def)
  from gpu_ring_counter_wraps [OF _ _ e] e show ?thesis by (simp add: Let_def)
qed

text \<open>
  C36. Initialisation never leaks pinned host memory: on every failing path of \<open>init\<close> each host buffer
  that was allocated has been freed exactly once, and on success both buffers are held and the ring is
  empty, zeroed and running, with a capacity of at least one and between one and \<open>sm_count\<close> blocks;
  shutting the kernel down then frees both buffers, unloads the module and tells the worker to quit.
\<close>

theorem kernel_init_host_memory:
  "case kernel_init rc null var sm cap of
     (evs, Ok k) \<Rightarrow> count_list evs (HostAlloc AllocTasks) = 1 \<and> count_list evs (HostAlloc AllocCtrl) = 1 \<and>
        count_list evs (HostFree AllocTasks) = 0 \<and> count_list evs (HostFree AllocCtrl) = 0 \<and>
        k_running k \<and> k_capacity k = max cap 1 \<and> k_head k = 0 \<and> k_tail k = 0 \<and>
        1 \<le> k_num_blocks k \<and> uint (k_num_blocks k) \<le> max (sint sm) 1 \<and>
        k_tasks k = replicate (unat (max cap 1) * 64) 0 \<and>
        (case concordia_gpu_shutdown 1 False False k of (k', evs') \<Rightarrow> k_quit k' = 1 \<and> \<not> k_running k' \<and>
           count_list (evs @ evs') ModuleLoaded = count_list (evs @ evs') ModuleUnloaded \<and>
           (\<forall>b. count_list (evs @ evs') (HostAlloc b) = count_list (evs @ evs') (HostFree b)))
   | (evs, _) \<Rightarrow> (\<forall>b. count_list evs (HostAlloc b) = count_list evs (HostFree b))"
  using init_blocks_bounds [of var sm] unfolding kernel_init_def first_failure_def Let_def
  by (auto simp: fresh_kernel_def TASK_SIZE_def concordia_gpu_shutdown_def kernel_drop_def shutdown_kernel_def Let_def split: option.splits)

subsection \<open>The worker drains the ring\<close>

text \<open>\<open>n\<close> steps of block 0, with no other step in between.\<close>

primrec worker_steps :: "f32_ops \<Rightarrow> nat \<Rightarrow> gpu_system \<Rightarrow> gpu_system option" where
  "worker_steps fo 0 s = Some s"
| "worker_steps fo (Suc n) s = Option.bind (worker_step fo 0 s) (worker_steps fo n)"

lemma gpu_reach_running:
  "gpu_reach fo k0 m0 s \<Longrightarrow> k_quit k0 = 0 \<Longrightarrow> k_running (sys_k s) \<Longrightarrow>
   k_quit (sys_k s) = 0 \<and> (\<forall>b. sys_pc s b \<noteq> Stopped)"
proof (induction rule: gpu_reach.induct)
  case (reach_enqueue s op numel in0 in1 out0 k' n)
  then show ?case by (auto simp: enqueue_task_def Let_def split: if_splits)
next
  case (reach_shutdown s)
  then show ?case by (auto simp: shutdown_kernel_def split: if_splits)
next
  case (reach_worker s b s')
  then have "k_running (sys_k s)"
    by (auto simp: worker_step_def Let_def split: worker_pc.splits if_splits)
  with reach_worker show ?case
    by (auto simp: worker_step_def Let_def split: worker_pc.splits if_splits)
qed auto

primrec steps_left :: "worker_pc \<Rightarrow> nat" where
  "steps_left Poll = 6"
| "steps_left (GotHead h) = 5"
| "steps_left (HasWork h) = 4"
| "steps_left (Copied h t) = 3"
| "steps_left (Working t) = 2"
| "steps_left Counting = 1"
| "steps_left Stopped = 0"

definition drain_measure :: "gpu_system \<Rightarrow> nat" where
  "drain_measure s = 6 * (length (sys_log s) - unat (k_processed (sys_k s))) + steps_left (sys_pc s 0)"

lemma one_block_counted:
  assumes "one_block fo m0 s taken nrun counted"
  shows "unat (k_processed (sys_k s)) = counted" "counted \<le> nrun" "nrun \<le> length (sys_log s)" "length (sys_log s) < 2 ^ 31"
proof -
  show le: "counted \<le> nrun" "nrun \<le> length (sys_log s)" "length (sys_log s) < 2 ^ 31"
    using assms by (auto simp: one_block_def pc_ok_def ring_holds_def split: worker_pc.splits)
  then have "counted < 2 ^ LENGTH(64)" by simp
  then show "unat (k_processed (sys_k s)) = counted"
    using assms by (simp only: one_block_def unsigned_of_nat take_bit_nat_eq_self of_nat_id)
qed

lemma one_block_progress:
  assumes inv: "one_block fo m0 s taken nrun counted" and q: "k_quit (sys_k s) = 0" "sys_pc s 0 \<noteq> Stopped"
    and todo: "counted < length (sys_log s)"
  shows "\<exists>s'. worker_step fo 0 s = Some s' \<and> k_quit (sys_k s') = 0 \<and> sys_pc s' 0 \<noteq> Stopped \<and>
    drain_measure s' < drain_measure s"
proof -
  note c = one_block_counted [OF inv]
  have p: "pc_ok (sys_pc s 0) (sys_log s) taken nrun counted" and r: "ring_holds (sys_log s) taken (sys_k s)"
    using inv by (simp_all add: one_block_def)
  have inc: "unat (k_processed (sys_k s) + 1) = Suc counted"
  proof -
    have "Suc counted < 2 ^ LENGTH(64)" using c by simp
    moreover have "k_processed (sys_k s) + 1 = of_nat (Suc counted)" using inv by (simp add: one_block_def)
    ultimately show ?thesis by (simp only: unsigned_of_nat take_bit_nat_eq_self of_nat_id)
  qed
  have nonneg: "\<not> sint (of_nat taken :: i32) < 0" if "taken \<le> length (sys_log s)"
    using that c(4) sint_small [of taken] by simp
  note defs = worker_step_def drain_measure_def Let_def
  show ?thesis
  proof (cases "sys_pc s 0")
    case (GotHead h)
    then show ?thesis using p q todo ring_head_tail [OF r] by (simp add: pc_ok_def defs)
  next
    case (HasWork h)
    then show ?thesis using p q nonneg by (simp add: pc_ok_def defs)
  next
    case Counting
    then show ?thesis using q todo by (simp add: defs inc c(1))
  qed (use q in \<open>simp_all add: defs\<close>)
qed

lemma one_block_drains:
  assumes "one_block fo m0 s taken nrun counted" "k_quit (sys_k s) = 0" "sys_pc s 0 \<noteq> Stopped"
  shows "\<exists>n s' taken' nrun'. n \<le> drain_measure s \<and> worker_steps fo n s = Some s' \<and> sys_log s' = sys_log s \<and>
    one_block fo m0 s' taken' nrun' (length (sys_log s))"
  using assms
proof (induction "drain_measure s" arbitrary: s taken nrun counted rule: less_induct)
  case less
  show ?case
  proof (cases "counted < length (sys_log s)")
    case True
    obtain s1 where s1: "worker_step fo 0 s = Some s1" "k_quit (sys_k s1) = 0" "sys_pc s1 0 \<noteq> Stopped"
      "drain_measure s1 < drain_measure s"
      using one_block_progress [OF less.prems True] by blast
    obtain a b c where "one_block fo m0 s1 a b c" using one_block_worker [OF less.prems(1) s1(1)] by blast
    from less.hyps [OF s1(4) this s1(2,3)] worker_step_log [OF s1(1)]
    obtain n s' a' b' where n: "n \<le> drain_measure s1" "worker_steps fo n s1 = Some s'" "sys_log s' = sys_log s"
      "one_block fo m0 s' a' b' (length (sys_log s))" by auto
    then have "Suc n \<le> drain_measure s" "worker_steps fo (Suc n) s = Some s'" using s1 by simp_all
    with n(3,4) show ?thesis by blast
  next
    case False
    then have "counted = length (sys_log s)" using one_block_counted [OF less.prems(1)] by simp
    then have "0 \<le> drain_measure s" "worker_steps fo 0 s = Some s" "one_block fo m0 s taken nrun (length (sys_log s))"
      using less.prems(1) by simp_all
    then show ?thesis by blast
  qed
qed

lemma drain_measure_le: "drain_measure s \<le> 6 * length (sys_log s) + 6"
  by (cases "sys_pc s 0") (simp_all add: drain_measure_def)

lemma worker_drains:
  assumes "gpu_reach fo ((fresh_kernel cap 1)\<lparr>k_running := True\<rparr>) m0 s" "length (sys_log s) < 2 ^ 31"
    "0 < cap" "unat cap < 2 ^ 31" "k_running (sys_k s)"
  shows "\<exists>n s'. n \<le> 6 * length (sys_log s) + 6 \<and> worker_steps fo n s = Some s' \<and> sys_log s' = sys_log s \<and>
    sys_done s' = map (Pair 0) (sys_log s) \<and> sys_mem s' = run_log fo 128 (sys_log s) m0 \<and>
    sync_poll (sys_k s') (k_submitted (sys_k s')) = Some (of_nat (length (sys_log s)))"
proof -
  obtain a b c where inv: "one_block fo m0 s a b c" using gpu_reach_one_block [OF assms(1-4)] by blast
  have "k_quit (sys_k s) = 0 \<and> sys_pc s 0 \<noteq> Stopped"
    using gpu_reach_running [OF assms(1) _ assms(5)] by (simp add: fresh_kernel_def)
  then obtain n s' a' b' where n: "n \<le> drain_measure s" "worker_steps fo n s = Some s'" "sys_log s' = sys_log s"
    and o: "one_block fo m0 s' a' b' (length (sys_log s))"
    using one_block_drains [OF inv] by blast
  have b': "b' = length (sys_log s)" using one_block_counted [OF o] n(3) by simp
  have "sys_done s' = map (Pair 0) (sys_log s)" "sys_mem s' = run_log fo 128 (sys_log s) m0"
    "k_processed (sys_k s') = of_nat (length (sys_log s))" "k_submitted (sys_k s') = of_nat (length (sys_log s))"
    using o n(3) b' by (simp_all add: one_block_def ring_holds_def)
  moreover have "n \<le> 6 * length (sys_log s) + 6" using n(1) drain_measure_le by (rule le_trans)
  moreover from calculation have "sync_poll (sys_k s') (k_submitted (sys_k s')) = Some (of_nat (length (sys_log s)))"
    by (simp add: sync_poll_def)
  ultimately show ?thesis using n(2,3) by blast
qed

subsection \<open>The sync loop\<close>

text \<open>
  \<open>sync\<close> polls the processed counter; between poll \<open>i\<close> and the next one block 0 of the worker takes
  \<open>sched i\<close> steps. \<open>None\<close> is a loop that has not returned within \<open>fuel\<close> polls.
\<close>

fun sync_loop :: "f32_ops \<Rightarrow> (nat \<Rightarrow> nat) \<Rightarrow> nat \<Rightarrow> nat \<Rightarrow> u64 \<Rightarrow> gpu_system \<Rightarrow> (u64 \<times> gpu_system) option" where
  "sync_loop fo sched 0 i target s = None"
| "sync_loop fo sched (Suc fuel) i target s =
     (case sync_poll (sys_k s) target of
        Some processed \<Rightarrow> Some (processed, s)
      | None \<Rightarrow> Option.bind (worker_steps fo (sched i) s) (sync_loop fo sched fuel (Suc i) target))"

definition concordia_gpu_sync ::
    "f32_ops \<Rightarrow> (nat \<Rightarrow> nat) \<Rightarrow> nat \<Rightarrow> int \<Rightarrow> gpu_system \<Rightarrow> (u64 \<times> gpu_system) option" where
  "concordia_gpu_sync fo sched fuel handle s =
     (if handle \<le> 0 then Some (0, s) else sync_loop fo sched fuel 0 (k_submitted (sys_k s)) s)"

definition worker_live :: "f32_ops \<Rightarrow> devmem \<Rightarrow> gpu_system \<Rightarrow> bool" where
  "worker_live fo m0 s \<longleftrightarrow>
     (\<exists>taken nrun counted. one_block fo m0 s taken nrun counted) \<and> k_quit (sys_k s) = 0 \<and> sys_pc s 0 \<noteq> Stopped"

definition all_counted :: "gpu_system \<Rightarrow> bool" where
  "all_counted s \<longleftrightarrow> unat (k_processed (sys_k s)) = length (sys_log s)"

lemma worker_live_step:
  assumes "worker_live fo m0 s"
  shows "\<exists>s'. worker_step fo 0 s = Some s' \<and> worker_live fo m0 s' \<and> sys_log s' = sys_log s \<and>
    k_submitted (sys_k s') = k_submitted (sys_k s) \<and>
    (if all_counted s then all_counted s' else drain_measure s' < drain_measure s)"
proof -
  obtain taken nrun counted where inv: "one_block fo m0 s taken nrun counted"
    and q: "k_quit (sys_k s) = 0" "sys_pc s 0 \<noteq> Stopped"
    using assms by (auto simp: worker_live_def)
  note c = one_block_counted [OF inv]
  have sub: "k_submitted (sys_k s') = k_submitted (sys_k s)" if "worker_step fo 0 s = Some s'" for s'
    using that by (auto simp: worker_step_def Let_def split: worker_pc.splits if_splits)
  obtain s' where s': "worker_step fo 0 s = Some s'" "k_quit (sys_k s') = 0" "sys_pc s' 0 \<noteq> Stopped"
    "if all_counted s then all_counted s' else drain_measure s' < drain_measure s"
  proof (cases "all_counted s")
    case True
    then have "counted = length (sys_log s)" using c(1) by (simp add: all_counted_def)
    then have "\<exists>h. sys_pc s 0 = Poll \<or> sys_pc s 0 = GotHead h \<and> h = of_nat (length (sys_log s))"
      using inv q c(2,3) by (cases "sys_pc s 0") (auto simp: one_block_def pc_ok_def ring_holds_def)
    moreover have "k_tail (sys_k s) = of_nat (length (sys_log s))"
      using inv by (simp add: one_block_def ring_holds_def)
    ultimately have "\<exists>s'. worker_step fo 0 s = Some s' \<and> k_quit (sys_k s') = 0 \<and> sys_pc s' 0 \<noteq> Stopped \<and> all_counted s'"
      using True q by (auto simp: worker_step_def all_counted_def Let_def)
    with True show ?thesis using that by auto
  next
    case False
    then have "counted < length (sys_log s)" using c by (simp add: all_counted_def)
    with one_block_progress [OF inv q] False show ?thesis using that by auto
  qed
  moreover obtain a b d where "one_block fo m0 s' a b d" using one_block_worker [OF inv s'(1)] by blast
  ultimately show ?thesis using worker_step_log [OF s'(1)] sub [OF s'(1)]
    by (intro exI [of _ s']) (auto simp: worker_live_def)
qed

lemma worker_live_steps:
  "worker_live fo m0 s \<Longrightarrow> \<exists>s'. worker_steps fo n s = Some s' \<and> worker_live fo m0 s' \<and> sys_log s' = sys_log s \<and>
    k_submitted (sys_k s') = k_submitted (sys_k s) \<and> (all_counted s' \<or> drain_measure s' + n \<le> drain_measure s)"
proof (induction n arbitrary: s)
  case (Suc n)
  obtain s1 where s1: "worker_step fo 0 s = Some s1" "worker_live fo m0 s1" "sys_log s1 = sys_log s"
    "k_submitted (sys_k s1) = k_submitted (sys_k s)"
    "if all_counted s then all_counted s1 else drain_measure s1 < drain_measure s"
    using worker_live_step [OF Suc.prems] by blast
  have keep: "all_counted s'" if "worker_steps fo n s1 = Some s'" "all_counted s1" for s'
    using s1(2) that
  proof (induction n arbitrary: s1)
    case (Suc n)
    from worker_live_step [OF Suc.prems(1)] obtain s2 where "worker_step fo 0 s1 = Some s2" "worker_live fo m0 s2"
      "all_counted s2" using Suc.prems(3) by auto
    with Suc show ?case by simp
  qed simp
  obtain s' where s': "worker_steps fo n s1 = Some s'" "worker_live fo m0 s'" "sys_log s' = sys_log s1"
    "k_submitted (sys_k s') = k_submitted (sys_k s1)" "all_counted s' \<or> drain_measure s' + n \<le> drain_measure s1"
    using Suc.IH [OF s1(2)] by blast
  moreover have "all_counted s' \<or> drain_measure s' + Suc n \<le> drain_measure s"
    using s1(5) s'(5) keep [OF s'(1)] by (auto split: if_splits)
  ultimately show ?case using s1 by auto
qed simp

lemma sync_loop_returns:
  assumes "worker_live fo m0 s" "\<And>i. 0 < sched i" "all_counted s \<and> 0 < fuel \<or> drain_measure s < fuel" "target = of_nat (length (sys_log s))"
  shows "\<exists>s'. sync_loop fo sched fuel i target s = Some (target, s') \<and> worker_live fo m0 s' \<and>
    sys_log s' = sys_log s \<and> all_counted s'"
  using assms
proof (induction fuel arbitrary: s i)
  case (Suc fuel)
  obtain a b c where inv: "one_block fo m0 s a b c" using Suc.prems(1) by (auto simp: worker_live_def)
  note c = one_block_counted [OF inv]
  have p: "k_processed (sys_k s) = of_nat c" using inv by (simp add: one_block_def)
  have "length (sys_log s) < 2 ^ LENGTH(64)" "c < 2 ^ LENGTH(64)" using c by simp_all
  then have le: "target \<le> k_processed (sys_k s) \<longleftrightarrow> length (sys_log s) \<le> c"
    unfolding Suc.prems(4) p word_le_nat_alt by (simp only: unsigned_of_nat take_bit_nat_eq_self of_nat_id)
  show ?case
  proof (cases "c = length (sys_log s)")
    case True
    with c p le Suc.prems show ?thesis by (simp add: sync_poll_def all_counted_def)
  next
    case False
    then have poll: "sync_poll (sys_k s) target = None" using c le by (simp add: sync_poll_def)
    obtain s1 where s1: "worker_steps fo (sched i) s = Some s1" "worker_live fo m0 s1" "sys_log s1 = sys_log s"
      "all_counted s1 \<or> drain_measure s1 + sched i \<le> drain_measure s"
      using worker_live_steps [OF Suc.prems(1)] by blast
    have "0 < drain_measure s" using Suc.prems(1) by (cases "sys_pc s 0") (auto simp: drain_measure_def worker_live_def)
    moreover have "\<not> all_counted s" using False c(1) by (simp add: all_counted_def)
    ultimately have "all_counted s1 \<and> 0 < fuel \<or> drain_measure s1 < fuel"
      using s1(4) Suc.prems(2) [of i] Suc.prems(3) by auto
    from Suc.IH [OF s1(2) Suc.prems(2) this] s1 Suc.prems(4) poll show ?thesis by simp
  qed
qed simp

text \<open>
  C11. \<open>sync\<close> returns: from every state that one worker block can reach with fewer than \<open>2 ^ 31\<close>
  submissions and no shutdown, and however many worker steps (at least one) happen between two polls, the polling
  loop stops within six polls per submitted task and seven more, returns the number of submissions,
  and by then every submitted task has been executed, in order.
\<close>

theorem gpu_sync_terminates:
  assumes "gpu_reach fo ((fresh_kernel cap 1)\<lparr>k_running := True\<rparr>) m0 s" "length (sys_log s) < 2 ^ 31"
    "0 < cap" "unat cap < 2 ^ 31" "k_running (sys_k s)" "\<And>i. 0 < sched i" "0 < handle"
  shows "\<exists>s'. concordia_gpu_sync fo sched (6 * length (sys_log s) + 7) handle s = Some (of_nat (length (sys_log s)), s') \<and>
    sys_done s' = map (Pair 0) (sys_log s) \<and> sys_mem s' = run_log fo 128 (sys_log s) m0"
proof -
  obtain a b c where inv: "one_block fo m0 s a b c" using gpu_reach_one_block [OF assms(1-4)] by blast
  moreover have "k_quit (sys_k s) = 0 \<and> sys_pc s 0 \<noteq> Stopped"
    using gpu_reach_running [OF assms(1) _ assms(5)] by (simp add: fresh_kernel_def)
  ultimately have live: "worker_live fo m0 s" by (auto simp: worker_live_def)
  have sub: "k_submitted (sys_k s) = of_nat (length (sys_log s))" using inv by (simp add: one_block_def ring_holds_def)
  have "all_counted s \<and> 0 < 6 * length (sys_log s) + 7 \<or> drain_measure s < 6 * length (sys_log s) + 7"
    using drain_measure_le [of s] by simp
  from sync_loop_returns [where i = 0 and sched = sched, OF live assms(6) this sub]
  obtain s' where s': "sync_loop fo sched (6 * length (sys_log s) + 7) 0 (k_submitted (sys_k s)) s =
      Some (of_nat (length (sys_log s)), s')" "worker_live fo m0 s'" "sys_log s' = sys_log s" "all_counted s'"
    unfolding sub by blast
  obtain a' b' c' where o: "one_block fo m0 s' a' b' c'" using s'(2) by (auto simp: worker_live_def)
  note c = one_block_counted [OF o]
  have "b' = length (sys_log s)" using c(1-3) s'(3,4) by (simp add: all_counted_def)
  then have "sys_done s' = map (Pair 0) (sys_log s)" "sys_mem s' = run_log fo 128 (sys_log s) m0"
    using o s'(3) by (simp_all add: one_block_def)
  with s'(1) assms(7) show ?thesis by (simp add: concordia_gpu_sync_def)
qed

theorem gpu_sync_terminates_witness:
  "\<forall>fo. \<exists>s s'. sys_log s = [mk_task 9 3 16 0 32] \<and> sys_done s = [] \<and>
     concordia_gpu_sync fo (\<lambda>i. 3) 13 1 s = Some (1, s') \<and> sys_done s' = [(0, mk_task 9 3 16 0 32)]"
proof
  fix fo
  let ?k = "(fresh_kernel 4 1)\<lparr>k_running := True\<rparr>"
  obtain k' n where e: "enqueue_task ?k 9 3 16 0 32 = (k', Ok n)" and k': "k_running k'"
    by (simp add: enqueue_task_def fresh_kernel_def)
  let ?s = "\<lparr>sys_k = k', sys_mem = (\<lambda>_. 0), sys_pc = (\<lambda>_. Poll), sys_log = [mk_task 9 3 16 0 32], sys_done = []\<rparr>"
  have "gpu_reach fo ?k (\<lambda>_. 0) ?s"
    using reach_enqueue [OF reach_init, where ?k0.0 = ?k and ?m0.0 = "\<lambda>_. 0" and fo = fo and k' = k' and n = n] e
    by fastforce
  from gpu_sync_terminates [OF this, where sched = "\<lambda>i. 3" and handle = 1] k'
  obtain s' where "concordia_gpu_sync fo (\<lambda>i. 3) 13 1 ?s = Some (1, s')" "sys_done s' = [(0, mk_task 9 3 16 0 32)]" by auto
  then show "\<exists>s s'. sys_log s = [mk_task 9 3 16 0 32] \<and> sys_done s = [] \<and>
     concordia_gpu_sync fo (\<lambda>i. 3) 13 1 s = Some (1, s') \<and> sys_done s' = [(0, mk_task 9 3 16 0 32)]"
    by - (rule exI [of _ ?s], rule exI [of _ s'], simp)
qed

end
