(* ===== verification/Persistent_Router.thy ===== *)
theory Persistent_Router
  imports Persistent_Queue Concordia_Runtime
begin

text \<open>
  The kernel-launch router of \<^verbatim>\<open>zluda/src/impl/persistent_router.rs\<close>: which launches are recognised as
  element-wise operations, which device the persistent worker runs on, and how a recognised launch is
  turned into a task of the ring instead of a kernel launch.
\<close>

subsection \<open>Classification\<close>

datatype PersistentOp =
    OpAdd | OpMul | OpSub | OpSilu | OpRelu | OpScale | OpAddRelu | OpDirtyScan | OpAofAppend | OpRestoreCopy

definition op_code :: "PersistentOp \<Rightarrow> i32" where
  "op_code op =
     (case op of OpAdd \<Rightarrow> 0 | OpMul \<Rightarrow> 1 | OpSub \<Rightarrow> 2 | OpSilu \<Rightarrow> 3 | OpRelu \<Rightarrow> 4 | OpScale \<Rightarrow> 5
      | OpAddRelu \<Rightarrow> 6 | OpDirtyScan \<Rightarrow> 7 | OpAofAppend \<Rightarrow> 8 | OpRestoreCopy \<Rightarrow> 9)"

datatype Routing = Persistent PersistentOp int | Passthrough

definition is_persistent_enabled_for_value :: "string option \<Rightarrow> bool" where
  "is_persistent_enabled_for_value value \<longleftrightarrow>
     map_option trim value \<in> {Some ''1'', Some ''true'', Some ''TRUE'', Some ''yes'', Some ''YES'', Some ''on''}"

definition is_persistent_enabled :: "environ \<Rightarrow> bool" where
  "is_persistent_enabled env = is_persistent_enabled_for_value (env ''CONCORDIA_PERSISTENT'')"

definition read_i32_from_pairs :: "(string \<times> string) list \<Rightarrow> string list \<Rightarrow> i32 option \<Rightarrow> i32 option" where
  "read_i32_from_pairs pairs keys fallback =
     (case find_map
        (\<lambda>key. Option.bind (map_option snd (List.find (\<lambda>p. fst p = key) pairs))
           (\<lambda>v. outcome_ok (parse_i32 (trim v)))) keys of
        None \<Rightarrow> fallback
      | Some n \<Rightarrow> Some n)"

definition PERSISTENT_DEVICE_KEYS :: "string list" where
  "PERSISTENT_DEVICE_KEYS =
     [''CONCORDIA_PERSISTENT_DEVICE'', ''CONCORDIA_MPI_LOCAL_RANK'', ''HETGPU_CONCORDIA_MPI_LOCAL_RANK'',
      ''OMPI_COMM_WORLD_LOCAL_RANK'', ''MPI_LOCALRANKID'', ''MV2_COMM_WORLD_LOCAL_RANK'', ''SLURM_LOCALID'',
      ''PMI_LOCAL_RANK'', ''LOCAL_RANK'']"

definition persistent_device_id_from_pairs :: "(string \<times> string) list \<Rightarrow> int" where
  "persistent_device_id_from_pairs pairs =
     (let n = (case read_i32_from_pairs pairs [''CONCORDIA_PERSISTENT_DEVICE''] None of
                 Some n \<Rightarrow> n
               | None \<Rightarrow> (case read_i32_from_pairs pairs MPI_LOCAL_RANK_KEYS None of Some n \<Rightarrow> n | None \<Rightarrow> 0))
      in max (sint n) 0)"

definition persistent_device_id :: "environ \<Rightarrow> int" where
  "persistent_device_id env = persistent_device_id_from_pairs (env_pairs env PERSISTENT_DEVICE_KEYS)"

definition classify_op :: "string \<Rightarrow> PersistentOp option" where
  "classify_op kernel_name =
     (let name = to_ascii_lowercase kernel_name;
          is_add = contains ''add'' name \<or> contains ''plus'' name;
          is_mul = contains ''mul'' name \<or> contains ''multiply'' name;
          is_sub = contains ''sub'' name \<or> contains ''minus'' name;
          is_relu = contains ''relu'' name;
          is_silu = contains ''silu'' name \<or> contains ''swish'' name
      in if is_silu \<and> \<not> is_add then Some OpSilu
         else if is_relu \<and> is_add then Some OpAddRelu
         else if is_relu then Some OpRelu
         else if is_add then Some OpAdd
         else if is_mul then Some OpMul
         else if is_sub then Some OpSub
         else None)"

type_synonym dims = "u32 \<times> u32 \<times> u32"

definition classify :: "string \<Rightarrow> dims \<Rightarrow> dims \<Rightarrow> usize \<Rightarrow> Routing" where
  "classify kernel_name grid_dims block_dims num_params =
     (case grid_dims of (gx, gy, gz) \<Rightarrow> case block_dims of (bx, by, bz) \<Rightarrow>
        if gy \<noteq> 1 \<or> gz \<noteq> 1 \<or> by \<noteq> 1 \<or> bz \<noteq> 1 then Passthrough
        else if num_params < 2 \<or> num_params > 8 then Passthrough
        else case classify_op kernel_name of
               None \<Rightarrow> Passthrough
             | Some op \<Rightarrow>
                 let numel = sint ((ucast gx :: u64) * ucast bx)
                 in if \<not> (32 \<le> numel \<and> numel \<le> 2 ^ 30) then Passthrough else Persistent op numel)"

subsection \<open>Routing a launch\<close>

text \<open>The router behind its lock: the worker's handle and kernel, or nothing when it could not start.\<close>

record PersistentRouter =
  router_handle :: int
  router_kernel :: GpuPersistentKernel

definition router_new ::
    "environ \<Rightarrow> (drv_call \<Rightarrow> int) \<Rightarrow> (drv_call \<Rightarrow> bool) \<Rightarrow> i32 \<Rightarrow> int \<Rightarrow> PersistentRouter option" where
  "router_new env rc null sm_count box_address =
     (if \<not> is_persistent_enabled env then None
      else
        let capacity = (case Option.bind (env ''CONCORDIA_PERSISTENT_CAPACITY'') (\<lambda>v. outcome_ok (parse_u32 v)) of
              None \<Rightarrow> 1024 | Some n \<Rightarrow> n)
        in case kernel_init rc null (env ''CONCORDIA_PERSISTENT_BLOCKS'') sm_count capacity of
             (_, Ok k) \<Rightarrow> if box_address \<ge> 0 then Some \<lparr>router_handle = box_address, router_kernel = k\<rparr> else None
           | _ \<Rightarrow> None)"

definition route :: "PersistentRouter \<Rightarrow> PersistentOp \<Rightarrow> int \<Rightarrow> u64 \<Rightarrow> u64 \<Rightarrow> u64 \<Rightarrow> PersistentRouter \<times> bool" where
  "route r op numel in0 in1 out0 =
     (if router_handle r < 0 then (r, False)
      else case concordia_gpu_enqueue (router_handle r) (router_kernel r) (op_code op) (of_int numel) in0 in1 out0 of
             (k, seq) \<Rightarrow> (r\<lparr>router_kernel := k\<rparr>, seq \<ge> 0))"

text \<open>
  The kernel parameter array: \<open>None\<close> is a null array, an entry \<open>None\<close> is a null pointer and \<open>Some v\<close> a
  pointer to the 64-bit value \<open>v\<close>. The array has \<open>num_params\<close> entries.
\<close>

definition param_at :: "u64 option list \<Rightarrow> usize \<Rightarrow> usize \<Rightarrow> u64" where
  "param_at params num_params index =
     (if index \<ge> num_params then 0 else case params ! index of None \<Rightarrow> 0 | Some v \<Rightarrow> v)"

definition try_route ::
    "environ \<Rightarrow> PersistentRouter option \<Rightarrow> bool \<Rightarrow> string \<Rightarrow> u64 option list option \<Rightarrow> usize \<Rightarrow> dims \<Rightarrow> dims \<Rightarrow>
     PersistentRouter option \<times> bool" where
  "try_route env router poisoned kernel_name kernel_params num_params grid_dims block_dims =
     (if \<not> is_persistent_enabled env then (router, False)
      else case kernel_params of
        None \<Rightarrow> (router, False)
      | Some params \<Rightarrow>
          (case classify kernel_name grid_dims block_dims num_params of
             Passthrough \<Rightarrow> (router, False)
           | Persistent op numel \<Rightarrow>
               let in0 = param_at params num_params 1; in1 = param_at params num_params 2;
                   out0 = param_at params num_params 0
               in if in0 = 0 \<or> out0 = 0 then (router, False)
                  else if poisoned then (router, False)
                  else case router of
                         None \<Rightarrow> (router, False)
                       | Some r \<Rightarrow> (case route r op numel in0 in1 out0 of (r', ok) \<Rightarrow> (Some r', ok))))"

subsection \<open>Properties of the router\<close>

lemma launch_product: "unat ((ucast (g :: u32) :: u64) * ucast (b :: u32)) = unat g * unat b"
proof -
  have "unat g < 2 ^ 32" "unat b < 2 ^ 32" using unsigned_less [of g] unsigned_less [of b] by simp_all
  then have "unat g * unat b < 2 ^ 32 * 2 ^ 32" by (intro mult_strict_mono) simp_all
  moreover have "unat (ucast g :: u64) = unat g" "unat (ucast b :: u64) = unat b"
    using \<open>unat g < 2 ^ 32\<close> \<open>unat b < 2 ^ 32\<close> by (simp_all add: unsigned_ucast_eq take_bit_nat_eq_self)
  ultimately show ?thesis by (simp add: unat_word_ariths)
qed

lemma sint_nonneg_unat:
  assumes "0 \<le> sint (x :: u64)"
  shows "sint x = int (unat x)"
proof -
  have "\<not> bit (uint x) 63" using assms by (simp add: sint_uint)
  then have "n < 63" if "bit x n" for n
    using that bit_imp_le_length [OF that] by (cases "n = 63") (auto simp: bit_simps)
  then have "take_bit 63 (uint x) = uint x" by (intro bit_eqI) (auto simp: bit_simps)
  with \<open>\<not> bit (uint x) 63\<close> show ?thesis by (simp add: sint_uint signed_take_bit_eq_if_positive)
qed

lemma classify_PersistentD:
  assumes "classify name (gx, gy, gz) (bx, by, bz) n = Persistent op numel"
  shows "gy = 1 \<and> gz = 1 \<and> by = 1 \<and> bz = 1 \<and> 2 \<le> n \<and> n \<le> 8 \<and> classify_op name = Some op \<and>
    numel = int (unat gx * unat bx) \<and> 32 \<le> numel \<and> numel \<le> 2 ^ 30"
proof -
  have *: "gy = 1 \<and> gz = 1 \<and> by = 1 \<and> bz = 1 \<and> 2 \<le> n \<and> n \<le> 8 \<and> classify_op name = Some op \<and>
    numel = sint ((ucast gx :: u64) * ucast bx) \<and> 32 \<le> numel \<and> numel \<le> 2 ^ 30"
    using assms by (auto simp: classify_def Let_def split: option.splits if_splits)
  then have "0 \<le> sint ((ucast gx :: u64) * ucast bx)" by simp
  with * show ?thesis using sint_nonneg_unat launch_product [of gx bx] by metis
qed

lemma classify_op_range:
  "classify_op name = Some op \<Longrightarrow> op \<in> {OpAdd, OpMul, OpSub, OpSilu, OpRelu, OpAddRelu}"
  by (auto simp: classify_op_def Let_def split: if_splits)

lemma enqueue_task_seq:
  assumes "enqueue_task k op numel in0 in1 out0 = (k', r)" "unat (k_submitted k) < 2 ^ 63"
  shows "if 0 \<le> seq_code r then \<exists>n. r = Ok n else k' = k"
proof -
  have "sint (k_submitted k) = int (unat (k_submitted k))"
  proof -
    have "int (unat (k_submitted k)) < int (2 ^ 63)" using assms(2) by (simp only: of_nat_less_iff)
    then have "(- (2 ^ 63)) \<le> uint (k_submitted k)" "uint (k_submitted k) < 2 ^ 63"
      by (simp_all add: order_trans [OF _ unsigned_greater_eq])
    then show ?thesis by (simp add: sint_uint signed_take_bit_int_eq_self)
  qed
  with assms(1) show ?thesis by (auto simp: enqueue_task_def seq_code_def Let_def split: if_splits)
qed

subsection \<open>Properties of the router\<close>

text \<open>
  A launch is only routed when it is one-dimensional with two to eight parameters; the element count is
  the exact product of grid and block size (the 64-bit multiplication cannot fool the range test) and
  lies between 32 and \<open>2 ^ 30\<close>; and only the six element-wise operations are ever selected, never the
  checkpoint worker's own task codes.
\<close>

theorem classify_sound:
  assumes "classify name (gx, gy, gz) (bx, by, bz) n = Persistent op numel"
  shows "gy = 1 \<and> gz = 1 \<and> by = 1 \<and> bz = 1 \<and> n \<in> {2..8} \<and>
    numel = int (unat gx * unat bx) \<and> numel \<in> {32..2 ^ 30} \<and> sint (op_code op) \<in> {0, 1, 2, 3, 4, 6}"
proof -
  note c = classify_PersistentD [OF assms]
  then have "classify_op name = Some op" by blast
  from classify_op_range [OF this] have "sint (op_code op) \<in> {0, 1, 2, 3, 4, 6}" by (auto simp: op_code_def)
  with c show ?thesis by simp
qed

theorem classify_sound_witness:
  "classify ''vectorized_elementwise_kernel<add>'' (128, 1, 1) (256, 1, 1) 3 = Persistent OpAdd 32768 \<and>
   32768 \<in> {32..2 ^ 30 :: int}"
proof -
  have c: "classify ''vectorized_elementwise_kernel<add>'' (128, 1, 1) (256, 1, 1) 3 = Persistent OpAdd 32768"
    by code_simp
  from classify_sound [OF c] c show ?thesis by blast
qed

text \<open>
  Routing is all or nothing: when \<open>try_route\<close> reports success, exactly one task was enqueued, with
  the operation and element count of the classification, the output from parameter 0 and the inputs
  from parameters 1 and 2; when it reports failure, the ring is untouched, so the launch can go to
  the driver.
\<close>

theorem try_route_enqueues:
  assumes "try_route env router poisoned name params n grid block = (router', ok)"
    "\<forall>r. router = Some r \<longrightarrow> unat (k_submitted (router_kernel r)) < 2 ^ 63"
  shows "if ok
    then \<exists>ps r k op numel seq. params = Some ps \<and> router = Some r \<and> router' = Some (r\<lparr>router_kernel := k\<rparr>) \<and>
      classify name grid block n = Persistent op numel \<and> param_at ps n 0 \<noteq> 0 \<and> param_at ps n 1 \<noteq> 0 \<and>
      enqueue_task (router_kernel r) (op_code op) (of_int numel) (param_at ps n 1) (param_at ps n 2)
        (param_at ps n 0) = (k, Ok seq)
    else router' = router"
proof (cases "\<exists>ps op numel. is_persistent_enabled env \<and> params = Some ps \<and> \<not> poisoned \<and> router \<noteq> None \<and>
    router_handle (the router) > 0 \<and> classify name grid block n = Persistent op numel \<and>
    param_at ps n 1 \<noteq> 0 \<and> param_at ps n 0 \<noteq> 0")
  case True
  then obtain ps r op numel where c: "is_persistent_enabled env" "params = Some ps" "\<not> poisoned"
    "router = Some r" "router_handle r > 0" "classify name grid block n = Persistent op numel"
    "param_at ps n 1 \<noteq> 0" "param_at ps n 0 \<noteq> 0" by auto
  obtain k res where e: "enqueue_task (router_kernel r) (op_code op) (of_int numel) (param_at ps n 1)
      (param_at ps n 2) (param_at ps n 0) = (k, res)" by fastforce
  have "router' = Some (r\<lparr>router_kernel := k\<rparr>)" "ok = (0 \<le> seq_code res)"
    using assms(1) c e by (auto simp: try_route_def route_def concordia_gpu_enqueue_def Let_def)
  with enqueue_task_seq [OF e] assms(2) c e show ?thesis by (auto split: if_splits)
next
  case False
  with assms(1) have "router' = router \<and> \<not> ok"
    by (auto simp: try_route_def route_def concordia_gpu_enqueue_def Let_def split: if_splits option.splits
        Routing.splits prod.splits)
  then show ?thesis by simp
qed

theorem try_route_enqueues_witness:
  "let r = \<lparr>router_handle = 1, router_kernel = (fresh_kernel 4 1)\<lparr>k_running := True\<rparr>\<rparr>;
       res = try_route [''CONCORDIA_PERSISTENT'' \<mapsto> ''1''] (Some r) False ''relu_kernel'' (Some [Some 16, Some 32])
         2 (1, 1, 1) (128, 1, 1)
   in snd res \<and> (\<exists>k op numel seq. fst res = Some (r\<lparr>router_kernel := k\<rparr>) \<and>
        enqueue_task (router_kernel r) (op_code op) (of_int numel) 32 0 16 = (k, Ok seq))"
proof -
  let ?r = "\<lparr>router_handle = 1, router_kernel = (fresh_kernel 4 1)\<lparr>k_running := True\<rparr>\<rparr>"
  let ?res = "try_route [''CONCORDIA_PERSISTENT'' \<mapsto> ''1''] (Some ?r) False ''relu_kernel''
    (Some [Some 16, Some 32]) 2 (1, 1, 1) (128, 1, 1)"
  have ok: "snd ?res" by code_simp
  have "?res = (fst ?res, True)" using ok by (simp add: prod_eq_iff)
  from try_route_enqueues [OF this] ok show ?thesis
    by (auto simp: Let_def param_at_def fresh_kernel_def)
qed

text \<open>
  Classification by substring misroutes kernels: a leaky ReLU launch is turned into the plain ReLU
  task, and any kernel whose name contains \<open>padd\<close> into an addition.
\<close>

theorem classify_misroutes:
  "classify ''leaky_relu_kernel'' (4, 1, 1) (128, 1, 1) 3 = Persistent OpRelu 512 \<and>
   classify ''replication_padding_forward'' (4, 1, 1) (128, 1, 1) 3 = Persistent OpAdd 512"
  by code_simp

subsection \<open>Routed launches\<close>

lemma try_route_accepted:
  assumes "try_route env (Some r) poisoned name (Some ps) n grid block = (router', True)"
    "unat (k_submitted (router_kernel r)) < 2 ^ 63"
  shows "\<exists>k op numel seq. router' = Some (r\<lparr>router_kernel := k\<rparr>) \<and> classify name grid block n = Persistent op numel \<and>
    enqueue_task (router_kernel r) (op_code op) (of_int numel) (param_at ps n 1) (param_at ps n 2)
      (param_at ps n 0) = (k, Ok seq)"
proof -
  obtain op numel where c: "classify name grid block n = Persistent op numel"
    using assms(1) by (cases "classify name grid block n") (auto simp: try_route_def split: if_splits)
  obtain k res where e: "enqueue_task (router_kernel r) (op_code op) (of_int numel) (param_at ps n 1)
      (param_at ps n 2) (param_at ps n 0) = (k, res)" by fastforce
  have "router' = Some (r\<lparr>router_kernel := k\<rparr>)" "0 \<le> seq_code res"
    using assms(1) c e
    by (auto simp: try_route_def route_def concordia_gpu_enqueue_def Let_def split: if_splits)
  with enqueue_task_seq [OF e assms(2)] c e show ?thesis by auto
qed

end
