(* ===== verification/Sass_Types.thy ===== *)
theory Sass_Types
  imports Rust_Str
begin

text \<open>
  The data of the SASS back end (\<open>nvidia_sass/src/types.rs\<close>): registers, operands, modifiers,
  control codes, instructions, kernels and modules, the error type and its messages. A method
  that calls \<open>panic!\<close> on the wrong register file returns \<open>Panic\<close>.
\<close>

subsection \<open>Registers and operands\<close>

datatype OpcodeClass = Alu3 | Alu2 | Fma | Load | Store | Branch | Comparison | Sync | Special | Nop

record Opcode =
  mnemonic :: string
  opclass :: OpcodeClass

datatype Reg = Reg_R u8 | RZ | Reg_P u8 | PT | UR u8 | UP u8

fun encode_gpr :: "Reg \<Rightarrow> (u8, 'e) outcome" where
  "encode_gpr (Reg_R n) = Ok n"
| "encode_gpr RZ = Ok 255"
| "encode_gpr _ = Panic"

fun encode_pred :: "Reg \<Rightarrow> (u8, 'e) outcome" where
  "encode_pred (Reg_P n) = Ok n"
| "encode_pred PT = Ok 7"
| "encode_pred _ = Panic"

datatype SpecialReg =
    TidX | TidY | TidZ | CtaidX | CtaidY | CtaidZ | NctaidX | NctaidY | NctaidZ
  | NtidX | NtidY | NtidZ | LaneId | WarpId | SmId | ClockLo | ClockHi | GlobalTimerLo | GlobalTimerHi

fun encode_sreg :: "SpecialReg \<Rightarrow> u8" where
  "encode_sreg LaneId = 0x00"
| "encode_sreg WarpId = 0x02"
| "encode_sreg SmId = 0x06"
| "encode_sreg TidX = 0x21"
| "encode_sreg TidY = 0x22"
| "encode_sreg TidZ = 0x23"
| "encode_sreg CtaidX = 0x25"
| "encode_sreg CtaidY = 0x26"
| "encode_sreg CtaidZ = 0x27"
| "encode_sreg NtidX = 0x29"
| "encode_sreg NtidY = 0x2a"
| "encode_sreg NtidZ = 0x2b"
| "encode_sreg NctaidX = 0x2d"
| "encode_sreg NctaidY = 0x2e"
| "encode_sreg NctaidZ = 0x2f"
| "encode_sreg ClockLo = 0x50"
| "encode_sreg ClockHi = 0x51"
| "encode_sreg GlobalTimerLo = 0x58"
| "encode_sreg GlobalTimerHi = 0x59"

datatype Operand =
    OpReg Reg
  | Imm20 i32
  | Imm32 i32
  | ConstBank u8 u16
  | Memory Reg i32
  | BranchTarget u32
  | SReg SpecialReg

record Predicate =
  preg :: Reg
  negated :: bool

datatype DataType =
    DT_U8 | DT_U16 | DT_U32 | DT_U64 | DT_U128 | DT_S8 | DT_S16 | DT_S32 | DT_S64
  | DT_F16 | DT_F32 | DT_F64 | DT_BF16 | DT_TF32 | DT_FP8E4M3 | DT_FP8E5M2

datatype MemScope = Scope_E | Strong | Cta | Gpu | Sys

datatype CacheOp = Ef | El | Lu | Eu | Na

datatype CmpOp =
  Cmp_Lt | Cmp_Eq | Cmp_Le | Cmp_Gt | Cmp_Ne | Cmp_Ge | Cmp_Ltu | Cmp_Equ | Cmp_Leu | Cmp_Gtu | Cmp_Neu | Cmp_Geu

datatype MufuOp = Rcp | Rsq | Mufu_Sin | Mufu_Cos | Ex2 | Lg2 | Rcp64h | Rsq64h

datatype Modifier =
    DataTypeMod DataType
  | MemScopeMod MemScope
  | CacheOpMod CacheOp
  | CmpOpMod CmpOp
  | BoolOp u8
  | MufuOpMod MufuOp
  | Neg u8
  | Abs u8
  | Wide
  | Hi

subsection \<open>Instructions, kernels, modules\<close>

record ControlCodes =
  stall :: u8
  yield_flag :: bool
  write_barrier :: u8
  read_barrier :: u8
  wait_mask :: u8
  reuse :: u8

definition default_control :: ControlCodes where
  "default_control =
     \<lparr>stall = 15, yield_flag = False, write_barrier = 7, read_barrier = 7, wait_mask = 0, reuse = 0\<rparr>"

record SassInst =
  opcode :: Opcode
  dst :: "Reg option"
  srcs :: "Operand list"
  pred :: "Predicate option"
  modifiers :: "Modifier list"
  control :: ControlCodes

record SassKernel =
  kname :: string
  instructions :: "SassInst list"
  num_registers :: u32
  shared_mem_bytes :: u32
  const_mem_bytes :: u32
  local_mem_bytes :: u32
  max_threads :: u32
  params :: "(string \<times> u32 \<times> u32) list"

record SassModule =
  kernels :: "SassKernel list"
  sm_version :: u32
  global_constants :: bytes

subsection \<open>Errors\<close>

datatype NvSassError =
    UnsupportedSmVersion u32
  | EncodingError string string
  | RegAllocError string
  | ISelError string
  | CubinError string
  | ElfError string

fun sass_error_text :: "NvSassError \<Rightarrow> string" where
  "sass_error_text (UnsupportedSmVersion v) = ''unsupported SM version: '' @ show_nat (unat v)"
| "sass_error_text (EncodingError op msg) = ''encoding error for '' @ op @ '': '' @ msg"
| "sass_error_text (RegAllocError s) = ''register allocation failed: '' @ s"
| "sass_error_text (ISelError s) = ''instruction selection failed: '' @ s"
| "sass_error_text (CubinError s) = ''CUBIN generation failed: '' @ s"
| "sass_error_text (ElfError s) = ''ELF write error: '' @ s"

text \<open>The derived \<open>Debug\<close> text of the control codes, and \<open>{:03x}\<close>.\<close>

definition show_bool :: "bool \<Rightarrow> string" where
  "show_bool b = (if b then ''true'' else ''false'')"

definition debug_control :: "ControlCodes \<Rightarrow> string" where
  "debug_control c =
     ''ControlCodes { stall: '' @ show_nat (unat (stall c)) @ '', yield_flag: '' @ show_bool (yield_flag c) @
     '', write_barrier: '' @ show_nat (unat (write_barrier c)) @
     '', read_barrier: '' @ show_nat (unat (read_barrier c)) @
     '', wait_mask: '' @ show_nat (unat (wait_mask c)) @ '', reuse: '' @ show_nat (unat (reuse c)) @ '' }''"

definition hex_char :: "nat \<Rightarrow> char" where
  "hex_char d = (if d < 10 then char_of (48 + d) else char_of (87 + d))"

fun show_hex :: "nat \<Rightarrow> string" where
  "show_hex n = (if n < 16 then [hex_char n] else show_hex (n div 16) @ [hex_char (n mod 16)])"

declare show_hex.simps [simp del]

definition show_hex3 :: "nat \<Rightarrow> string" where
  "show_hex3 n = (let s = show_hex n in replicate (3 - length s) (CHR ''0'') @ s)"

subsection \<open>Classification\<close>

definition is_gpr :: "Reg \<Rightarrow> bool" where
  "is_gpr r = (case r of Reg_R _ \<Rightarrow> True | RZ \<Rightarrow> True | _ \<Rightarrow> False)"

definition is_pred :: "Reg \<Rightarrow> bool" where
  "is_pred r = (case r of Reg_P n \<Rightarrow> n < 8 | PT \<Rightarrow> True | _ \<Rightarrow> False)"

lemma is_gpr_encode: "is_gpr r \<Longrightarrow> \<exists>n. encode_gpr r = (Ok n :: (u8, 'e) outcome)"
  by (cases r) (auto simp: is_gpr_def)

lemma is_pred_encode: "is_pred r \<Longrightarrow> \<exists>n. encode_pred r = (Ok n :: (u8, 'e) outcome)"
  by (cases r) (auto simp: is_pred_def)

text \<open>An encoded \<open>S2R\<close> identifies the register that is read.\<close>

lemma encode_sreg_inj: "encode_sreg a = encode_sreg b \<longleftrightarrow> a = b"
  by (cases a; cases b) simp_all

end
