(* ===== verification/Sass_Encoding.thy ===== *)
theory Sass_Encoding
  imports Sass_Types
begin

text \<open>
  The SM120 instruction encoder (\<open>nvidia_sass/src/encoding/\<close>) and the validation of an encoded
  instruction (\<open>roundtrip.rs\<close>).

  \<^item> \<open>control_codes_encode\<close>, \<open>control_codes_decode\<close>: the 21-bit scheduling word (\<open>control_codes.rs\<close>);
  \<^item> \<open>OPCODE_TABLE\<close> \<dots> \<open>encode_nop\<close>, \<open>encode_instruction_bits\<close>, \<open>sm120_encode\<close>: \<open>sm120.rs\<close>;
  \<^item> \<open>encode_sass\<close>, \<open>encode_kernel\<close>: the version dispatch of \<open>encoding/mod.rs\<close>;
  \<^item> \<open>validate_roundtrip\<close>: the decoder-side check.

  The lemmas describe a 64-bit instruction word by its bit fields (\<open>field k n\<close> is bits
  \<open>[k + n - 1 : k]\<close>) and show which fields an encoder fills, so that no operand can disturb the
  opcode, the guard predicate or the destination.
\<close>

subsection \<open>Control codes\<close>

definition control_codes_encode :: "ControlCodes \<Rightarrow> u64" where
  "control_codes_encode cc =
     (ucast (stall cc) AND 0xF) OR
     push_bit 4 (of_bool (yield_flag cc) AND 1) OR
     push_bit 5 (ucast (write_barrier cc) AND 0x7) OR
     push_bit 8 (ucast (read_barrier cc) AND 0x7) OR
     push_bit 11 (ucast (wait_mask cc) AND 0x3F) OR
     push_bit 17 (ucast (reuse cc) AND 0xF)"

definition control_codes_decode :: "u64 \<Rightarrow> ControlCodes" where
  "control_codes_decode w =
     \<lparr>stall = ucast (w AND 0xF),
      yield_flag = (drop_bit 4 w AND 1 \<noteq> 0),
      write_barrier = ucast (drop_bit 5 w AND 0x7),
      read_barrier = ucast (drop_bit 8 w AND 0x7),
      wait_mask = ucast (drop_bit 11 w AND 0x3F),
      reuse = ucast (drop_bit 17 w AND 0xF)\<rparr>"

subsection \<open>Opcodes and predicates\<close>

text \<open>Collecting the entries into a map keeps the last one of a repeated key.\<close>

definition opcode_entries :: "(string \<times> u16) list" where
  "opcode_entries = [
     (''LDG'', 0x380), (''LDG.E'', 0x381), (''STG'', 0x385), (''STG.E'', 0x386), (''LDS'', 0x388),
     (''STS'', 0x389), (''LDL'', 0x38C), (''STL'', 0x38D), (''LDC'', 0x390), (''ATOMG'', 0x3A8),
     (''ATOMS'', 0x3A9), (''RED'', 0x3AC), (''IADD'', 0x210), (''IADD3'', 0x211), (''IMAD'', 0x214),
     (''IMAD.WIDE'', 0x215), (''IMUL'', 0x218), (''ISETP'', 0x21C), (''ISET'', 0x21D), (''IABS'', 0x220),
     (''INEG'', 0x221), (''FADD'', 0x300), (''FMUL'', 0x304), (''FFMA'', 0x308), (''FSETP'', 0x30C),
     (''FSET'', 0x30D), (''FABS'', 0x310), (''FNEG'', 0x311), (''MUFU'', 0x318), (''DADD'', 0x320),
     (''DMUL'', 0x324), (''DFMA'', 0x328), (''LOP'', 0x200), (''LOP3'', 0x201), (''SHL'', 0x204),
     (''SHR'', 0x205), (''BFE'', 0x208), (''BFI'', 0x209), (''FLO'', 0x20C), (''POPC'', 0x20D),
     (''I2I'', 0x340), (''I2F'', 0x344), (''F2I'', 0x348), (''F2F'', 0x34C), (''MOV'', 0x100),
     (''MOV32I'', 0x101), (''PRMT'', 0x104), (''SEL'', 0x108), (''SHFL'', 0x10C), (''S2R'', 0x110),
     (''CS2R'', 0x114), (''BRA'', 0x000), (''BRX'', 0x001), (''JMP'', 0x004), (''JMX'', 0x005),
     (''CAL'', 0x008), (''JCAL'', 0x009), (''RET'', 0x00C), (''EXIT'', 0x010), (''BAR'', 0x020),
     (''DEPBAR'', 0x024), (''MEMBAR'', 0x028), (''PSETP'', 0x180), (''PLOP3'', 0x184), (''P2R'', 0x188),
     (''R2P'', 0x18C), (''HADD2'', 0x360), (''HMUL2'', 0x364), (''HFMA2'', 0x368), (''HMMA'', 0x3C0),
     (''IMMA'', 0x3C4), (''TEX'', 0x400), (''TLD'', 0x404), (''TLD4'', 0x408), (''TXQ'', 0x40C),
     (''NOP'', 0x7FF)]"

definition OPCODE_TABLE :: "string \<rightharpoonup> u16" where
  "OPCODE_TABLE = map_of (rev opcode_entries)"

definition lookup_opcode :: "string \<Rightarrow> (u16, NvSassError) outcome" where
  "lookup_opcode mn =
     (case OPCODE_TABLE mn of
        Some op \<Rightarrow> Ok op
      | None \<Rightarrow>
          (case find_char (\<lambda>c. c = CHR ''.'') mn of
             Some dot_pos \<Rightarrow>
               (case OPCODE_TABLE (take dot_pos mn) of
                  Some op \<Rightarrow> Ok op
                | None \<Rightarrow> Err (EncodingError mn ''unknown opcode mnemonic''))
           | None \<Rightarrow> Err (EncodingError mn ''unknown opcode mnemonic'')))"

definition lookup_opcode_bits :: "string \<Rightarrow> (u16, NvSassError) outcome" where
  "lookup_opcode_bits mn = lookup_opcode mn"

definition encode_predicate :: "Predicate option \<Rightarrow> (u64, NvSassError) outcome" where
  "encode_predicate p =
     (case p of
        Some q \<Rightarrow>
          obind (encode_pred (preg q)) (\<lambda>reg_bits.
          let neg_bit = (if negated q then 1 else 0) in
          Ok (push_bit 19 neg_bit OR push_bit 16 (ucast reg_bits)))
      | None \<Rightarrow> Ok (push_bit 16 7))"

subsection \<open>Fields\<close>

definition opcode_field :: "string \<Rightarrow> (u64, NvSassError) outcome" where
  "opcode_field mn = obind (lookup_opcode mn) (\<lambda>op. Ok (push_bit 52 (ucast op)))"

definition dst_field :: "SassInst \<Rightarrow> (u64, NvSassError) outcome" where
  "dst_field inst =
     (case dst inst of
        Some r \<Rightarrow> obind (encode_gpr r) (\<lambda>n. Ok (ucast n))
      | None \<Rightarrow> Ok 255)"

definition src_reg_field :: "Operand \<Rightarrow> nat \<Rightarrow> (u64, NvSassError) outcome" where
  "src_reg_field op shift =
     (case op of
        OpReg r \<Rightarrow> obind (encode_gpr r) (\<lambda>n. Ok (push_bit shift (ucast n)))
      | _ \<Rightarrow> Ok (push_bit shift 255))"

definition imm20_field :: "i32 \<Rightarrow> u64" where
  "imm20_field v = push_bit 20 (ucast (v AND 0xFFFFF))"

definition imm32_field :: "i32 \<Rightarrow> u64" where
  "imm32_field v = push_bit 20 (ucast v)"

subsection \<open>Encoders per instruction class\<close>

definition encode_alu3 :: "SassInst \<Rightarrow> (u64, NvSassError) outcome" where
  "encode_alu3 inst =
     obind (opcode_field (mnemonic (opcode inst))) (\<lambda>op.
     obind (encode_predicate (pred inst)) (\<lambda>p.
     obind (dst_field inst) (\<lambda>d.
     obind (if length (srcs inst) \<ge> 1 then src_reg_field (srcs inst ! 0) 8 else Ok 0) (\<lambda>s1.
     obind (if length (srcs inst) \<ge> 2
            then (case srcs inst ! 1 of Imm20 v \<Rightarrow> Ok (imm20_field v) | other \<Rightarrow> src_reg_field other 20)
            else Ok 0) (\<lambda>s2.
     obind (if length (srcs inst) \<ge> 3 then src_reg_field (srcs inst ! 2) 28 else Ok 0) (\<lambda>s3.
     Ok (op OR p OR d OR s1 OR s2 OR s3)))))))"

definition encode_alu2 :: "SassInst \<Rightarrow> (u64, NvSassError) outcome" where
  "encode_alu2 inst =
     obind (opcode_field (mnemonic (opcode inst))) (\<lambda>op.
     obind (encode_predicate (pred inst)) (\<lambda>p.
     obind (dst_field inst) (\<lambda>d.
     obind (if length (srcs inst) \<ge> 1
            then (case srcs inst ! 0 of
                    Imm32 v \<Rightarrow> Ok (imm32_field v)
                  | Imm20 v \<Rightarrow> Ok (imm20_field v)
                  | other \<Rightarrow> src_reg_field other 8)
            else Ok 0) (\<lambda>s1.
     Ok (op OR p OR d OR s1)))))"

definition encode_fma :: "SassInst \<Rightarrow> (u64, NvSassError) outcome" where
  "encode_fma inst =
     obind (opcode_field (mnemonic (opcode inst))) (\<lambda>op.
     obind (encode_predicate (pred inst)) (\<lambda>p.
     obind (dst_field inst) (\<lambda>d.
     obind (if length (srcs inst) \<ge> 1 then src_reg_field (srcs inst ! 0) 8 else Ok 0) (\<lambda>s1.
     obind (if length (srcs inst) \<ge> 2
            then (case srcs inst ! 1 of Imm20 v \<Rightarrow> Ok (imm20_field v) | other \<Rightarrow> src_reg_field other 20)
            else Ok 0) (\<lambda>s2.
     obind (if length (srcs inst) \<ge> 3 then src_reg_field (srcs inst ! 2) 28 else Ok 0) (\<lambda>s3.
     Ok (op OR p OR d OR s1 OR s2 OR s3)))))))"

definition encode_load :: "SassInst \<Rightarrow> (u64, NvSassError) outcome" where
  "encode_load inst =
     obind (opcode_field (mnemonic (opcode inst))) (\<lambda>op.
     obind (encode_predicate (pred inst)) (\<lambda>p.
     obind (dst_field inst) (\<lambda>d.
     obind (case srcs inst of
              [] \<Rightarrow> Ok 0
            | src # _ \<Rightarrow>
                (case src of
                   Memory base offset \<Rightarrow>
                     obind (encode_gpr base) (\<lambda>b.
                     Ok (push_bit 8 (ucast b) OR push_bit 20 (ucast offset AND 0xFFFFFFFF)))
                 | OpReg r \<Rightarrow> obind (encode_gpr r) (\<lambda>b. Ok (push_bit 8 (ucast b)))
                 | SReg sr \<Rightarrow> Ok (push_bit 20 (ucast (encode_sreg sr)))
                 | _ \<Rightarrow> Ok 0)) (\<lambda>s.
     Ok (op OR p OR d OR s)))))"

definition encode_store :: "SassInst \<Rightarrow> (u64, NvSassError) outcome" where
  "encode_store inst =
     obind (opcode_field (mnemonic (opcode inst))) (\<lambda>op.
     obind (encode_predicate (pred inst)) (\<lambda>p.
     obind (case srcs inst of
              [] \<Rightarrow> Ok 0
            | addr # _ \<Rightarrow>
                (case addr of
                   Memory base offset \<Rightarrow>
                     obind (encode_gpr base) (\<lambda>b.
                     Ok (push_bit 8 (ucast b) OR push_bit 20 (ucast offset AND 0xFFFFFFFF)))
                 | _ \<Rightarrow> Ok 0)) (\<lambda>s.
     obind (dst_field inst) (\<lambda>d.
     Ok (op OR p OR s OR d)))))"

definition encode_branch :: "SassInst \<Rightarrow> (u64, NvSassError) outcome" where
  "encode_branch inst =
     obind (opcode_field (mnemonic (opcode inst))) (\<lambda>op.
     obind (encode_predicate (pred inst)) (\<lambda>p.
     obind (case srcs inst of
              [] \<Rightarrow> Ok 0
            | src # _ \<Rightarrow>
                (case src of
                   BranchTarget target \<Rightarrow> Ok (push_bit 20 (ucast target AND 0xFFFFFFFF))
                 | OpReg r \<Rightarrow> obind (encode_gpr r) (\<lambda>b. Ok (push_bit 8 (ucast b)))
                 | _ \<Rightarrow> Ok 0)) (\<lambda>s.
     Ok (op OR p OR s))))"

definition encode_comparison :: "SassInst \<Rightarrow> (u64, NvSassError) outcome" where
  "encode_comparison inst =
     obind (opcode_field (mnemonic (opcode inst))) (\<lambda>op.
     obind (encode_predicate (pred inst)) (\<lambda>p.
     obind (dst_field inst) (\<lambda>d.
     obind (if length (srcs inst) \<ge> 1 then src_reg_field (srcs inst ! 0) 8 else Ok 0) (\<lambda>s1.
     obind (if length (srcs inst) \<ge> 2
            then (case srcs inst ! 1 of Imm20 v \<Rightarrow> Ok (imm20_field v) | other \<Rightarrow> src_reg_field other 20)
            else Ok 0) (\<lambda>s2.
     Ok (op OR p OR d OR s1 OR s2))))))"

definition encode_sync :: "SassInst \<Rightarrow> (u64, NvSassError) outcome" where
  "encode_sync inst =
     obind (opcode_field (mnemonic (opcode inst))) (\<lambda>op.
     obind (encode_predicate (pred inst)) (\<lambda>p.
     obind (dst_field inst) (\<lambda>d.
     obind (if length (srcs inst) \<ge> 1 then src_reg_field (srcs inst ! 0) 8 else Ok 0) (\<lambda>s1.
     Ok (op OR p OR d OR s1)))))"

fun mufu_code :: "MufuOp \<Rightarrow> u8" where
  "mufu_code Rcp = 0"
| "mufu_code Rsq = 1"
| "mufu_code Mufu_Sin = 2"
| "mufu_code Mufu_Cos = 3"
| "mufu_code Ex2 = 4"
| "mufu_code Lg2 = 5"
| "mufu_code Rcp64h = 6"
| "mufu_code Rsq64h = 7"

fun mufu_bits :: "Modifier list \<Rightarrow> u64" where
  "mufu_bits [] = 0"
| "mufu_bits (MufuOpMod op # ms) = push_bit 20 (ucast (mufu_code op)) OR mufu_bits ms"
| "mufu_bits (_ # ms) = mufu_bits ms"

definition encode_special :: "SassInst \<Rightarrow> (u64, NvSassError) outcome" where
  "encode_special inst =
     obind (opcode_field (mnemonic (opcode inst))) (\<lambda>op.
     obind (encode_predicate (pred inst)) (\<lambda>p.
     obind (dst_field inst) (\<lambda>d.
     obind (case srcs inst of
              [] \<Rightarrow> Ok 0
            | src # _ \<Rightarrow>
                (case src of
                   SReg sr \<Rightarrow> Ok (push_bit 20 (ucast (encode_sreg sr)))
                 | OpReg r \<Rightarrow> obind (encode_gpr r) (\<lambda>b. Ok (push_bit 8 (ucast b)))
                 | Imm20 v \<Rightarrow> Ok (imm20_field v)
                 | _ \<Rightarrow> Ok 0)) (\<lambda>s1.
     obind (if length (srcs inst) \<ge> 2 then src_reg_field (srcs inst ! 1) 20 else Ok 0) (\<lambda>s2.
     Ok (op OR p OR d OR s1 OR mufu_bits (modifiers inst) OR s2))))))"

definition encode_nop :: "SassInst \<Rightarrow> (u64, NvSassError) outcome" where
  "encode_nop inst =
     obind (opcode_field (mnemonic (opcode inst))) (\<lambda>op.
     obind (encode_predicate (pred inst)) (\<lambda>p.
     Ok (op OR p)))"

definition encode_instruction_bits :: "SassInst \<Rightarrow> (u64, NvSassError) outcome" where
  "encode_instruction_bits inst =
     (case opclass (opcode inst) of
        Alu3 \<Rightarrow> encode_alu3 inst
      | Alu2 \<Rightarrow> encode_alu2 inst
      | Fma \<Rightarrow> encode_fma inst
      | Load \<Rightarrow> encode_load inst
      | Store \<Rightarrow> encode_store inst
      | Branch \<Rightarrow> encode_branch inst
      | Comparison \<Rightarrow> encode_comparison inst
      | Sync \<Rightarrow> encode_sync inst
      | Special \<Rightarrow> encode_special inst
      | Nop \<Rightarrow> encode_nop inst)"

definition sm120_encode :: "SassInst \<Rightarrow> (bytes, NvSassError) outcome" where
  "sm120_encode inst =
     obind (encode_instruction_bits inst) (\<lambda>inst_lo.
     let ctrl_hi = control_codes_encode (control inst) in
     Ok (le_u64 inst_lo @ le_u64 ctrl_hi))"

subsection \<open>Version dispatch\<close>

definition encode_sass :: "SassInst \<Rightarrow> u32 \<Rightarrow> (bytes, NvSassError) outcome" where
  "encode_sass inst sm =
     (if sm = 120 \<or> sm = 121 then sm120_encode inst else Err (UnsupportedSmVersion sm))"

definition encode_kernel :: "SassKernel \<Rightarrow> u32 \<Rightarrow> (bytes list, NvSassError) outcome" where
  "encode_kernel k sm = omap_list (\<lambda>inst. encode_sass inst sm) (instructions k)"

subsection \<open>Validation of an encoded instruction\<close>

definition encoding_error :: "SassInst \<Rightarrow> string \<Rightarrow> (unit, NvSassError) outcome" where
  "encoding_error inst msg = Err (EncodingError (mnemonic (opcode inst)) msg)"

definition check_control :: "SassInst \<Rightarrow> u64 \<Rightarrow> (unit, NvSassError) outcome" where
  "check_control inst hi =
     (let decoded_cc = control_codes_decode hi in
      if decoded_cc \<noteq> control inst then
        encoding_error inst (''control code mismatch: encoded '' @ debug_control (control inst) @
          '', decoded '' @ debug_control decoded_cc)
      else Ok ())"

definition check_opcode :: "SassInst \<Rightarrow> u64 \<Rightarrow> (unit, NvSassError) outcome" where
  "check_opcode inst lo =
     (let opcode_bits = ucast (drop_bit 52 lo AND 0xFFF) :: u16 in
      obind (lookup_opcode_bits (mnemonic (opcode inst))) (\<lambda>expected_bits.
      if opcode_bits \<noteq> expected_bits then
        encoding_error inst (''opcode bits mismatch: got 0x'' @ show_hex3 (unat opcode_bits) @
          '', expected 0x'' @ show_hex3 (unat expected_bits))
      else Ok ()))"

definition check_dst :: "SassInst \<Rightarrow> u64 \<Rightarrow> (unit, NvSassError) outcome" where
  "check_dst inst lo =
     (case dst inst of
        None \<Rightarrow> Ok ()
      | Some d \<Rightarrow>
          if is_gpr d then
            (let dst_bits = ucast (lo AND 0xFF) :: u8 in
             obind (encode_gpr d) (\<lambda>expected_dst.
             if dst_bits \<noteq> expected_dst then
               encoding_error inst (''dst register mismatch: got '' @ show_nat (unat dst_bits) @
                 '', expected '' @ show_nat (unat expected_dst))
             else Ok ()))
          else Ok ())"

definition check_pred :: "SassInst \<Rightarrow> u64 \<Rightarrow> (unit, NvSassError) outcome" where
  "check_pred inst lo =
     (let pred_reg = ucast (drop_bit 16 lo AND 0x7) :: u8;
          pred_neg = (drop_bit 19 lo AND 0x1 \<noteq> 0) in
      case pred inst of
        Some p \<Rightarrow>
          obind (encode_pred (preg p)) (\<lambda>expected.
          if pred_reg \<noteq> expected \<or> pred_neg \<noteq> negated p then encoding_error inst ''predicate mismatch''
          else Ok ())
      | None \<Rightarrow>
          if pred_reg \<noteq> 7 then encoding_error inst (''expected PT (7), got '' @ show_nat (unat pred_reg))
          else Ok ())"

definition validate_roundtrip :: "SassInst \<Rightarrow> u32 \<Rightarrow> (unit, NvSassError) outcome" where
  "validate_roundtrip inst sm =
     obind (encode_sass inst sm) (\<lambda>encoded.
     let lo = from_le (subslice 0 8 encoded) :: u64;
         hi = from_le (subslice 8 16 encoded) :: u64 in
     obind (check_control inst hi) (\<lambda>_.
     obind (check_opcode inst lo) (\<lambda>_.
     obind (check_dst inst lo) (\<lambda>_.
     check_pred inst lo))))"

subsection \<open>Bit fields\<close>

definition field :: "nat \<Rightarrow> nat \<Rightarrow> u64 \<Rightarrow> u64" where
  "field k n w = take_bit n (drop_bit k w)"

lemma field_masks:
  "drop_bit k (w :: u64) AND 1 = field k 1 w" "drop_bit k (w :: u64) AND 7 = field k 3 w"
  "drop_bit k (w :: u64) AND 15 = field k 4 w" "drop_bit k (w :: u64) AND 63 = field k 6 w"
  "drop_bit k (w :: u64) AND 255 = field k 8 w" "drop_bit k (w :: u64) AND 4095 = field k 12 w"
  "w AND 15 = field 0 4 w" "w AND 255 = field 0 8 w"
  by (simp_all add: field_def take_bit_eq_mask mask_eq_exp_minus_1 of_bool_def)

lemma field_drop_bit [simp]: "field 0 n (drop_bit k w) = field k n w"
  by (simp add: field_def)

lemma field_or: "field k n (a OR b) = field k n a OR field k n b"
  by (simp add: field_def take_bit_or drop_bit_or)

lemma field_0 [simp]: "field k n 0 = 0"
  by (simp add: field_def)

lemma bit_field: "bit (field k n w) i \<longleftrightarrow> i < n \<and> bit w (k + i)"
  by (simp add: field_def bit_simps)

lemma field_push_off:
  "s + m \<le> k \<or> k + n \<le> s \<Longrightarrow> field k n (push_bit s (take_bit m w)) = 0"
  by (rule bit_word_eqI) (auto simp: bit_field bit_simps)

lemma field_push_same: "k + m \<le> 64 \<Longrightarrow> m \<le> n \<Longrightarrow> field k n (push_bit k (take_bit m w)) = take_bit m w"
  by (rule bit_word_eqI) (auto simp: bit_field bit_simps)

lemma ucast_width: "LENGTH('a) \<le> 64 \<Longrightarrow> (ucast (x :: 'a::len word) :: u64) = take_bit LENGTH('a) (ucast x)"
  by (rule bit_word_eqI) (auto simp: bit_simps dest: bit_imp_le_length)


text \<open>A source operand only touches bits \<open>[15:8]\<close> and \<open>[51:20]\<close>.\<close>

definition src_word :: "u64 \<Rightarrow> bool" where
  "src_word w \<longleftrightarrow> field 0 8 w = 0 \<and> field 16 4 w = 0 \<and> field 52 12 w = 0"

lemma src_word_0 [simp]: "src_word 0"
  by (simp add: src_word_def)

lemma src_word_or [simp]: "src_word a \<Longrightarrow> src_word b \<Longrightarrow> src_word (a OR b)"
  by (simp add: src_word_def field_or)

lemma src_word_push:
  "m \<le> 8 \<and> s = 8 \<or> 20 \<le> s \<and> s + m \<le> 52 \<Longrightarrow> src_word (push_bit s (take_bit m w))"
  unfolding src_word_def by (intro conjI field_push_off) auto

lemma src_word_reg [simp]:
  "s = 8 \<or> s = 20 \<or> s = 28 \<Longrightarrow> src_word (push_bit s (ucast (x :: u8)))"
  using src_word_push [of 8 s "ucast x"] ucast_width [of x] by auto

lemma src_word_u32 [simp]: "src_word (push_bit 20 (ucast (x :: u32)))"
  using src_word_push [of 32 20 "ucast x"] ucast_width [of x] by auto

lemma and_32_ones: "(ucast (x :: u32) :: u64) AND 0xFFFFFFFF = ucast x"
proof -
  have "(ucast x :: u64) AND 0xFFFFFFFF = take_bit 32 (ucast x)"
    by (simp add: take_bit_eq_mask mask_eq_exp_minus_1)
  then show ?thesis using ucast_width [of x] by simp
qed

lemma src_word_imm [simp]: "src_word (imm20_field v)" "src_word (imm32_field v)"
  by (simp_all add: imm20_field_def imm32_field_def)

lemma src_word_rz [simp]: "s = 8 \<or> s = 20 \<or> s = 28 \<Longrightarrow> src_word (push_bit s 255)"
  using src_word_reg [of s 255] by simp

lemma src_reg_field_word:
  "src_reg_field op s = Ok w \<Longrightarrow> s = 8 \<or> s = 20 \<or> s = 28 \<Longrightarrow> src_word w"
  unfolding src_reg_field_def
  by (cases op; simp only: Operand.case obind_Ok_iff outcome.inject; metis src_word_reg src_word_rz)

lemma src_word_mufu [simp]: "src_word (mufu_bits ms)"
  by (induction ms rule: mufu_bits.induct) auto

definition encodes_dst :: "SassInst \<Rightarrow> bool" where
  "encodes_dst inst \<longleftrightarrow> opclass (opcode inst) \<noteq> Branch \<and> opclass (opcode inst) \<noteq> Nop"


lemma encode_src2_word:
  "(case op of Imm20 v \<Rightarrow> Ok (imm20_field v) | other \<Rightarrow> src_reg_field other 20) = Ok w \<Longrightarrow> src_word w"
  by (cases op) (auto dest: src_reg_field_word)

definition shape_rest :: "SassInst \<Rightarrow> u64 \<Rightarrow> bool" where
  "shape_rest inst x \<longleftrightarrow>
     (\<exists>d r. src_word r \<and> x = d OR r \<and>
        (if encodes_dst inst then dst_field inst = Ok d else d = 0))"

definition bits_shape :: "SassInst \<Rightarrow> u64 \<Rightarrow> bool" where
  "bits_shape inst w \<longleftrightarrow>
     (\<exists>op p x. lookup_opcode (mnemonic (opcode inst)) = Ok op \<and> encode_predicate (pred inst) = Ok p \<and>
        shape_rest inst x \<and> w = push_bit 52 (ucast op) OR p OR x)"

lemma shape_rest_dst:
  assumes "dst_field inst = Ok d" "encodes_dst inst"
  shows "shape_rest inst d" "src_word r \<Longrightarrow> shape_rest inst (d OR r)" "src_word r \<Longrightarrow> shape_rest inst (r OR d)"
  using assms src_word_0 unfolding shape_rest_def by (metis or.right_neutral or.commute)+

lemma shape_rest_no_dst: "\<not> encodes_dst inst \<Longrightarrow> src_word r \<Longrightarrow> shape_rest inst r"
  by (simp add: shape_rest_def)

lemma bits_shapeI:
  assumes "opcode_field (mnemonic (opcode inst)) = Ok op" "encode_predicate (pred inst) = Ok p"
  shows "shape_rest inst x \<Longrightarrow> bits_shape inst (op OR p OR x)" "shape_rest inst 0 \<Longrightarrow> bits_shape inst (op OR p)"
  using assms unfolding bits_shape_def opcode_field_def obind_Ok_iff outcome.inject
  by (metis or.right_neutral)+

lemmas encoder_defs = encode_alu3_def encode_alu2_def encode_fma_def encode_load_def encode_store_def
  encode_branch_def encode_comparison_def encode_sync_def encode_special_def encode_nop_def

lemmas shape_intros = bits_shapeI shape_rest_dst shape_rest_no_dst

lemmas src_word_intros = src_word_0 src_word_or src_word_imm src_word_reg src_word_u32 src_word_mufu

lemmas shape_dests = src_reg_field_word [of _ 8, simplified] src_reg_field_word [of _ 20, simplified]
  src_reg_field_word [of _ 28, simplified] encode_src2_word

lemma encode_bits_shape:
  assumes "encode_instruction_bits inst = Ok w"
  shows "bits_shape inst w"
proof (cases "opclass (opcode inst)")
  case Alu3
  moreover have "encodes_dst inst" by (simp add: Alu3 encodes_dst_def)
  ultimately show ?thesis
    using assms by (auto simp: encode_instruction_bits_def encoder_defs and_32_ones
        split: if_splits intro: shape_intros intro!: src_word_intros dest!: shape_dests)
next
  case Alu2
  moreover have "encodes_dst inst" by (simp add: Alu2 encodes_dst_def)
  ultimately show ?thesis
    using assms by (auto simp: encode_instruction_bits_def encoder_defs and_32_ones
        split: if_splits Operand.splits intro: shape_intros intro!: src_word_intros dest!: shape_dests)
next
  case Fma
  moreover have "encodes_dst inst" by (simp add: Fma encodes_dst_def)
  ultimately show ?thesis
    using assms by (auto simp: encode_instruction_bits_def encoder_defs and_32_ones
        split: if_splits intro: shape_intros intro!: src_word_intros dest!: shape_dests)
next
  case Load
  moreover have "encodes_dst inst" by (simp add: Load encodes_dst_def)
  ultimately show ?thesis
    using assms by (auto simp: encode_instruction_bits_def encoder_defs and_32_ones
        split: if_splits list.splits Operand.splits intro: shape_intros intro!: src_word_intros dest!: shape_dests)
next
  case Store
  moreover have "encodes_dst inst" by (simp add: Store encodes_dst_def)
  ultimately show ?thesis
    using assms by (auto simp: encode_instruction_bits_def encoder_defs and_32_ones
        split: if_splits list.splits Operand.splits intro: shape_intros intro!: src_word_intros dest!: shape_dests)
next
  case Branch
  moreover have "\<not> encodes_dst inst" by (simp add: Branch encodes_dst_def)
  ultimately show ?thesis
    using assms by (auto simp: encode_instruction_bits_def encoder_defs and_32_ones
        split: if_splits list.splits Operand.splits intro: shape_intros intro!: src_word_intros dest!: shape_dests)
next
  case Comparison
  moreover have "encodes_dst inst" by (simp add: Comparison encodes_dst_def)
  ultimately show ?thesis
    using assms by (auto simp: encode_instruction_bits_def encoder_defs and_32_ones
        split: if_splits intro: shape_intros intro!: src_word_intros dest!: shape_dests)
next
  case Sync
  moreover have "encodes_dst inst" by (simp add: Sync encodes_dst_def)
  ultimately show ?thesis
    using assms by (auto simp: encode_instruction_bits_def encoder_defs and_32_ones
        split: if_splits intro: shape_intros intro!: src_word_intros dest!: shape_dests)
next
  case Special
  moreover have "encodes_dst inst" by (simp add: Special encodes_dst_def)
  ultimately show ?thesis
    using assms by (auto simp: encode_instruction_bits_def encoder_defs and_32_ones
        split: if_splits list.splits Operand.splits intro: shape_intros intro!: src_word_intros dest!: shape_dests)
next
  case Nop
  moreover have "\<not> encodes_dst inst" by (simp add: Nop encodes_dst_def)
  ultimately show ?thesis
    using assms by (auto simp: encode_instruction_bits_def encoder_defs and_32_ones
        split: if_splits intro: shape_intros intro!: src_word_intros dest!: shape_dests)
qed

subsection \<open>Reading the fields back\<close>

lemma opcode_entries_small: "list_all (\<lambda>(m, op). op < 0x1000) opcode_entries"
  by code_simp

lemma OPCODE_TABLE_small: "OPCODE_TABLE mn = Some op \<Longrightarrow> op < 0x1000"
  using opcode_entries_small unfolding OPCODE_TABLE_def list_all_iff by (auto dest!: map_of_SomeD)

lemma lookup_opcode_small: "lookup_opcode mn = Ok op \<Longrightarrow> op < 0x1000"
  by (auto simp: lookup_opcode_def split: option.splits dest: OPCODE_TABLE_small)

lemma word_small_take_bit: "unat x < 2 ^ n \<Longrightarrow> n \<le> LENGTH('a) \<Longrightarrow> take_bit n (x :: 'a::len word) = x"
  by (rule word_unat_eq_iff [THEN iffD2]) (simp add: unsigned_take_bit_eq take_bit_nat_eq_self)

lemma ucast_small_take_bit:
  "unat x < 2 ^ n \<Longrightarrow> n \<le> LENGTH('a) \<Longrightarrow> LENGTH('a) \<le> 64 \<Longrightarrow>
   (ucast (x :: 'a::len word) :: u64) = take_bit n (ucast x)"
  using word_small_take_bit [of x n] unsigned_take_bit_eq [of n x]
  by (metis (no_types, opaque_lifting)  unsigned_take_bit_eq order_trans)

lemma ucast_ucast_u64 [simp]: "LENGTH('a) \<le> 64 \<Longrightarrow> ucast (ucast (x :: 'a::len word) :: u64) = x"
  by (rule bit_word_eqI) (auto simp: bit_simps)

definition pred_ok :: "Predicate option \<Rightarrow> bool" where
  "pred_ok p = (case p of None \<Rightarrow> True | Some q \<Rightarrow> is_pred (preg q))"

definition pred_reads :: "Predicate option \<Rightarrow> u8 \<Rightarrow> bool \<Rightarrow> bool" where
  "pred_reads p n neg \<longleftrightarrow>
     (case p of None \<Rightarrow> n = 7 \<and> \<not> neg
      | Some q \<Rightarrow> encode_pred (preg q) = (Ok n :: (u8, NvSassError) outcome) \<and> neg = negated q)"

lemma encode_predicate_cases:
  assumes "encode_predicate p = Ok w"
  obtains n b where "w = push_bit 19 (take_bit 1 b) OR push_bit 16 (take_bit 8 (ucast (n :: u8)))"
    "pred_reads p n (b \<noteq> 0)" "take_bit 1 b = b"
proof (cases p)
  case None
  with assms that [of 0 7] show ?thesis
    by (auto simp: encode_predicate_def pred_reads_def)
next
  case (Some q)
  then obtain n where "encode_pred (preg q) = (Ok n :: (u8, NvSassError) outcome)"
    and "w = push_bit 19 (if negated q then 1 else 0) OR push_bit 16 (ucast n)"
    using assms by (auto simp: encode_predicate_def Let_def)
  with Some that [of "of_bool (negated q)" n] ucast_width [of n] show ?thesis
    by (auto simp: pred_reads_def)
qed

lemma field_predicate_off:
  assumes "encode_predicate p = Ok w"
  shows "field 52 12 w = 0" "field 0 8 w = 0"
proof -
  from assms obtain n b
    where w: "w = push_bit 19 (take_bit 1 b) OR push_bit 16 (take_bit 8 (ucast (n :: u8)))"
    by (rule encode_predicate_cases)
  show "field 52 12 w = 0" "field 0 8 w = 0"
    unfolding w by (subst field_or, subst field_push_off, simp, subst field_push_off, simp, simp)+
qed

lemma pred_ok_small: "pred_ok p \<Longrightarrow> pred_reads p n neg \<Longrightarrow> unat n < 8"
  by (auto simp: pred_ok_def pred_reads_def is_pred_def word_less_nat_alt split: option.splits Reg.splits)

lemma field_predicate:
  assumes "encode_predicate p = Ok w" "pred_ok p"
  obtains n where "pred_reads p n (field 19 1 w \<noteq> 0)" "field 16 3 w = ucast n"
proof -
  from assms(1) obtain n b
    where w: "w = push_bit 19 (take_bit 1 b) OR push_bit 16 (take_bit 8 (ucast (n :: u8)))"
      and r: "pred_reads p n (b \<noteq> 0)" and b: "take_bit 1 b = b" by (rule encode_predicate_cases)
  from pred_ok_small [OF assms(2) r] have n: "take_bit 3 (ucast n :: u64) = ucast n"
    by (intro ucast_small_take_bit [symmetric]) auto
  then have "take_bit 8 (ucast n :: u64) = take_bit 3 (ucast n)"
    using ucast_width [of n] by simp
  with w have w: "w = push_bit 19 (take_bit 1 b) OR push_bit 16 (take_bit 3 (ucast n))" by simp
  have "field 16 3 w = ucast n"
    unfolding w by (subst field_or, subst field_push_off, simp, subst field_push_same) (use n in auto)
  moreover have "field 19 1 w = b"
    unfolding w by (subst field_or, subst field_push_same, simp, simp, subst field_push_off) (use b in auto)
  ultimately show ?thesis using r that by blast
qed

lemma field_dst:
  assumes "dst_field inst = Ok d"
  shows "field 52 12 d = 0" "field 16 n d = 0" "field 19 n d = 0" "field 0 8 d = d"
proof -
  obtain m where "d = ucast (m :: u8)"
    using assms that [of 255] by (auto simp: dst_field_def split: option.splits dest: that)
  then have d: "d = push_bit 0 (take_bit 8 d)" using ucast_width [of m] by simp
  show "field 52 12 d = 0" by (subst d) (rule field_push_off, simp)
  show "field 16 n d = 0" by (subst d) (rule field_push_off, simp)
  show "field 19 n d = 0" by (subst d) (rule field_push_off, simp)
  show "field 0 8 d = d" by (subst d, subst field_push_same) (use d in simp_all)
qed

lemma src_word_fields:
  assumes "src_word r"
  shows "field 52 12 r = 0" "field 16 3 r = 0" "field 19 1 r = 0" "field 0 8 r = 0"
proof -
  have z: "field 16 4 r = 0" using assms by (simp add: src_word_def)
  have "\<not> bit r (16 + i)" if "i < 4" for i
    using arg_cong [OF z, of "\<lambda>w. bit w i"] that by (simp add: bit_field)
  from this [of 0] this [of 1] this [of 2] this [of 3]
  show "field 16 3 r = 0" "field 19 1 r = 0"
    by (auto intro!: bit_word_eqI simp: bit_field less_Suc_eq numeral_3_eq_3)
qed (use assms in \<open>auto simp: src_word_def\<close>)

lemma encode_predicate_field3:
  assumes "encode_predicate p = Ok w"
  obtains n neg where "pred_reads p n neg" "field 16 3 w = take_bit 3 (ucast n)"
proof -
  from assms obtain n b
    where w: "w = push_bit 19 (take_bit 1 b) OR push_bit 16 (take_bit 8 (ucast (n :: u8)))"
      and r: "pred_reads p n (b \<noteq> 0)" by (rule encode_predicate_cases)
  have "field 16 3 w = take_bit 3 (ucast n)"
    unfolding w by (rule bit_word_eqI) (auto simp: field_or bit_field bit_simps)
  with r that show ?thesis by blast
qed

lemma encoded_fields:
  assumes "encode_instruction_bits inst = Ok w"
  shows "\<exists>op. lookup_opcode (mnemonic (opcode inst)) = Ok op \<and> field 52 12 w = ucast op"
    and "pred_ok (pred inst) \<Longrightarrow> \<exists>n. pred_reads (pred inst) n (field 19 1 w \<noteq> 0) \<and> field 16 3 w = ucast n"
    and "encodes_dst inst \<Longrightarrow> dst_field inst = Ok (field 0 8 w)"
    and "\<exists>n neg. pred_reads (pred inst) n neg \<and> field 16 3 w = take_bit 3 (ucast n)"
proof -
  from encode_bits_shape [OF assms] obtain op p d r
    where op: "lookup_opcode (mnemonic (opcode inst)) = Ok op" and p: "encode_predicate (pred inst) = Ok p"
      and r: "src_word r" and d: "if encodes_dst inst then dst_field inst = Ok d else d = 0"
      and w: "w = push_bit 52 (ucast op) OR p OR d OR r"
    by (auto simp: bits_shape_def shape_rest_def)
  have op12: "(ucast op :: u64) = take_bit 12 (ucast op)"
    using lookup_opcode_small [OF op] by (intro ucast_small_take_bit) (auto simp: word_less_nat_alt)
  have dz: "field 52 12 d = 0" "field 16 3 d = 0" "field 19 1 d = 0"
    using d field_dst [of inst d] by (auto split: if_splits)
  have o: "field 52 12 (push_bit 52 (ucast op)) = ucast op" "field 16 3 (push_bit 52 (ucast op)) = 0"
    "field 19 1 (push_bit 52 (ucast op)) = 0" "field 0 8 (push_bit 52 (ucast op)) = 0"
    by (subst op12, subst field_push_same, simp, simp, use op12 in simp,
        subst op12, rule field_push_off, simp, subst op12, rule field_push_off, simp,
        subst op12, rule field_push_off, simp)
  note rz = src_word_fields [OF r]
  show "\<exists>op. lookup_opcode (mnemonic (opcode inst)) = Ok op \<and> field 52 12 w = ucast op"
    using op o dz rz field_predicate_off [OF p] by (simp add: w field_or)
  show "dst_field inst = Ok (field 0 8 w)" if "encodes_dst inst"
    using that d o rz field_predicate_off [OF p] field_dst [of inst d] by (simp add: w field_or)
  show "\<exists>n. pred_reads (pred inst) n (field 19 1 w \<noteq> 0) \<and> field 16 3 w = ucast n" if "pred_ok (pred inst)"
    using field_predicate [OF p that] o dz rz by (simp add: w field_or) metis
  show "\<exists>n neg. pred_reads (pred inst) n neg \<and> field 16 3 w = take_bit 3 (ucast n)"
    using encode_predicate_field3 [OF p] o dz rz by (simp add: w field_or) metis
qed

subsection \<open>Control codes round trip\<close>

definition control_ok :: "ControlCodes \<Rightarrow> bool" where
  "control_ok cc \<longleftrightarrow> stall cc < 16 \<and> write_barrier cc < 8 \<and> read_barrier cc < 8 \<and> wait_mask cc < 64 \<and> reuse cc < 16"

lemma small_masks:
  "(w :: u64) AND 15 = take_bit 4 w" "(w :: u64) AND 7 = take_bit 3 w" "(w :: u64) AND 63 = take_bit 6 w"
  "(w :: u64) AND 1 = take_bit 1 w"
  by (simp_all add: take_bit_eq_mask mask_eq_exp_minus_1)

lemma take_bit_self_iff: "n \<le> 8 \<Longrightarrow> take_bit n (x :: u8) = x \<longleftrightarrow> unat x < 2 ^ n"
  using word_small_take_bit [of x n] take_bit_nat_eq_self_iff [of n "unat x"]
  by (metis (mono_tags, lifting) len_bit0 len_num1 mult.right_neutral mult_2 numeral_Bit0 numeral_One unsigned_take_bit_eq)

lemma control_word_fields:
  assumes w: "w = push_bit 0 (take_bit 4 a) OR push_bit 4 (take_bit m b) OR push_bit 5 (take_bit 3 c) OR
    push_bit 8 (take_bit 3 d) OR push_bit 11 (take_bit 6 e) OR push_bit 17 (take_bit 4 f)" and m: "m = 1"
  shows "field 0 4 w = take_bit 4 a" "field 4 m w = take_bit m b" "field 5 3 w = take_bit 3 c"
    "field 8 3 w = take_bit 3 d" "field 11 6 w = take_bit 6 e" "field 17 4 w = take_bit 4 f"
  unfolding w field_or using m by (simp_all add: field_push_off field_push_same del: push_bit_0_id take_bit_Suc_0)

lemma control_decode_encode:
  "control_codes_decode (control_codes_encode cc) =
     \<lparr>stall = take_bit 4 (stall cc), yield_flag = yield_flag cc, write_barrier = take_bit 3 (write_barrier cc),
      read_barrier = take_bit 3 (read_barrier cc), wait_mask = take_bit 6 (wait_mask cc), reuse = take_bit 4 (reuse cc)\<rparr>"
proof -
  have cut: "ucast (take_bit n (ucast x :: u64)) = take_bit n x" for n and x :: u8
    by (rule bit_word_eqI) (auto simp: bit_simps)
  obtain m :: nat where m: "m = 1" by simp
  let ?w = "control_codes_encode cc"
  note fs = control_word_fields [of ?w "ucast (stall cc)" m "of_bool (yield_flag cc)" "ucast (write_barrier cc)"
      "ucast (read_barrier cc)" "ucast (wait_mask cc)" "ucast (reuse cc)", OF _ m]
  have "field 0 4 ?w = take_bit 4 (ucast (stall cc))" "field 4 1 ?w = of_bool (yield_flag cc)"
    "field 5 3 ?w = take_bit 3 (ucast (write_barrier cc))" "field 8 3 ?w = take_bit 3 (ucast (read_barrier cc))"
    "field 11 6 ?w = take_bit 6 (ucast (wait_mask cc))" "field 17 4 ?w = take_bit 4 (ucast (reuse cc))"
    using fs m by (simp_all add: control_codes_encode_def small_masks)
  then show ?thesis
    by (simp add: control_codes_decode_def field_masks cut)
qed

lemma control_decode_iff: "control_codes_decode (control_codes_encode cc) = cc \<longleftrightarrow> control_ok cc"
  by (cases cc) (auto simp: control_decode_encode control_ok_def take_bit_self_iff word_less_nat_alt)

text \<open>
  Decoding the control word of a \<open>ControlCodes\<close> value gives that value back exactly when every
  component fits its field (4 bits of stall, 3 bits per barrier, 6 bits of wait mask, 4 bits of
  reuse); any other value is truncated.
\<close>

theorem control_codes_roundtrip:
  "control_codes_decode (control_codes_encode cc) = cc \<longleftrightarrow> control_ok cc"
  by (rule control_decode_iff)

subsection \<open>Validation\<close>

lemma encode_sass_parts:
  assumes "encode_sass inst sm = Ok bs"
  obtains lo where "sm = 120 \<or> sm = 121" "encode_instruction_bits inst = Ok lo"
    "from_le (subslice 0 8 bs) = lo" "from_le (subslice 8 16 bs) = control_codes_encode (control inst)"
proof -
  from assms obtain lo where lo: "encode_instruction_bits inst = Ok lo" and sm: "sm = 120 \<or> sm = 121"
    and bs: "bs = le_u64 lo @ le_u64 (control_codes_encode (control inst))"
    by (auto simp: encode_sass_def sm120_encode_def Let_def split: if_splits)
  have "from_le (subslice 0 8 bs) = lo"
    using u64_le.dec_field [of "[]" 0 8 lo] by (simp add: bs)
  moreover have "from_le (subslice 8 16 bs) = control_codes_encode (control inst)"
    using u64_le.dec_field_end [of "le_u64 lo" 8 16] by (simp add: bs)
  ultimately show ?thesis using that lo sm by blast
qed


lemma check_control_Ok: "check_control inst (control_codes_encode (control inst)) = Ok () \<longleftrightarrow> control_ok (control inst)"
  using control_decode_iff [of "control inst"]
  by (simp add: check_control_def encoding_error_def Let_def)

lemma check_opcode_Ok: "encode_instruction_bits inst = Ok lo \<Longrightarrow> check_opcode inst lo = Ok ()"
  using encoded_fields(1) [of inst lo]
  by (auto simp: check_opcode_def lookup_opcode_bits_def field_masks)

lemma check_dst_Ok:
  assumes "encode_instruction_bits inst = Ok lo" "encodes_dst inst \<or> dst inst = None"
  shows "check_dst inst lo = Ok ()"
proof (cases "dst inst")
  case (Some d)
  with assms have "dst_field inst = Ok (field 0 8 lo)" using encoded_fields(3) by auto
  with Some obtain n :: u8 where "encode_gpr d = (Ok n :: (u8, NvSassError) outcome)" and n: "field 0 8 lo = ucast n"
    by (auto simp: dst_field_def)
  then have "encode_gpr d = (Ok n :: (u8, NvSassError) outcome)" by simp
  then show ?thesis using Some n by (simp add: check_dst_def field_masks)
qed (simp add: check_dst_def)

lemma check_pred_Ok:
  assumes "encode_instruction_bits inst = Ok lo"
  shows "check_pred inst lo = Ok () \<longleftrightarrow> pred_ok (pred inst)"
proof
  assume ok: "pred_ok (pred inst)"
  then obtain n where "pred_reads (pred inst) n (field 19 1 lo \<noteq> 0)" "field 16 3 lo = ucast n"
    using encoded_fields(2) [OF assms] by blast
  then show "check_pred inst lo = Ok ()"
    by (auto simp: check_pred_def pred_reads_def field_masks Let_def split: option.splits)
next
  assume ok: "check_pred inst lo = Ok ()"
  obtain n neg where r: "pred_reads (pred inst) n neg" and f: "field 16 3 lo = take_bit 3 (ucast n)"
    using encoded_fields(4) [OF assms] by blast
  have "ucast (take_bit 3 (ucast n :: u64)) = take_bit 3 n"
    by (rule bit_word_eqI) (auto simp: bit_simps)
  with ok r f have "take_bit 3 n = n \<or> pred inst = None"
    by (auto simp: check_pred_def pred_reads_def field_masks encoding_error_def Let_def
        split: option.splits if_splits)
  with r show "pred_ok (pred inst)"
    by (auto simp: pred_ok_def pred_reads_def is_pred_def take_bit_self_iff word_less_nat_alt
        split: option.splits Reg.splits)
qed

lemma validate_roundtrip_Ok:
  assumes "encode_sass inst sm = Ok bs" "encodes_dst inst \<or> dst inst = None"
  shows "validate_roundtrip inst sm = Ok () \<longleftrightarrow> control_ok (control inst) \<and> pred_ok (pred inst)"
proof -
  from assms(1) obtain lo where lo: "encode_instruction_bits inst = Ok lo" "from_le (subslice 0 8 bs) = lo"
    and hi: "from_le (subslice 8 16 bs) = control_codes_encode (control inst)"
    by (rule encode_sass_parts)
  show ?thesis
    using check_control_Ok [of inst] check_opcode_Ok [OF lo(1)] check_dst_Ok [OF lo(1) assms(2)] check_pred_Ok [OF lo(1)]
    by (auto simp: validate_roundtrip_def assms(1) lo(2) hi Let_def)
qed

subsection \<open>Encodable instructions\<close>

definition src_gpr :: "Operand \<Rightarrow> bool" where
  "src_gpr op = (case op of OpReg r \<Rightarrow> is_gpr r | Memory base _ \<Rightarrow> is_gpr base | _ \<Rightarrow> True)"

definition sass_encodable :: "SassInst \<Rightarrow> bool" where
  "sass_encodable inst \<longleftrightarrow>
     outcome_ok (lookup_opcode (mnemonic (opcode inst))) \<noteq> None \<and> pred_ok (pred inst) \<and>
     (case dst inst of None \<Rightarrow> True | Some r \<Rightarrow> is_gpr r) \<and> list_all src_gpr (srcs inst)"


definition is_ok :: "('a, 'e) outcome \<Rightarrow> bool" where
  "is_ok m \<longleftrightarrow> outcome_ok m \<noteq> None"

lemma is_ok_iff: "is_ok m \<longleftrightarrow> (\<exists>x. m = Ok x)"
  by (cases m) (auto simp: is_ok_def outcome_ok_def)

lemma is_ok_Ok: "is_ok (Ok x)"
  by (simp add: is_ok_iff)

lemma is_ok_bind: "is_ok m \<Longrightarrow> (\<And>x. is_ok (f x)) \<Longrightarrow> is_ok (obind m f)"
  by (auto simp: is_ok_iff)

lemma is_ok_if: "(b \<Longrightarrow> is_ok m) \<Longrightarrow> (\<not> b \<Longrightarrow> is_ok n) \<Longrightarrow> is_ok (if b then m else n)"
  by simp

lemma is_ok_gpr: "is_gpr r \<Longrightarrow> is_ok (encode_gpr r)"
  by (simp add: is_ok_iff is_gpr_encode)

lemma is_ok_src: "src_gpr op \<Longrightarrow> is_ok (src_reg_field op s)"
  by (cases op) (auto simp: src_gpr_def src_reg_field_def intro: is_ok_Ok is_ok_bind is_ok_gpr)

lemma is_ok_predicate: "pred_ok p \<Longrightarrow> is_ok (encode_predicate p)"
  by (auto simp: pred_ok_def encode_predicate_def is_ok_iff Let_def is_pred_encode split: option.splits)

lemma is_ok_dst: "(case dst inst of None \<Rightarrow> True | Some r \<Rightarrow> is_gpr r) \<Longrightarrow> is_ok (dst_field inst)"
  by (auto simp: dst_field_def split: option.splits intro: is_ok_Ok is_ok_bind is_ok_gpr)

lemma is_ok_opcode: "is_ok (lookup_opcode mn) \<Longrightarrow> is_ok (opcode_field mn)"
  by (auto simp: opcode_field_def intro: is_ok_Ok is_ok_bind)

lemma is_ok_list:
  "(ops = [] \<Longrightarrow> is_ok a) \<Longrightarrow> (\<And>x xs. ops = x # xs \<Longrightarrow> is_ok (f x xs)) \<Longrightarrow>
   is_ok (case ops of [] \<Rightarrow> a | x # xs \<Rightarrow> f x xs)"
  by (cases ops) auto

lemma is_ok_operand:
  assumes "\<And>r. op = OpReg r \<Longrightarrow> is_ok (f1 r)" "\<And>v. op = Imm20 v \<Longrightarrow> is_ok (f2 v)"
    "\<And>v. op = Imm32 v \<Longrightarrow> is_ok (f3 v)" "\<And>b c. op = ConstBank b c \<Longrightarrow> is_ok (f4 b c)"
    "\<And>b c. op = Memory b c \<Longrightarrow> is_ok (f5 b c)" "\<And>b. op = BranchTarget b \<Longrightarrow> is_ok (f6 b)"
    "\<And>s. op = SReg s \<Longrightarrow> is_ok (f7 s)"
  shows "is_ok (case_Operand f1 f2 f3 f4 f5 f6 f7 op)"
  using assms by (cases op) auto

lemma src_gpr_simps [simp]: "src_gpr (OpReg r) = is_gpr r" "src_gpr (Memory r off) = is_gpr r"
  "src_gpr (Imm20 v)" "src_gpr (Imm32 v)" "src_gpr (ConstBank b c)" "src_gpr (BranchTarget u)" "src_gpr (SReg s)"
  by (simp_all add: src_gpr_def)

lemma src_gpr_nth: "list_all src_gpr ops \<Longrightarrow> Suc i \<le> length ops \<Longrightarrow> src_gpr (ops ! i)"
  by (simp add: list_all_length)

lemmas is_ok_intros = is_ok_Ok is_ok_bind is_ok_if is_ok_gpr is_ok_src is_ok_predicate is_ok_dst
  is_ok_opcode is_ok_list is_ok_operand

lemma encode_bits_total:
  assumes "sass_encodable inst"
  shows "is_ok (encode_instruction_bits inst)"
proof -
  have ok: "is_ok (lookup_opcode (mnemonic (opcode inst)))" "pred_ok (pred inst)"
    "case dst inst of None \<Rightarrow> True | Some r \<Rightarrow> is_gpr r" "list_all src_gpr (srcs inst)"
    using assms by (simp_all add: sass_encodable_def is_ok_def)
  have nth: "src_gpr (srcs inst ! i)" if "Suc i \<le> length (srcs inst)" for i
    using that ok(4) by (rule src_gpr_nth [rotated])
  note srcs = nth [of 0] nth [of 1] nth [of 2]
  show ?thesis
    by (cases "opclass (opcode inst)"; simp only: encode_instruction_bits_def OpcodeClass.case encoder_defs;
        intro is_ok_intros ok; use srcs ok(4) in force)
qed


abbreviation example_fadd :: SassInst where
  "example_fadd \<equiv>
     \<lparr>opcode = \<lparr>mnemonic = ''FADD'', opclass = Alu3\<rparr>, dst = Some (Reg_R 4),
      srcs = [OpReg (Reg_R 2), OpReg RZ], pred = Some \<lparr>preg = Reg_P 3, negated = True\<rparr>,
      modifiers = [], control = default_control\<rparr>"

text \<open>
  C24. For every encodable instruction (known mnemonic, general-purpose registers where registers
  are expected, a predicate \<open>P0\<close>--\<open>P7\<close> as guard) and a supported version, the encoder returns 16
  bytes without error or panic. Whatever the operands are, bits \<open>[63:52]\<close> of the low word hold the
  opcode of the table, bits \<open>[18:16]\<close> and \<open>[19]\<close> the guard, and bits \<open>[7:0]\<close> the destination of
  every class that has one.
\<close>

theorem encode_sass_total:
  assumes "sass_encodable inst" "sm = 120 \<or> sm = 121"
  shows "\<exists>bs lo. encode_sass inst sm = Ok bs \<and> length bs = 16 \<and> from_le (subslice 0 8 bs) = lo \<and>
    (\<exists>op. lookup_opcode (mnemonic (opcode inst)) = Ok op \<and> field 52 12 lo = ucast op) \<and>
    (\<exists>n. pred_reads (pred inst) n (field 19 1 lo \<noteq> 0) \<and> field 16 3 lo = ucast n) \<and>
    (encodes_dst inst \<longrightarrow> dst_field inst = Ok (field 0 8 lo))"
proof -
  obtain lo where lo: "encode_instruction_bits inst = Ok lo"
    using encode_bits_total [OF assms(1)] by (auto simp: is_ok_iff)
  then obtain bs where bs: "encode_sass inst sm = Ok bs" and "length bs = 16"
    using assms(2) by (auto simp: encode_sass_def sm120_encode_def Let_def)
  moreover from bs lo have "from_le (subslice 0 8 bs) = lo"
    by (elim encode_sass_parts) simp
  moreover have "pred_ok (pred inst)" using assms(1) by (simp add: sass_encodable_def)
  ultimately show ?thesis using encoded_fields [OF lo] by blast
qed

theorem encode_sass_total_witness:
  "\<exists>bs lo. encode_sass example_fadd 120 = Ok bs \<and> length bs = 16 \<and> from_le (subslice 0 8 bs) = lo \<and>
    field 52 12 lo = (0x300 :: u64) \<and> field 16 3 lo = (3 :: u64) \<and> field 0 8 lo = (4 :: u64)"
proof -
  have e: "sass_encodable example_fadd" by code_simp
  have l: "lookup_opcode ''FADD'' = Ok 0x300" by code_simp
  show ?thesis
    using encode_sass_total [OF e, of 120] l
    by (auto simp: encodes_dst_def dst_field_def pred_reads_def)
qed

text \<open>
  C25. On an instruction that encodes, the validation pass accepts exactly the instructions whose
  control codes fit their fields and whose guard is one of \<open>P0\<close>--\<open>P7\<close>: it never rejects a faithful
  encoding and never lets a truncated control code or guard through.
\<close>

theorem validate_roundtrip_iff:
  assumes "encode_sass inst sm = Ok bs" "encodes_dst inst \<or> dst inst = None"
  shows "validate_roundtrip inst sm = Ok () \<longleftrightarrow> control_ok (control inst) \<and> pred_ok (pred inst)"
  using assms by (rule validate_roundtrip_Ok)

theorem validate_roundtrip_iff_witness:
  "validate_roundtrip example_fadd 121 = Ok () \<and>
   validate_roundtrip (example_fadd\<lparr>control := default_control\<lparr>stall := 16\<rparr>\<rparr>) 121 \<noteq> Ok ()"
proof -
  have a: "encode_sass example_fadd 121 = Ok [4, 2, 0xFB, 0x0F, 0, 0, 0, 0x30, 0xEF, 7, 0, 0, 0, 0, 0, 0]"
    by code_simp
  have b: "encode_sass (example_fadd\<lparr>control := default_control\<lparr>stall := 16\<rparr>\<rparr>) 121 =
    Ok [4, 2, 0xFB, 0x0F, 0, 0, 0, 0x30, 0xE0, 7, 0, 0, 0, 0, 0, 0]" by code_simp
  have "encodes_dst example_fadd" by code_simp
  then show ?thesis
    using validate_roundtrip_iff [OF a] validate_roundtrip_iff [OF b]
    by (simp add: control_ok_def default_control_def pred_ok_def is_pred_def encodes_dst_def)
qed

end
