(* ===== verification/Sass_Isel.thy ===== *)
theory Sass_Isel
  imports Sass_Encoding
begin

text \<open>
  Instruction selection (\<open>nvidia_sass/src/isel/mod.rs\<close>): one constructor function per PTX
  operation. The lemmas say which selected instructions the encoder accepts; two conventions on
  which selection and encoding disagree (the data register of a store, the identifier of a barrier)
  are stated as theorems, and so is the panic on a predicate destination.
\<close>

definition select_add_i32 :: "u8 \<Rightarrow> u8 \<Rightarrow> u8 \<Rightarrow> SassInst" where
  "select_add_i32 d src1 src2 =
     \<lparr>opcode = \<lparr>mnemonic = ''IADD3'', opclass = Alu3\<rparr>, dst = Some (Reg_R d),
      srcs = [OpReg (Reg_R src1), OpReg (Reg_R src2)], pred = None, modifiers = [], control = default_control\<rparr>"

definition select_fma_f32 :: "u8 \<Rightarrow> u8 \<Rightarrow> u8 \<Rightarrow> u8 \<Rightarrow> SassInst" where
  "select_fma_f32 d src1 src2 src3 =
     \<lparr>opcode = \<lparr>mnemonic = ''FFMA'', opclass = Fma\<rparr>, dst = Some (Reg_R d),
      srcs = [OpReg (Reg_R src1), OpReg (Reg_R src2), OpReg (Reg_R src3)], pred = None, modifiers = [],
      control = default_control\<rparr>"

definition select_add_f32 :: "u8 \<Rightarrow> u8 \<Rightarrow> u8 \<Rightarrow> SassInst" where
  "select_add_f32 d src1 src2 =
     \<lparr>opcode = \<lparr>mnemonic = ''FADD'', opclass = Alu3\<rparr>, dst = Some (Reg_R d),
      srcs = [OpReg (Reg_R src1), OpReg (Reg_R src2)], pred = None, modifiers = [], control = default_control\<rparr>"

definition select_mul_f32 :: "u8 \<Rightarrow> u8 \<Rightarrow> u8 \<Rightarrow> SassInst" where
  "select_mul_f32 d src1 src2 =
     \<lparr>opcode = \<lparr>mnemonic = ''FMUL'', opclass = Alu3\<rparr>, dst = Some (Reg_R d),
      srcs = [OpReg (Reg_R src1), OpReg (Reg_R src2)], pred = None, modifiers = [], control = default_control\<rparr>"

definition select_load_global :: "u8 \<Rightarrow> u8 \<Rightarrow> i32 \<Rightarrow> SassInst" where
  "select_load_global d addr offset =
     \<lparr>opcode = \<lparr>mnemonic = ''LDG'', opclass = Load\<rparr>, dst = Some (Reg_R d),
      srcs = [Memory (Reg_R addr) offset], pred = None, modifiers = [DataTypeMod DT_U32],
      control = default_control\<rparr>"

definition select_store_global :: "u8 \<Rightarrow> i32 \<Rightarrow> u8 \<Rightarrow> SassInst" where
  "select_store_global addr offset data =
     \<lparr>opcode = \<lparr>mnemonic = ''STG'', opclass = Store\<rparr>, dst = None,
      srcs = [Memory (Reg_R addr) offset, OpReg (Reg_R data)], pred = None,
      modifiers = [DataTypeMod DT_U32], control = default_control\<rparr>"

definition select_mov :: "u8 \<Rightarrow> u8 \<Rightarrow> SassInst" where
  "select_mov d src =
     \<lparr>opcode = \<lparr>mnemonic = ''MOV'', opclass = Alu2\<rparr>, dst = Some (Reg_R d), srcs = [OpReg (Reg_R src)],
      pred = None, modifiers = [], control = default_control\<rparr>"

definition select_branch :: "u32 \<Rightarrow> SassInst" where
  "select_branch target =
     \<lparr>opcode = \<lparr>mnemonic = ''BRA'', opclass = Branch\<rparr>, dst = None, srcs = [BranchTarget target],
      pred = None, modifiers = [], control = default_control\<rparr>"

definition select_exit :: SassInst where
  "select_exit =
     \<lparr>opcode = \<lparr>mnemonic = ''EXIT'', opclass = Branch\<rparr>, dst = None, srcs = [], pred = None,
      modifiers = [], control = default_control\<rparr>"

definition select_bar_sync :: "u32 \<Rightarrow> SassInst" where
  "select_bar_sync barrier_id =
     \<lparr>opcode = \<lparr>mnemonic = ''BAR'', opclass = Sync\<rparr>, dst = None, srcs = [Imm20 barrier_id], pred = None,
      modifiers = [], control = default_control\<rparr>"

definition select_special_reg :: "u8 \<Rightarrow> SpecialReg \<Rightarrow> SassInst" where
  "select_special_reg d sreg =
     \<lparr>opcode = \<lparr>mnemonic = ''S2R'', opclass = Special\<rparr>, dst = Some (Reg_R d), srcs = [SReg sreg],
      pred = None, modifiers = [], control = default_control\<rparr>"

definition select_isetp :: "u8 \<Rightarrow> u8 \<Rightarrow> u8 \<Rightarrow> CmpOp \<Rightarrow> SassInst" where
  "select_isetp pred_dst src1 src2 cmp =
     \<lparr>opcode = \<lparr>mnemonic = ''ISETP'', opclass = Comparison\<rparr>, dst = Some (Reg_P pred_dst),
      srcs = [OpReg (Reg_R src1), OpReg (Reg_R src2)], pred = None, modifiers = [CmpOpMod cmp],
      control = default_control\<rparr>"

definition select_nop :: SassInst where
  "select_nop =
     \<lparr>opcode = \<lparr>mnemonic = ''NOP'', opclass = Nop\<rparr>, dst = None, srcs = [], pred = None,
      modifiers = [], control = default_control\<rparr>"

lemmas isel_defs = select_add_i32_def select_fma_f32_def select_add_f32_def select_mul_f32_def
  select_load_global_def select_store_global_def select_mov_def select_branch_def select_exit_def
  select_bar_sync_def select_special_reg_def select_isetp_def select_nop_def

subsection \<open>What selection emits\<close>

text \<open>The instructions the PTX front end can select.\<close>

inductive selected :: "SassInst \<Rightarrow> bool" where
  sel_add_i32: "selected (select_add_i32 d a b)"
| sel_fma: "selected (select_fma_f32 d a b c)"
| sel_add_f32: "selected (select_add_f32 d a b)"
| sel_mul_f32: "selected (select_mul_f32 d a b)"
| sel_load: "selected (select_load_global d a off)"
| sel_store: "selected (select_store_global a off d)"
| sel_mov: "selected (select_mov d a)"
| sel_branch: "selected (select_branch t)"
| sel_exit: "selected select_exit"
| sel_bar: "selected (select_bar_sync b)"
| sel_special: "selected (select_special_reg d s)"
| sel_nop: "selected select_nop"

lemmas selected_intros [intro, simp] = selected.intros

lemma lookup_selected:
  "lookup_opcode ''IADD3'' = Ok 0x211" "lookup_opcode ''FFMA'' = Ok 0x308" "lookup_opcode ''FADD'' = Ok 0x300"
  "lookup_opcode ''FMUL'' = Ok 0x304" "lookup_opcode ''LDG'' = Ok 0x380" "lookup_opcode ''STG'' = Ok 0x385"
  "lookup_opcode ''MOV'' = Ok 0x100" "lookup_opcode ''BRA'' = Ok 0" "lookup_opcode ''EXIT'' = Ok 0x10"
  "lookup_opcode ''BAR'' = Ok 0x20" "lookup_opcode ''S2R'' = Ok 0x110" "lookup_opcode ''ISETP'' = Ok 0x21C"
  "lookup_opcode ''NOP'' = Ok 0x7FF"
  by code_simp+

text \<open>A register renaming or a change of control codes keeps an instruction encodable.\<close>

definition sass_shape :: "SassInst \<Rightarrow> bool" where
  "sass_shape inst \<longleftrightarrow> sass_encodable inst \<and> (encodes_dst inst \<or> dst inst = None)"

lemma selected_shape: "selected inst \<Longrightarrow> sass_shape inst"
  by (induction rule: selected.induct)
    (simp_all add: isel_defs sass_shape_def sass_encodable_def lookup_selected outcome_ok_def pred_ok_def
      is_gpr_def src_gpr_def encodes_dst_def)

text \<open>
  Every selected store encodes to the same bytes whatever its data register is: selection puts
  the data register in the second source, while the encoder takes bits \<open>[7:0]\<close> from the destination,
  which selection leaves empty, so every \<open>STG\<close> stores the zero register.
\<close>

theorem store_data_not_encoded:
  "encode_sass (select_store_global a off d) sm = encode_sass (select_store_global a off d') sm"
  by (simp add: encode_sass_def sm120_encode_def encode_instruction_bits_def encode_store_def
      select_store_global_def dst_field_def)

text \<open>
  A selected integer comparison cannot be encoded on any supported version: its destination is a
  predicate register and the encoder asks for a general-purpose one, which panics.
\<close>

theorem isetp_encode_panics:
  assumes "sm = 120 \<or> sm = 121"
  shows "encode_sass (select_isetp p a b c) sm = Panic"
  using assms by (auto simp: encode_sass_def sm120_encode_def encode_instruction_bits_def encode_comparison_def
      select_isetp_def dst_field_def opcode_field_def lookup_selected encode_predicate_def)

theorem isetp_encode_panics_witness: "encode_sass (select_isetp 0 1 2 Cmp_Lt) 120 = Panic"
  using isetp_encode_panics [of 120 0 1 2 Cmp_Lt] by simp

end
