(* ===== verification/Sass_Ptx.thy ===== *)
theory Sass_Ptx
  imports Sass_Isel
begin

text \<open>
  The PTX subset front end of the SASS pipeline (\<open>nvidia_sass/src/pipeline.rs\<close>, from
  \<open>parse_ptx_subset\<close> on): a line-oriented parser that finds the requested entry function and selects
  one SASS instruction per PTX instruction. Error texts are kept, since the functions return them.
  The mutable locals of \<open>parse_ptx_subset\<close> are the record \<open>PtxState\<close>, one line is \<open>ptx_line\<close>.

  The lemmas give a printer for the supported subset and show that parsing inverts it, line by line
  and for a whole kernel text.
\<close>

subsection \<open>Operands\<close>

definition strip_comment :: "string \<Rightarrow> string" where
  "strip_comment line = (case split_once ''//'' line of Some (l, _) \<Rightarrow> l | None \<Rightarrow> line)"

definition parse_entry_name :: "string \<Rightarrow> string option" where
  "parse_entry_name line =
     (let marker = ''.entry '' in
      map_option (\<lambda>pos.
        let start = pos + length marker;
            rest = trim_start (drop start line);
            end_pos = (case find_char (\<lambda>ch. ch = CHR ''('' \<or> is_ws ch) rest of Some e \<Rightarrow> e | None \<Rightarrow> length rest)
        in take end_pos rest) (find_str marker line))"

text \<open>The loop of \<open>split_operands\<close>: the pieces so far, the current piece, the bracket depth.\<close>

fun split_loop :: "string list \<Rightarrow> string \<Rightarrow> nat \<Rightarrow> string \<Rightarrow> string list" where
  "split_loop result current depth [] =
     (if trim current \<noteq> [] then result @ [trim current] else result)"
| "split_loop result current depth (ch # chs) =
     (if ch = CHR ''['' then split_loop result (current @ [ch]) (depth + 1) chs
      else if ch = CHR '']'' then split_loop result (current @ [ch]) (depth - 1) chs
      else if ch = CHR '','' \<and> depth = 0 then split_loop (result @ [trim current]) [] depth chs
      else split_loop result (current @ [ch]) depth chs)"

definition split_operands :: "string \<Rightarrow> string list" where
  "split_operands operands = split_loop [] [] 0 operands"

text \<open>A text between single quotes, as the error messages have it.\<close>

definition quoted :: "string \<Rightarrow> string" where
  "quoted s = CHR 0x27 # s @ [CHR 0x27]"

definition operand :: "string list \<Rightarrow> nat \<Rightarrow> string \<Rightarrow> (string, string) outcome" where
  "operand operands index line =
     (if index < length operands then Ok (operands ! index)
      else Err (''missing operand '' @ show_nat index @ '' in line '' @ quoted line))"

definition parse_reg :: "string \<Rightarrow> (u8, string) outcome" where
  "parse_reg opnd =
     obind (ok_or (''expected PTX register, got '' @ quoted opnd) (strip_prefix ''%r'' (trim opnd))) (\<lambda>digits.
     omap_err (\<lambda>err. ''invalid PTX register '' @ quoted opnd @ '': '' @ int_error_text err) (parse_u8 digits))"

definition parse_special_reg :: "string \<Rightarrow> SpecialReg option" where
  "parse_special_reg opnd =
     (let s = trim opnd in
      if s = ''%tid.x'' then Some TidX
      else if s = ''%tid.y'' then Some TidY
      else if s = ''%tid.z'' then Some TidZ
      else if s = ''%ctaid.x'' then Some CtaidX
      else if s = ''%ctaid.y'' then Some CtaidY
      else if s = ''%ctaid.z'' then Some CtaidZ
      else if s = ''%ntid.x'' then Some NtidX
      else if s = ''%ntid.y'' then Some NtidY
      else if s = ''%ntid.z'' then Some NtidZ
      else if s = ''%laneid'' then Some LaneId
      else if s = ''%warpid'' then Some WarpId
      else None)"

definition ptx_parse_i32 :: "string \<Rightarrow> (i32, string) outcome" where
  "ptx_parse_i32 v =
     (case strip_prefix ''0x'' v of
        Some hex \<Rightarrow> omap_err (\<lambda>err. ''invalid integer '' @ quoted v @ '': '' @ int_error_text err) (parse_i32_hex hex)
      | None \<Rightarrow> omap_err (\<lambda>err. ''invalid integer '' @ quoted v @ '': '' @ int_error_text err) (parse_i32 v))"

definition parse_memory :: "string \<Rightarrow> (u8 \<times> i32, string) outcome" where
  "parse_memory opnd =
     obind (ok_or (''expected memory operand, got '' @ quoted opnd)
              (Option.bind (strip_prefix ''['' (trim opnd)) (strip_suffix '']''))) (\<lambda>inner.
     case split_once ''+'' inner of
       Some (base, offset) \<Rightarrow>
         obind (parse_reg (trim base)) (\<lambda>b. obind (ptx_parse_i32 (trim offset)) (\<lambda>off. Ok (b, off)))
     | None \<Rightarrow>
         (case split_once ''-'' inner of
            Some (base, offset) \<Rightarrow>
              obind (parse_reg (trim base)) (\<lambda>b. obind (ptx_parse_i32 (trim offset)) (\<lambda>off. Ok (b, - off)))
          | None \<Rightarrow> obind (parse_reg (trim inner)) (\<lambda>b. Ok (b, 0))))"

subsection \<open>Instructions\<close>

definition trim_end_matches :: "char \<Rightarrow> string \<Rightarrow> string" where
  "trim_end_matches c s = rev (dropWhile (\<lambda>x. x = c) (rev s))"

definition reg_operand :: "string list \<Rightarrow> nat \<Rightarrow> string \<Rightarrow> (u8, string) outcome" where
  "reg_operand operands index line = obind (operand operands index line) parse_reg"

definition parse_ptx_instruction :: "string \<Rightarrow> (SassInst, string) outcome" where
  "parse_ptx_instruction raw =
     (let line = trim (trim_end_matches (CHR '';'') raw);
          (mn, ops) = (case split_once_char is_ws line of
                         Some (mn, operands) \<Rightarrow> (trim mn, split_operands operands)
                       | None \<Rightarrow> (line, []))
      in
      if mn = ''ret'' \<or> mn = ''exit'' then Ok select_exit
      else if mn = ''mov.u32'' then
        obind (reg_operand ops 0 line) (\<lambda>d.
        obind (operand ops 1 line) (\<lambda>src.
        case parse_special_reg src of
          Some sreg \<Rightarrow> Ok (select_special_reg d sreg)
        | None \<Rightarrow> obind (parse_reg src) (\<lambda>s. Ok (select_mov d s))))
      else if mn = ''add.s32'' \<or> mn = ''add.u32'' then
        obind (reg_operand ops 0 line) (\<lambda>d. obind (reg_operand ops 1 line) (\<lambda>a.
        obind (reg_operand ops 2 line) (\<lambda>b. Ok (select_add_i32 d a b))))
      else if mn = ''add.f32'' then
        obind (reg_operand ops 0 line) (\<lambda>d. obind (reg_operand ops 1 line) (\<lambda>a.
        obind (reg_operand ops 2 line) (\<lambda>b. Ok (select_add_f32 d a b))))
      else if mn = ''mul.f32'' then
        obind (reg_operand ops 0 line) (\<lambda>d. obind (reg_operand ops 1 line) (\<lambda>a.
        obind (reg_operand ops 2 line) (\<lambda>b. Ok (select_mul_f32 d a b))))
      else if mn = ''fma.rn.f32'' \<or> mn = ''fma.f32'' then
        obind (reg_operand ops 0 line) (\<lambda>d. obind (reg_operand ops 1 line) (\<lambda>a.
        obind (reg_operand ops 2 line) (\<lambda>b. obind (reg_operand ops 3 line) (\<lambda>c.
        Ok (select_fma_f32 d a b c)))))
      else if mn = ''ld.global.u32'' then
        obind (obind (operand ops 1 line) parse_memory) (\<lambda>(base, offset).
        obind (reg_operand ops 0 line) (\<lambda>d. Ok (select_load_global d base offset)))
      else if mn = ''st.global.u32'' then
        obind (obind (operand ops 0 line) parse_memory) (\<lambda>(base, offset).
        obind (reg_operand ops 1 line) (\<lambda>d. Ok (select_store_global base offset d)))
      else if mn = ''bar.sync'' then
        obind (operand ops 0 line) (\<lambda>s.
        Ok (select_bar_sync (case parse_u32 s of Ok n \<Rightarrow> n | _ \<Rightarrow> 0)))
      else Err (''unsupported instruction '' @ quoted mn @ '' in line '' @ quoted line))"

subsection \<open>The entry function\<close>

record PtxState =
  st_sm_version :: u32
  current_kernel :: "string option"
  selected_kernel :: "string option"
  in_selected_body :: bool
  parsed_instructions :: "SassInst list"

record ParsedPtxSubset =
  parsed_kernel_name :: string
  parsed_sm_version :: u32
  parsed_insts :: "SassInst list"

definition target_sm :: "string \<Rightarrow> u32" where
  "target_sm target =
     (case Option.bind (strip_prefix ''sm_'' (trim target)) (\<lambda>v. outcome_ok (parse_u32 v)) of
        Some v \<Rightarrow> v | None \<Rightarrow> 120)"

definition ptx_line :: "string \<Rightarrow> PtxState \<Rightarrow> string \<Rightarrow> (PtxState, string) outcome" where
  "ptx_line requested st raw_line =
     (let line = trim (strip_comment raw_line);
          wanted = (\<lambda>name. requested = [] \<or> requested = name) in
      if line = [] then Ok st
      else case strip_prefix ''.target '' line of
        Some target \<Rightarrow>
          Ok (if st_sm_version st = 0 then st\<lparr>st_sm_version := target_sm target\<rparr> else st)
      | None \<Rightarrow>
      (case parse_entry_name line of
        Some kernel_name \<Rightarrow>
          (let selected = wanted kernel_name;
               st = st\<lparr>current_kernel := Some kernel_name,
                       in_selected_body := selected \<and> contains ''{'' line\<rparr> in
           Ok (if selected then st\<lparr>selected_kernel := Some kernel_name\<rparr> else st))
      | None \<Rightarrow>
          if line = ''{'' then
            Ok (case current_kernel st of
                  Some name \<Rightarrow>
                    (let st = st\<lparr>in_selected_body := wanted name\<rparr> in
                     if in_selected_body st then st\<lparr>selected_kernel := Some name\<rparr> else st)
                | None \<Rightarrow> st)
          else if line = ''}'' then Ok (st\<lparr>in_selected_body := False, current_kernel := None\<rparr>)
          else if \<not> in_selected_body st \<or> starts_with ''.'' line \<or> ends_with '':'' line then Ok st
          else
            obind (parse_ptx_instruction line) (\<lambda>inst.
            Ok (st\<lparr>parsed_instructions := parsed_instructions st @ [inst]\<rparr>))))"

fun ptx_lines :: "string \<Rightarrow> PtxState \<Rightarrow> string list \<Rightarrow> (PtxState, string) outcome" where
  "ptx_lines requested st [] = Ok st"
| "ptx_lines requested st (l # ls) = obind (ptx_line requested st l) (\<lambda>st'. ptx_lines requested st' ls)"

definition parse_ptx_subset :: "string \<Rightarrow> string \<Rightarrow> u32 \<Rightarrow> (ParsedPtxSubset, string) outcome" where
  "parse_ptx_subset ptx requested requested_sm =
     obind (ptx_lines requested
              \<lparr>st_sm_version = requested_sm, current_kernel = None, selected_kernel = None,
               in_selected_body = False, parsed_instructions = []\<rparr> (str_lines ptx)) (\<lambda>st.
     obind (ok_or (if requested = [] then ''no PTX entry function found''
                   else ''no PTX entry function named '' @ quoted requested @ '' found'') (selected_kernel st)) (\<lambda>kernel_name.
     if parsed_instructions st = [] then
       Err (''no supported instructions found in PTX entry '' @ quoted kernel_name)
     else
       Ok \<lparr>parsed_kernel_name = kernel_name,
           parsed_sm_version = (if st_sm_version st = 0 then 120 else st_sm_version st),
           parsed_insts = parsed_instructions st\<rparr>))"

subsection \<open>A printer for the subset\<close>

datatype ptx_op =
    PtxExit
  | PtxMov u8 u8
  | PtxMovSpecial u8 SpecialReg
  | PtxAddI u8 u8 u8
  | PtxAddF u8 u8 u8
  | PtxMulF u8 u8 u8
  | PtxFma u8 u8 u8 u8
  | PtxLoad u8 u8 i32
  | PtxStore u8 i32 u8
  | PtxBar u32

definition sreg_text :: "SpecialReg \<Rightarrow> string" where
  "sreg_text s =
     (case s of TidX \<Rightarrow> ''%tid.x'' | TidY \<Rightarrow> ''%tid.y'' | TidZ \<Rightarrow> ''%tid.z''
      | CtaidX \<Rightarrow> ''%ctaid.x'' | CtaidY \<Rightarrow> ''%ctaid.y'' | CtaidZ \<Rightarrow> ''%ctaid.z''
      | NtidX \<Rightarrow> ''%ntid.x'' | NtidY \<Rightarrow> ''%ntid.y'' | NtidZ \<Rightarrow> ''%ntid.z''
      | LaneId \<Rightarrow> ''%laneid'' | WarpId \<Rightarrow> ''%warpid'' | _ \<Rightarrow> ''%clock'')"

definition ptx_sreg :: "SpecialReg \<Rightarrow> bool" where
  "ptx_sreg s \<longleftrightarrow> s \<in> {TidX, TidY, TidZ, CtaidX, CtaidY, CtaidZ, NtidX, NtidY, NtidZ, LaneId, WarpId}"

definition reg_text :: "u8 \<Rightarrow> string" where
  "reg_text d = ''%r'' @ show_nat (unat d)"

definition mem_text :: "u8 \<Rightarrow> i32 \<Rightarrow> string" where
  "mem_text base off = ''['' @ (reg_text base @ ''+'' @ show_int (sint off)) @ '']''"

fun ptx_mnemonic :: "ptx_op \<Rightarrow> string" where
  "ptx_mnemonic PtxExit = ''ret''"
| "ptx_mnemonic (PtxMov _ _) = ''mov.u32''"
| "ptx_mnemonic (PtxMovSpecial _ _) = ''mov.u32''"
| "ptx_mnemonic (PtxAddI _ _ _) = ''add.s32''"
| "ptx_mnemonic (PtxAddF _ _ _) = ''add.f32''"
| "ptx_mnemonic (PtxMulF _ _ _) = ''mul.f32''"
| "ptx_mnemonic (PtxFma _ _ _ _) = ''fma.rn.f32''"
| "ptx_mnemonic (PtxLoad _ _ _) = ''ld.global.u32''"
| "ptx_mnemonic (PtxStore _ _ _) = ''st.global.u32''"
| "ptx_mnemonic (PtxBar _) = ''bar.sync''"

fun ptx_operands :: "ptx_op \<Rightarrow> string list" where
  "ptx_operands PtxExit = []"
| "ptx_operands (PtxMov d a) = [reg_text d, reg_text a]"
| "ptx_operands (PtxMovSpecial d s) = [reg_text d, sreg_text s]"
| "ptx_operands (PtxAddI d a b) = [reg_text d, reg_text a, reg_text b]"
| "ptx_operands (PtxAddF d a b) = [reg_text d, reg_text a, reg_text b]"
| "ptx_operands (PtxMulF d a b) = [reg_text d, reg_text a, reg_text b]"
| "ptx_operands (PtxFma d a b c) = [reg_text d, reg_text a, reg_text b, reg_text c]"
| "ptx_operands (PtxLoad d a off) = [reg_text d, mem_text a off]"
| "ptx_operands (PtxStore a off d) = [mem_text a off, reg_text d]"
| "ptx_operands (PtxBar n) = [show_nat (unat n)]"

fun ptx_select :: "ptx_op \<Rightarrow> SassInst" where
  "ptx_select PtxExit = select_exit"
| "ptx_select (PtxMov d a) = select_mov d a"
| "ptx_select (PtxMovSpecial d s) = select_special_reg d s"
| "ptx_select (PtxAddI d a b) = select_add_i32 d a b"
| "ptx_select (PtxAddF d a b) = select_add_f32 d a b"
| "ptx_select (PtxMulF d a b) = select_mul_f32 d a b"
| "ptx_select (PtxFma d a b c) = select_fma_f32 d a b c"
| "ptx_select (PtxLoad d a off) = select_load_global d a off"
| "ptx_select (PtxStore a off d) = select_store_global a off d"
| "ptx_select (PtxBar n) = select_bar_sync n"

fun ptx_op_ok :: "ptx_op \<Rightarrow> bool" where
  "ptx_op_ok (PtxMovSpecial d s) = ptx_sreg s"
| "ptx_op_ok _ = True"

definition ptx_body :: "ptx_op \<Rightarrow> string" where
  "ptx_body op =
     ptx_mnemonic op @ (if ptx_operands op = [] then [] else '' '' @ join_with '', '' (ptx_operands op))"

definition ptx_text :: "ptx_op \<Rightarrow> string" where
  "ptx_text op = ptx_body op @ '';''"

subsection \<open>Operands read back\<close>

text \<open>The characters of printed registers and numbers: no white space, no delimiter of the syntax.\<close>

definition plain_char :: "char \<Rightarrow> bool" where
  "plain_char c \<longleftrightarrow> of_char c \<notin> {9, 10, 11, 12, 13, 32, 43, 44, 46, 47, 58, 59, 91, 93, 120 :: nat}"

definition plain :: "string \<Rightarrow> bool" where
  "plain s = list_all plain_char s"

lemma plain_append [simp]: "plain (s @ t) \<longleftrightarrow> plain s \<and> plain t"
  by (simp add: plain_def)

lemma plain_Cons [simp]: "plain (c # s) \<longleftrightarrow> plain_char c \<and> plain s"
  by (simp add: plain_def)

lemma plain_Nil [simp]: "plain []"
  by (simp add: plain_def)

lemma plain_chars [simp]: "plain_char (CHR ''%'')" "plain_char (CHR ''r'')" "plain_char (CHR ''-'')"
  by (simp_all add: plain_char_def)

lemma plain_digit: "d < 10 \<Longrightarrow> plain_char (digit_char d)"
  using of_char_digit_char [of d] by (auto simp: plain_char_def)

lemma plain_show_nat [simp]: "plain (show_nat n)"
  using show_nat_digits [of _ n] plain_digit by (auto simp: plain_def list_all_iff)

lemma plain_show_int [simp]: "plain (show_int k)"
  by (simp add: show_int_def)

lemma plain_reg_text [simp]: "plain (reg_text d)"
  by (simp add: reg_text_def)

lemma plain_not_mem:
  "plain s \<Longrightarrow> CHR ''+'' \<notin> set s" "plain s \<Longrightarrow> CHR '','' \<notin> set s" "plain s \<Longrightarrow> CHR ''['' \<notin> set s"
  "plain s \<Longrightarrow> CHR '']'' \<notin> set s" "plain s \<Longrightarrow> CHR ''x'' \<notin> set s" "plain s \<Longrightarrow> CHR ''.'' \<notin> set s"
  "plain s \<Longrightarrow> CHR ''/'' \<notin> set s" "plain s \<Longrightarrow> c \<in> set s \<Longrightarrow> \<not> is_ws c"
  by (auto simp: plain_def list_all_iff plain_char_def is_ws_def)

lemma trim_plain [simp]: "plain s \<Longrightarrow> trim s = s"
proof (cases "s = []")
  case False
  assume "plain s"
  then have "\<not> is_ws (hd s)" "\<not> is_ws (last s)" using False plain_not_mem(8) by auto
  with False show ?thesis by (rule trim_id)
qed (simp add: trim_def trim_start_def trim_end_def)

lemma parse_reg_text [simp]: "parse_reg (reg_text d) = Ok d"
proof -
  have "unat d < 2 ^ LENGTH(8)" by (rule unsigned_less)
  then have "parse_u8 (show_nat (unat d)) = Ok d" by (simp add: parse_u8_show)
  moreover have "strip_prefix ''%r'' (reg_text d) = Some (show_nat (unat d))"
    by (simp add: reg_text_def strip_prefix_def starts_with_def)
  ultimately show ?thesis by (simp add: parse_reg_def del: obind_Ok_iff)
qed

lemma parse_special_reg_text [simp]: "parse_special_reg (reg_text d) = None"
  by (simp add: parse_special_reg_def Let_def) (simp add: reg_text_def)

lemma trim_sreg_text [simp]: "trim (sreg_text s) = sreg_text s"
  by (rule trim_id) (cases s; simp add: sreg_text_def is_ws_def)+

lemma parse_special_sreg [simp]: "ptx_sreg s \<Longrightarrow> parse_special_reg (sreg_text s) = Some s"
  by (cases s) (simp_all add: ptx_sreg_def parse_special_reg_def Let_def, simp_all add: sreg_text_def)

lemma ptx_parse_i32_show: "ptx_parse_i32 (show_int (sint v)) = Ok v"
proof -
  have "strip_prefix ''0x'' (show_int (sint v)) = None"
    using plain_not_mem(5) [of "show_int (sint v)"] by (auto simp: strip_prefix_def starts_with_iff)
  then show ?thesis by (simp add: ptx_parse_i32_def parse_i32_show)
qed

lemma trim_mem_text [simp]: "trim (mem_text b off) = mem_text b off"
  by (rule trim_id) (simp_all add: mem_text_def is_ws_def)

lemma parse_memory_text [simp]: "parse_memory (mem_text b off) = Ok (b, off)"
proof -
  let ?inner = "reg_text b @ ''+'' @ show_int (sint off)"
  have "strip_prefix ''['' (mem_text b off) = Some (?inner @ '']'')"
    by (simp add: mem_text_def strip_prefix_def starts_with_def)
  moreover have "strip_suffix '']'' (?inner @ '']'') = Some ?inner"
    by (simp add: strip_suffix_def ends_with_def starts_with_def)
  moreover have "split_once ''+'' ?inner = Some (reg_text b, show_int (sint off))"
    by (simp add: split_once_def find_str_skip plain_not_mem starts_with_def)
  ultimately show ?thesis by (simp add: parse_memory_def ptx_parse_i32_show del: obind_Ok_iff)
qed

subsection \<open>Splitting operands\<close>

definition atomic :: "string \<Rightarrow> bool" where
  "atomic s \<longleftrightarrow> trim s = s \<and> s \<noteq> [] \<and> hd s \<noteq> CHR '' '' \<and>
     (\<forall>result current rest. split_loop result current 0 (s @ rest) = split_loop result (current @ s) 0 rest)"

lemma split_loop_plain:
  "(\<And>c. c \<in> set s \<Longrightarrow> c \<noteq> CHR '','' \<and> c \<noteq> CHR ''['' \<and> c \<noteq> CHR '']'') \<Longrightarrow>
   split_loop result current depth (s @ rest) = split_loop result (current @ s) depth rest"
  by (induction s arbitrary: current) auto

lemma split_loop_inner:
  "(\<And>c. c \<in> set s \<Longrightarrow> c \<noteq> CHR ''['' \<and> c \<noteq> CHR '']'') \<Longrightarrow> 0 < depth \<Longrightarrow>
   split_loop result current depth (s @ rest) = split_loop result (current @ s) depth rest"
  by (induction s arbitrary: current) auto

lemma atomic_plain: "plain s \<Longrightarrow> s \<noteq> [] \<Longrightarrow> atomic s"
  unfolding atomic_def
  by (intro conjI allI split_loop_plain) (auto dest: plain_not_mem simp: is_ws_def dest!: hd_in_set)

lemma atomic_reg [simp]: "atomic (reg_text d)"
  by (rule atomic_plain) (simp_all add: reg_text_def)

lemma atomic_show [simp]: "atomic (show_nat n)"
  by (rule atomic_plain) simp_all

lemma atomic_sreg [simp]: "atomic (sreg_text s)"
  unfolding atomic_def
  by (intro conjI allI split_loop_plain, rule trim_sreg_text) (cases s; auto simp: sreg_text_def)+

lemma atomic_mem [simp]: "atomic (mem_text b off)"
proof -
  have "split_loop result (current @ ''['') (Suc 0) ((reg_text b @ ''+'' @ show_int (sint off)) @ '']'' @ rest) =
      split_loop result ((current @ ''['') @ (reg_text b @ ''+'' @ show_int (sint off))) (Suc 0) ('']'' @ rest)"
    for result current rest
    by (rule split_loop_inner) (auto simp: plain_not_mem)
  then show ?thesis by (simp add: atomic_def) (simp add: mem_text_def)
qed

lemma trim_space [simp]: "atomic s \<Longrightarrow> trim (CHR '' '' # s) = s"
  by (auto simp: atomic_def trim_def trim_start_def is_ws_def)

lemma split_loop_join:
  assumes "list_all atomic ops" "ops \<noteq> []" "current = [] \<or> current = '' ''"
  shows "split_loop result current 0 (join_with '', '' ops) = result @ ops"
  using assms
proof (induction ops arbitrary: result current)
  case (Cons op ops)
  have trim: "trim (current @ op) = op" using Cons.prems by (auto simp: atomic_def)
  have step: "split_loop result current 0 (op @ rest) = split_loop result (current @ op) 0 rest" for rest
    using Cons.prems by (simp add: atomic_def)
  show ?case
  proof (cases "ops = []")
    case True
    have "op \<noteq> []" using Cons.prems by (simp add: atomic_def)
    with True trim step [of "[]"] show ?thesis by simp
  next
    case False
    have "split_loop (result @ [op]) '' '' 0 (join_with '', '' ops) = result @ op # ops"
      using Cons.IH [of "'' ''" "result @ [op]"] Cons.prems False by simp
    with False trim step [of "'', '' @ join_with '', '' ops"] show ?thesis by simp
  qed
qed simp

lemma split_operands_join: "list_all atomic ops \<Longrightarrow> ops \<noteq> [] \<Longrightarrow> split_operands (join_with '', '' ops) = ops"
  by (simp add: split_operands_def split_loop_join)


subsection \<open>Instructions read back\<close>

definition closed_text :: "string \<Rightarrow> bool" where
  "closed_text s \<longleftrightarrow> s \<noteq> [] \<and> \<not> is_ws (last s) \<and> last s \<noteq> CHR '';'' \<and> last s \<noteq> CHR 0x0D"

lemma closed_plain: "plain s \<Longrightarrow> s \<noteq> [] \<Longrightarrow> closed_text s"
proof -
  assume "plain s" "s \<noteq> []"
  then have "plain_char (last s)" by (simp add: plain_def list_all_iff)
  with \<open>s \<noteq> []\<close> show ?thesis by (auto simp: closed_text_def plain_char_def is_ws_def)
qed

lemma closed_reg [simp]: "closed_text (reg_text d)"
  by (rule closed_plain) (simp_all add: reg_text_def)

lemma closed_mem [simp]: "closed_text (mem_text b off)"
  by (simp add: closed_text_def mem_text_def is_ws_def)

lemma closed_sreg [simp]: "closed_text (sreg_text s)"
  by (cases s) (simp_all add: closed_text_def sreg_text_def is_ws_def)

lemma closed_show [simp]: "closed_text (show_nat n)"
  by (rule closed_plain) simp_all

lemma closed_append: "closed_text s \<Longrightarrow> closed_text (r @ s)"
  by (simp add: closed_text_def)

lemma closed_join: "ops \<noteq> [] \<Longrightarrow> closed_text (last ops) \<Longrightarrow> closed_text (join_with sep ops)"
proof (induction ops)
  case (Cons op ops)
  then show ?case using closed_append [of "join_with sep ops" "op @ sep"] by (cases "ops = []") simp_all
qed simp

lemma closed_body: "closed_text (ptx_body op)"
proof (cases "ptx_operands op = []")
  case True
  then show ?thesis by (cases op) (auto simp: ptx_body_def closed_text_def is_ws_def)
next
  case False
  moreover have "closed_text (last (ptx_operands op))" using False by (cases op) auto
  ultimately have "closed_text (join_with '', '' (ptx_operands op))" by (rule closed_join)
  then have "closed_text ((ptx_mnemonic op @ '' '') @ join_with '', '' (ptx_operands op))" by (rule closed_append)
  with False show ?thesis by (simp add: ptx_body_def)
qed

lemma hd_body: "hd (ptx_body op) = hd (ptx_mnemonic op)"
  by (cases op) (auto simp: ptx_body_def)

lemma trim_body [simp]: "trim (ptx_body op) = ptx_body op"
proof (rule trim_id)
  show "\<not> is_ws (hd (ptx_body op))" by (cases op) (auto simp: hd_body is_ws_def)
qed (use closed_body [of op] in \<open>auto simp: closed_text_def\<close>)

lemma trim_end_matches_text: "trim_end_matches (CHR '';'') (ptx_text op) = ptx_body op"
  using closed_body [of op]
  by (cases "ptx_body op" rule: rev_cases) (auto simp: trim_end_matches_def ptx_text_def closed_text_def)

lemma split_body:
  "(case split_once_char is_ws (ptx_body op) of Some (mn, operands) \<Rightarrow> (trim mn, split_operands operands)
    | None \<Rightarrow> (ptx_body op, [])) = (ptx_mnemonic op, ptx_operands op)"
proof -
  have ws: "c \<in> set (ptx_mnemonic op) \<Longrightarrow> \<not> is_ws c" for c by (cases op) (auto simp: is_ws_def)
  then have trim: "trim (ptx_mnemonic op) = ptx_mnemonic op"
    by (intro trim_id) (cases op; auto)+
  show ?thesis
  proof (cases "ptx_operands op = []")
    case True
    have "find_char is_ws (ptx_mnemonic op @ []) = None" by (subst find_char_skip) (use ws in auto)
    with True show ?thesis by (simp add: ptx_body_def split_once_char_def)
  next
    case False
    have "find_char is_ws (ptx_mnemonic op @ '' '' @ join_with '', '' (ptx_operands op)) = Some (length (ptx_mnemonic op))"
      by (subst find_char_skip) (use ws in \<open>auto simp: is_ws_def\<close>)
    moreover have "list_all atomic (ptx_operands op)" by (cases op) auto
    ultimately show ?thesis
      using False trim by (simp add: ptx_body_def split_once_char_def split_operands_join)
  qed
qed

lemma parse_u32_show_word [simp]: "parse_u32 (show_nat (unat (n :: u32))) = Ok n"
proof -
  have "unat n < 2 ^ LENGTH(32)" by (rule unsigned_less)
  then show ?thesis by (simp add: parse_u32_show)
qed

lemma parse_ptx_text: "ptx_op_ok op \<Longrightarrow> parse_ptx_instruction (ptx_text op) = Ok (ptx_select op)"
  unfolding parse_ptx_instruction_def trim_end_matches_text trim_body Let_def split_body prod.case
  by (cases op) (simp_all add: reg_operand_def operand_def del: obind_Ok_iff)


subsection \<open>Kernels read back\<close>

definition ident_char :: "char \<Rightarrow> bool" where
  "ident_char c \<longleftrightarrow>
     (let n = of_char c :: nat in 48 \<le> n \<and> n \<le> 57 \<or> 65 \<le> n \<and> n \<le> 90 \<or> n = 95 \<or> 97 \<le> n \<and> n \<le> 122)"

definition ptx_ident :: "string \<Rightarrow> bool" where
  "ptx_ident s \<longleftrightarrow> s \<noteq> [] \<and> list_all ident_char s"

definition entry_line :: "string \<Rightarrow> string" where
  "entry_line name = ''.visible .entry '' @ name @ ''()''"

definition indent :: "string \<Rightarrow> string" where
  "indent s = ''    '' @ s"

definition kernel_lines :: "string \<Rightarrow> ptx_op list \<Rightarrow> string list" where
  "kernel_lines name ops = entry_line name # ''{'' # map (\<lambda>op. indent (ptx_text op)) ops @ [''}'']"

definition ptx_kernel :: "string \<Rightarrow> ptx_op list \<Rightarrow> string" where
  "ptx_kernel name ops = concat (map (\<lambda>l. l @ [CHR 0x0A]) (kernel_lines name ops))"

lemma ident_not_mem:
  "ptx_ident s \<Longrightarrow> CHR ''/'' \<notin> set s" "ptx_ident s \<Longrightarrow> CHR ''{'' \<notin> set s" "ptx_ident s \<Longrightarrow> CHR 0x0A \<notin> set s"
  "ptx_ident s \<Longrightarrow> c \<in> set s \<Longrightarrow> \<not> is_ws c \<and> c \<noteq> CHR ''(''"
  by (auto simp: ptx_ident_def list_all_iff ident_char_def is_ws_def Let_def)

lemma strip_comment_id: "CHR ''/'' \<notin> set s \<Longrightarrow> strip_comment s = s"
  by (simp add: strip_comment_def split_once_def find_str_skip_None)

lemma entry_name:
  assumes "ptx_ident name"
  shows "parse_entry_name (entry_line name) = Some name"
proof -
  have f: "find_str ''.entry '' (entry_line name) = Some 9"
    by (simp add: entry_line_def starts_with_def)
  have n: "name \<noteq> []" "\<not> is_ws (hd name)"
    using assms ident_not_mem(4) [OF assms, of "hd name"] by (auto simp: ptx_ident_def)
  then have ts: "trim_start (name @ ''()'') = name @ ''()''" by (intro trim_start_id) auto
  have "find_char (\<lambda>ch. ch = CHR ''('' \<or> is_ws ch) (name @ ''()'') = Some (length name)"
    by (subst find_char_skip) (use ident_not_mem(4) [OF assms] in auto)
  moreover have "drop (9 + length ''.entry '') (entry_line name) = name @ ''()''" by (simp add: entry_line_def)
  ultimately show ?thesis by (simp add: parse_entry_name_def f ts Let_def)
qed

lemma ptx_line_entry:
  assumes "ptx_ident name"
  shows "ptx_line name st (entry_line name) =
    Ok (st\<lparr>current_kernel := Some name, in_selected_body := False, selected_kernel := Some name\<rparr>)"
proof -
  have "CHR ''/'' \<notin> set (entry_line name)" using assms by (simp add: entry_line_def ident_not_mem)
  then have sc: "strip_comment (entry_line name) = entry_line name" by (rule strip_comment_id)
  have tr: "trim (entry_line name) = entry_line name"
    by (rule trim_id) (simp_all add: entry_line_def is_ws_def)
  have "strip_prefix ''.target '' (entry_line name) = None" "entry_line name \<noteq> []"
    by (simp_all add: strip_prefix_def starts_with_def entry_line_def)
  moreover have "CHR ''{'' \<notin> set (entry_line name)" using assms by (simp add: entry_line_def ident_not_mem)
  then have "\<not> contains ''{'' (entry_line name)" by (simp add: contains_def find_str_skip_None)
  ultimately show ?thesis by (simp add: ptx_line_def sc tr entry_name [OF assms] Let_def)
qed

lemma text_no_slash: "CHR ''/'' \<notin> set (ptx_text op)"
proof -
  have "CHR ''/'' \<notin> set (sreg_text s)" for s by (cases s) (auto simp: sreg_text_def)
  then show ?thesis
    by (cases op) (auto simp: ptx_text_def ptx_body_def mem_text_def plain_not_mem)
qed

lemma text_no_entry: "find_str ''.entry '' (ptx_text op) = None"
proof -
  have "find_str ''.entry '' (sreg_text s @ '';'') = None" for s
    by (cases s) (simp_all add: sreg_text_def starts_with_def)
  then show ?thesis
    by (cases op)
      (simp_all add: ptx_text_def ptx_body_def mem_text_def find_str_skip plain_not_mem starts_with_def)
qed

lemma ptx_line_op:
  assumes "ptx_op_ok op" "in_selected_body st"
  shows "ptx_line requested st (indent (ptx_text op)) =
    Ok (st\<lparr>parsed_instructions := parsed_instructions st @ [ptx_select op]\<rparr>)"
proof -
  have sc: "strip_comment (indent (ptx_text op)) = indent (ptx_text op)"
    using text_no_slash [of op] by (intro strip_comment_id) (simp add: indent_def)
  have hd: "hd (ptx_text op) = hd (ptx_mnemonic op)" "ptx_text op \<noteq> []"
    by (cases op; simp add: ptx_text_def ptx_body_def)+
  have ws: "\<not> is_ws (hd (ptx_text op))" "hd (ptx_text op) \<noteq> CHR ''.''" "hd (ptx_text op) \<noteq> CHR ''{''"
    "hd (ptx_text op) \<noteq> CHR ''}''"
    unfolding hd by (cases op; simp add: is_ws_def)+
  obtain c cs where cs: "ptx_text op = c # cs" using hd(2) by (cases "ptx_text op") auto
  have "dropWhile is_ws (indent (ptx_text op)) = ptx_text op"
    using ws(1) by (simp add: cs is_ws_def indent_def)
  moreover have "trim_end (ptx_text op) = ptx_text op"
    by (rule trim_end_id) (use hd in \<open>auto simp: ptx_text_def is_ws_def\<close>)
  ultimately have tr: "trim (indent (ptx_text op)) = ptx_text op" by (simp add: trim_def trim_start_def)
  have "strip_prefix ''.target '' (ptx_text op) = None" "\<not> starts_with ''.'' (ptx_text op)"
    "ptx_text op \<noteq> ''{''" "ptx_text op \<noteq> ''}''"
    using ws by (auto simp: strip_prefix_def starts_with_def cs)
  moreover have "\<not> ends_with '':'' (ptx_text op)" by (simp add: ends_with_def starts_with_def ptx_text_def)
  moreover have "parse_entry_name (ptx_text op) = None" by (simp add: parse_entry_name_def text_no_entry Let_def)
  ultimately show ?thesis
    using assms hd(2) parse_ptx_text [OF assms(1)] unfolding ptx_line_def sc tr Let_def by (simp del: obind_Ok_iff)
qed

lemma ptx_lines_ops:
  "list_all ptx_op_ok ops \<Longrightarrow> in_selected_body st \<Longrightarrow>
   ptx_lines requested st (map (\<lambda>op. indent (ptx_text op)) ops @ rest) =
   ptx_lines requested (st\<lparr>parsed_instructions := parsed_instructions st @ map ptx_select ops\<rparr>) rest"
proof (induction ops arbitrary: st)
  case (Cons op ops)
  then show ?case
    using ptx_line_op [of op st requested] by (simp del: obind_Ok_iff)
qed simp

lemma brace_lines:
  "ptx_line requested st ''}'' = Ok (st\<lparr>in_selected_body := False, current_kernel := None\<rparr>)"
  "current_kernel st = Some name \<Longrightarrow> requested = name \<Longrightarrow>
   ptx_line requested st ''{'' = Ok (st\<lparr>in_selected_body := True, selected_kernel := Some name\<rparr>)"
proof -
  have "trim ''{'' = ''{''" "trim ''}'' = ''}''" by code_simp+
  then show "ptx_line requested st ''}'' = Ok (st\<lparr>in_selected_body := False, current_kernel := None\<rparr>)"
    "current_kernel st = Some name \<Longrightarrow> requested = name \<Longrightarrow>
     ptx_line requested st ''{'' = Ok (st\<lparr>in_selected_body := True, selected_kernel := Some name\<rparr>)"
    by (simp_all add: ptx_line_def strip_comment_id strip_prefix_def starts_with_def parse_entry_name_def Let_def)
qed

lemma text_no_newline: "CHR 0x0A \<notin> set (ptx_text op)"
proof -
  have "CHR 0x0A \<notin> set (sreg_text s)" for s by (cases s) (auto simp: sreg_text_def)
  moreover have "plain s \<Longrightarrow> CHR 0x0A \<notin> set s" for s
    using plain_not_mem(8) [of s "CHR 0x0A"] by (auto simp: is_ws_def)
  ultimately show ?thesis by (cases op) (auto simp: ptx_text_def ptx_body_def mem_text_def)
qed

lemma last_text: "last (ptx_text op) = CHR '';''" "ptx_text op \<noteq> []"
  by (simp_all add: ptx_text_def)

lemma kernel_lines_ok: "ptx_ident name \<Longrightarrow> str_lines (ptx_kernel name ops) = kernel_lines name ops"
  unfolding ptx_kernel_def
  by (rule str_lines_concat)
    (auto simp: kernel_lines_def entry_line_def indent_def ident_not_mem text_no_newline list_all_iff last_text)

lemma parse_ptx_kernel:
  assumes "ptx_ident name" "list_all ptx_op_ok ops" "ops \<noteq> []"
  shows "parse_ptx_subset (ptx_kernel name ops) name sm =
    Ok \<lparr>parsed_kernel_name = name, parsed_sm_version = (if sm = 0 then 120 else sm),
        parsed_insts = map ptx_select ops\<rparr>"
  using assms
  by (simp add: parse_ptx_subset_def kernel_lines_ok kernel_lines_def ptx_line_entry brace_lines ptx_lines_ops
      del: obind_Ok_iff)

lemma selected_ptx_select: "selected (ptx_select op)"
  by (cases op) auto

lemma parse_ptx_instruction_selected: "parse_ptx_instruction line = Ok inst \<Longrightarrow> selected inst"
  by (auto simp: parse_ptx_instruction_def Let_def split: if_splits prod.splits option.splits)

lemma ptx_line_selected:
  "ptx_line requested st l = Ok st' \<Longrightarrow> list_all selected (parsed_instructions st) \<Longrightarrow>
   list_all selected (parsed_instructions st')"
  by (auto simp: ptx_line_def Let_def split: if_splits option.splits dest: parse_ptx_instruction_selected)

lemma ptx_lines_selected:
  "ptx_lines requested st ls = Ok st' \<Longrightarrow> list_all selected (parsed_instructions st) \<Longrightarrow>
   list_all selected (parsed_instructions st')"
  by (induction requested st ls rule: ptx_lines.induct) (auto dest: ptx_line_selected)

lemma parse_ptx_subset_selected:
  "parse_ptx_subset ptx requested sm = Ok p \<Longrightarrow> list_all selected (parsed_insts p) \<and> parsed_insts p \<noteq> []"
  by (auto simp: parse_ptx_subset_def split: if_splits dest: ptx_lines_selected)

text \<open>
  Parsing inverts printing: every instruction of the supported subset, with any register numbers
  and any 32-bit offset, is read back as the SASS instruction it selects.
\<close>

theorem ptx_instruction_roundtrip:
  assumes "ptx_op_ok op"
  shows "parse_ptx_instruction (ptx_text op) = Ok (ptx_select op)"
  using assms by (rule parse_ptx_text)

theorem ptx_instruction_roundtrip_witness:
  "parse_ptx_instruction ''ld.global.u32 %r7, [%r200+-16];'' = Ok (select_load_global 7 200 (- 16))"
proof -
  have "ptx_text (PtxLoad 7 200 (- 16)) = ''ld.global.u32 %r7, [%r200+-16];''" by code_simp
  then show ?thesis using ptx_instruction_roundtrip [of "PtxLoad 7 200 (- 16)"] by simp
qed

text \<open>
  C13. A kernel text of the subset is parsed to the requested entry name, the requested version (120
  when none is given) and exactly one selected instruction per line, in order.
\<close>

theorem ptx_kernel_roundtrip:
  assumes "ptx_ident name" "list_all ptx_op_ok ops" "ops \<noteq> []"
  shows "parse_ptx_subset (ptx_kernel name ops) name sm =
    Ok \<lparr>parsed_kernel_name = name, parsed_sm_version = (if sm = 0 then 120 else sm),
        parsed_insts = map ptx_select ops\<rparr>"
  using assms by (rule parse_ptx_kernel)

theorem ptx_kernel_roundtrip_witness:
  "parse_ptx_subset (ptx_kernel ''add'' [PtxAddI 3 1 2, PtxExit]) ''add'' 0 =
    Ok \<lparr>parsed_kernel_name = ''add'', parsed_sm_version = 120, parsed_insts = [select_add_i32 3 1 2, select_exit]\<rparr>"
proof -
  have "ptx_ident ''add''" by code_simp
  then show ?thesis using ptx_kernel_roundtrip [of "''add''" "[PtxAddI 3 1 2, PtxExit]" 0] by simp
qed

end
