(* ===== verification/Sass_Regalloc.thy ===== *)
theory Sass_Regalloc
  imports Sass_Isel
begin

text \<open>
  Register allocation (\<open>nvidia_sass/src/regalloc/\<close>): live ranges, linear scan and renaming. A
  \<open>HashMap<u8, _>\<close> is a map; its iteration order, which \<open>linear_scan\<close> depends on where two ranges
  start together, is the argument \<open>iter\<close>, of which only \<open>hash_iter\<close> is assumed: it lists each entry
  once. \<open>sort_by_key\<close> is the stable \<open>sort_key\<close>.

  The lemmas show that the scan never runs out of registers and never gives two virtual registers
  that are live together the same physical one, and that it does give a virtual register the number
  of a fixed register (below 128) that is live at the same time.
\<close>

subsection \<open>Live ranges\<close>

fun extract_regs :: "Operand \<Rightarrow> Reg list" where
  "extract_regs (OpReg r) = [r]"
| "extract_regs (Memory base _) = [base]"
| "extract_regs _ = []"

type_synonym ranges = "u8 \<rightharpoonup> nat \<times> nat"

definition touch_dst :: "nat \<Rightarrow> Reg option \<Rightarrow> ranges \<Rightarrow> ranges" where
  "touch_dst idx d ranges =
     (case d of
        Some (Reg_R n) \<Rightarrow>
          (let entry = (case ranges n of Some e \<Rightarrow> e | None \<Rightarrow> (idx, idx)) in ranges(n \<mapsto> (fst entry, idx)))
      | _ \<Rightarrow> ranges)"

definition touch_src :: "nat \<Rightarrow> ranges \<Rightarrow> Reg \<Rightarrow> ranges" where
  "touch_src idx ranges reg =
     (case reg of
        Reg_R n \<Rightarrow>
          (let entry = (case ranges n of Some e \<Rightarrow> e | None \<Rightarrow> (idx, idx));
               entry = (if idx < fst entry then (idx, snd entry) else entry);
               entry = (if idx > snd entry then (fst entry, idx) else entry)
           in ranges(n \<mapsto> entry))
      | _ \<Rightarrow> ranges)"

definition touch_inst :: "nat \<Rightarrow> ranges \<Rightarrow> SassInst \<Rightarrow> ranges" where
  "touch_inst idx ranges inst =
     foldl (touch_src idx) (touch_dst idx (dst inst) ranges) (concat (map extract_regs (srcs inst)))"

fun live_ranges_from :: "nat \<Rightarrow> ranges \<Rightarrow> SassInst list \<Rightarrow> ranges" where
  "live_ranges_from idx ranges [] = ranges"
| "live_ranges_from idx ranges (inst # insts) = live_ranges_from (Suc idx) (touch_inst idx ranges inst) insts"

definition compute_live_ranges :: "SassInst list \<Rightarrow> ranges" where
  "compute_live_ranges insts = live_ranges_from 0 Map.empty insts"

subsection \<open>Linear scan\<close>

type_synonym hash_order = "ranges \<Rightarrow> (u8 \<times> nat \<times> nat) list"

definition hash_iter :: "hash_order \<Rightarrow> bool" where
  "hash_iter iter \<longleftrightarrow> (\<forall>m. distinct (map fst (iter m)) \<and> (\<forall>k v. (k, v) \<in> set (iter m) \<longleftrightarrow> m k = Some v))"

definition all_phys :: "u8 list" where
  "all_phys = map of_nat [0..<255]"

fun scan_ranges ::
  "(u8 \<times> nat \<times> nat) list \<Rightarrow> (u8 \<rightharpoonup> u8) \<Rightarrow> (u8 \<times> u8 \<times> nat) list \<Rightarrow> (u8 \<rightharpoonup> u8, NvSassError) outcome" where
  "scan_ranges [] mapping active = Ok mapping"
| "scan_ranges ((vreg, start, end_idx) # ranges) mapping active =
     (if vreg < 128 then scan_ranges ranges (mapping(vreg \<mapsto> vreg)) active
      else
        (let active = filter (\<lambda>(_, _, active_end). active_end \<ge> start) active;
             used = map (\<lambda>(_, phys, _). phys) active in
         obind (ok_or (RegAllocError ''out of registers'') (List.find (\<lambda>r. r \<notin> set used) all_phys)) (\<lambda>phys.
         scan_ranges ranges (mapping(vreg \<mapsto> phys)) (active @ [(vreg, phys, end_idx)]))))"

definition linear_scan :: "hash_order \<Rightarrow> ranges \<Rightarrow> (u8 \<rightharpoonup> u8, NvSassError) outcome" where
  "linear_scan iter live_ranges =
     (let ranges = sort_key (\<lambda>(_, start, _). start) (iter live_ranges) in
      scan_ranges ranges Map.empty [])"

definition remap_reg :: "(u8 \<rightharpoonup> u8) \<Rightarrow> Reg \<Rightarrow> Reg" where
  "remap_reg mapping reg =
     (case reg of
        Reg_R n \<Rightarrow> (case mapping n of Some phys \<Rightarrow> Reg_R phys | None \<Rightarrow> reg)
      | other \<Rightarrow> other)"

definition remap_operand :: "(u8 \<rightharpoonup> u8) \<Rightarrow> Operand \<Rightarrow> Operand" where
  "remap_operand mapping op =
     (case op of
        OpReg r \<Rightarrow> OpReg (remap_reg mapping r)
      | Memory base offset \<Rightarrow> Memory (remap_reg mapping base) offset
      | other \<Rightarrow> other)"

definition remap_inst :: "(u8 \<rightharpoonup> u8) \<Rightarrow> SassInst \<Rightarrow> SassInst" where
  "remap_inst mapping inst =
     inst\<lparr>dst := map_option (remap_reg mapping) (dst inst), srcs := map (remap_operand mapping) (srcs inst)\<rparr>"

text \<open>\<open>mapping.values()\<close>, in some order.\<close>

definition map_values :: "(u8 \<rightharpoonup> u8) \<Rightarrow> u8 list" where
  "map_values mapping = List.map_filter mapping (map of_nat [0..<256])"

definition allocate :: "hash_order \<Rightarrow> SassInst list \<Rightarrow> (SassInst list \<times> u32, NvSassError) outcome" where
  "allocate iter insts =
     (let live_ranges = compute_live_ranges insts in
      obind (linear_scan iter live_ranges) (\<lambda>mapping.
      let num_regs = ucast (foldl max 0 (map_values mapping)) + 1 in
      Ok (map (remap_inst mapping) insts, max num_regs 8)))"

subsection \<open>Live ranges are exact\<close>

definition uses_reg :: "u8 \<Rightarrow> SassInst \<Rightarrow> bool" where
  "uses_reg n inst \<longleftrightarrow> dst inst = Some (Reg_R n) \<or> Reg_R n \<in> set (concat (map extract_regs (srcs inst)))"

definition ranges_upto :: "nat \<Rightarrow> ranges \<Rightarrow> bool" where
  "ranges_upto idx R \<longleftrightarrow> (\<forall>n s e. R n = Some (s, e) \<longrightarrow> s \<le> e \<and> e \<le> idx)"

definition extend_range :: "nat \<Rightarrow> (nat \<times> nat) option \<Rightarrow> nat \<times> nat" where
  "extend_range idx r = (case r of None \<Rightarrow> (idx, idx) | Some (s, e) \<Rightarrow> (s, idx))"

lemma extend_range_idem [simp]: "extend_range idx (Some (extend_range idx r)) = extend_range idx r"
  by (auto simp: extend_range_def split: option.splits)

lemma touch_dst_apply:
  "touch_dst idx d R = (\<lambda>n. if d = Some (Reg_R n) then Some (extend_range idx (R n)) else R n)"
  by (rule ext) (auto simp: touch_dst_def extend_range_def Let_def split: option.splits Reg.splits)

lemma touch_src_apply:
  "ranges_upto idx R \<Longrightarrow> touch_src idx R reg = (\<lambda>n. if reg = Reg_R n then Some (extend_range idx (R n)) else R n)"
  by (rule ext) (auto simp: touch_src_def extend_range_def ranges_upto_def Let_def split: option.splits Reg.splits, force+)

lemma extend_bounds: "ranges_upto idx R \<Longrightarrow> extend_range idx (R n) = (s, e) \<Longrightarrow> s \<le> e \<and> e \<le> idx"
  by (force simp: extend_range_def ranges_upto_def split: option.splits prod.splits)

lemma ranges_upto_if [simp]:
  assumes "ranges_upto idx R"
  shows "ranges_upto idx (\<lambda>n. if P n then Some (extend_range idx (R n)) else R n)"
  unfolding ranges_upto_def using extend_bounds [OF assms] assms
  by (auto simp: ranges_upto_def split: if_splits)

lemma touch_srcs_apply:
  "ranges_upto idx R \<Longrightarrow>
   foldl (touch_src idx) R regs n = (if Reg_R n \<in> set regs then Some (extend_range idx (R n)) else R n)"
proof (induction regs arbitrary: R)
  case (Cons r regs)
  then show ?case
    using Cons.IH [OF ranges_upto_if [OF Cons.prems]] by (auto simp: touch_src_apply)
qed simp

lemma touch_inst_apply:
  "ranges_upto idx R \<Longrightarrow> touch_inst idx R inst = (\<lambda>n. if uses_reg n inst then Some (extend_range idx (R n)) else R n)"
  by (rule ext) (auto simp: touch_inst_def touch_srcs_apply touch_dst_apply uses_reg_def)

lemma ranges_upto_Suc: "ranges_upto idx R \<Longrightarrow> ranges_upto (Suc idx) (touch_inst idx R inst)"
  using ranges_upto_if [of idx R "\<lambda>n. uses_reg n inst"] by (auto simp: touch_inst_apply ranges_upto_def le_SucI)

definition uses :: "u8 \<Rightarrow> SassInst list \<Rightarrow> nat list" where
  "uses n insts = filter (\<lambda>i. uses_reg n (insts ! i)) [0..<length insts]"

lemma uses_Cons: "uses n (inst # insts) = (if uses_reg n inst then [0] else []) @ map Suc (uses n insts)"
proof -
  have "[0..<length (inst # insts)] = 0 # map Suc [0..<length insts]"
    by (simp add: map_Suc_upt upt_conv_Cons del: upt_Suc)
  then show ?thesis by (simp add: uses_def filter_map o_def del: upt_Suc)
qed

lemma live_ranges_from_apply:
  assumes "ranges_upto idx R"
  shows "live_ranges_from idx R insts n =
    (if uses n insts = [] then R n
     else Some (case R n of None \<Rightarrow> idx + hd (uses n insts) | Some (s, e) \<Rightarrow> s, idx + last (uses n insts)))"
  using assms
proof (induction insts arbitrary: idx R)
  case Nil
  then show ?case by (simp add: uses_def)
next
  case (Cons inst insts)
  show ?case
    using Cons.IH [OF ranges_upto_Suc [OF Cons.prems, of inst]] Cons.prems
    by (cases "R n"; cases "uses n insts = []"; cases "uses_reg n inst")
      (auto simp: touch_inst_apply uses_Cons hd_map last_map extend_range_def)
qed

lemma live_ranges_first_last:
  "compute_live_ranges insts n = (if uses n insts = [] then None else Some (hd (uses n insts), last (uses n insts)))"
  by (simp add: compute_live_ranges_def live_ranges_from_apply ranges_upto_def)

subsection \<open>Free registers\<close>

lemma nth_all_phys: "i < 255 \<Longrightarrow> all_phys ! i = of_nat i"
  by (simp add: all_phys_def)

lemma unat_of_nat_u8: "i < 256 \<Longrightarrow> unat (of_nat i :: u8) = i"
  by (simp add: unsigned_of_nat take_bit_nat_eq_self)

lemma of_nat_u8_inj: "inj_on (of_nat :: nat \<Rightarrow> u8) {..<256}"
  by (metis inj_onI lessThan_iff unat_of_nat_u8)

lemma find_free_Some:
  assumes "List.find (\<lambda>r. r \<notin> set used) all_phys = Some r"
  shows "r \<notin> set used" "unat r \<le> length used"
proof -
  from assms obtain i where i: "i < 255" "all_phys ! i \<notin> set used" "r = all_phys ! i"
    and least: "\<And>j. j < i \<Longrightarrow> all_phys ! j \<in> set used"
    by (auto simp: find_Some_iff all_phys_def)
  then show "r \<notin> set used" by simp
  have "of_nat ` {..<i} \<subseteq> set used"
    using i(1) least by (auto simp: nth_all_phys)
  then have "card (of_nat ` {..<i} :: u8 set) \<le> card (set used)" by (simp add: card_mono)
  moreover have "card (of_nat ` {..<i} :: u8 set) = i"
    using i(1) by (subst card_image) (auto intro: inj_on_subset [OF of_nat_u8_inj])
  ultimately show "unat r \<le> length used"
    using i card_length [of used] by (simp add: nth_all_phys unat_of_nat_u8)
qed

lemma find_free_exists:
  assumes "length used < 255"
  shows "\<exists>r. List.find (\<lambda>r. r \<notin> set used) all_phys = Some r"
proof (rule ccontr)
  assume "\<not> ?thesis"
  then have "set all_phys \<subseteq> set used" by (auto simp: find_None_iff)
  then have "card (set all_phys) \<le> length used" by (meson card_length card_mono finite_set le_trans)
  moreover have "set all_phys = of_nat ` {..<255}"
    by (auto simp: all_phys_def)
  moreover have "card (of_nat ` {..<255} :: u8 set) = 255"
    by (subst card_image) (auto intro: inj_on_subset [OF of_nat_u8_inj])
  ultimately show False using assms by simp
qed

lemma card_virtual: "card {v :: u8. 128 \<le> v} \<le> 128"
proof -
  have "{v :: u8. 128 \<le> v} \<subseteq> of_nat ` {128..<256}"
  proof
    fix v :: u8 assume "v \<in> {v. 128 \<le> v}"
    then have "128 \<le> unat v" "unat v < 256" using unsigned_less [of v] by (auto simp: word_le_nat_alt)
    then show "v \<in> of_nat ` {128..<256}" by (intro image_eqI [of _ _ "unat v"]) auto
  qed
  then have "card {v :: u8. 128 \<le> v} \<le> card (of_nat ` {128..<256 :: nat} :: u8 set)" by (simp add: card_mono)
  also have "\<dots> \<le> card {128..<256 :: nat}" by (rule card_image_le) simp
  finally show ?thesis by simp
qed

subsection \<open>The scan invariant\<close>

text \<open>A colouring of a set of live ranges: fixed registers keep their number, virtual registers get a
  number below 128, and virtual registers that are live together get different numbers.\<close>

definition numbered :: "(u8 \<times> nat \<times> nat) list \<Rightarrow> (u8 \<rightharpoonup> u8) \<Rightarrow> bool" where
  "numbered ds m \<longleftrightarrow>
     (\<forall>v s e. (v, s, e) \<in> set ds \<longrightarrow> (\<exists>p. m v = Some p \<and> unat p < 128 \<and> (v < 128 \<longrightarrow> p = v)))"

definition separated :: "(u8 \<times> nat \<times> nat) list \<Rightarrow> (u8 \<rightharpoonup> u8) \<Rightarrow> bool" where
  "separated ds m \<longleftrightarrow>
     (\<forall>v s e v' s' e'. (v, s, e) \<in> set ds \<and> (v', s', e') \<in> set ds \<and>
        v \<noteq> v' \<and> 128 \<le> v \<and> 128 \<le> v' \<and> s \<le> e' \<and> s' \<le> e \<longrightarrow> m v \<noteq> m v')"

definition active_sound :: "(u8 \<times> nat \<times> nat) list \<Rightarrow> (u8 \<rightharpoonup> u8) \<Rightarrow> (u8 \<times> u8 \<times> nat) list \<Rightarrow> bool" where
  "active_sound ds m act \<longleftrightarrow> distinct (map fst act) \<and>
     (\<forall>v p e. (v, p, e) \<in> set act \<longrightarrow> 128 \<le> v \<and> m v = Some p \<and> (\<exists>s. (v, s, e) \<in> set ds))"

definition active_complete ::
  "(u8 \<times> nat \<times> nat) list \<Rightarrow> (u8 \<times> nat \<times> nat) list \<Rightarrow> (u8 \<rightharpoonup> u8) \<Rightarrow> (u8 \<times> u8 \<times> nat) list \<Rightarrow> bool" where
  "active_complete ds todo m act \<longleftrightarrow>
     (\<forall>v s e. (v, s, e) \<in> set ds \<and> 128 \<le> v \<longrightarrow>
        (\<exists>p. m v = Some p \<and> (v, p, e) \<in> set act) \<or> (\<forall>v' s' e'. (v', s', e') \<in> set todo \<longrightarrow> e < s'))"

definition ranges_ok :: "(u8 \<times> nat \<times> nat) list \<Rightarrow> bool" where
  "ranges_ok rs \<longleftrightarrow> distinct (map fst rs) \<and> sorted (map (fst \<circ> snd) rs)"

definition scan_inv ::
  "(u8 \<times> nat \<times> nat) list \<Rightarrow> (u8 \<times> nat \<times> nat) list \<Rightarrow> (u8 \<rightharpoonup> u8) \<Rightarrow> (u8 \<times> u8 \<times> nat) list \<Rightarrow> bool" where
  "scan_inv ds todo m act \<longleftrightarrow>
     ranges_ok (ds @ todo) \<and> numbered ds m \<and> separated ds m \<and> active_sound ds m act \<and> active_complete ds todo m act"

lemma ranges_ok_new: "ranges_ok (ds @ (v, s, e) # todo) \<Longrightarrow> (v, s', e') \<notin> set ds"
  by (force simp: ranges_ok_def)

lemma ranges_ok_later: "ranges_ok (ds @ (v, s, e) # todo) \<Longrightarrow> (v', s', e') \<in> set todo \<Longrightarrow> s \<le> s'"
  by (force simp: ranges_ok_def sorted_append)

lemma active_completeD:
  "active_complete ds todo m act \<Longrightarrow> (v, s, e) \<in> set ds \<Longrightarrow> 128 \<le> v \<Longrightarrow>
   (\<exists>p. m v = Some p \<and> (v, p, e) \<in> set act) \<or> (\<forall>v' s' e'. (v', s', e') \<in> set todo \<longrightarrow> e < s')"
  unfolding active_complete_def by blast

lemma active_complete_Cons: "active_complete ds (x # todo) m act \<Longrightarrow> active_complete ds todo m act"
  unfolding active_complete_def by (meson list.set_intros(2))

lemma scan_inv_fixed:
  assumes inv: "scan_inv ds ((v, s, e) # todo) m act" and v: "v < 128"
  shows "scan_inv (ds @ [(v, s, e)]) todo (m(v \<mapsto> v)) act"
proof -
  have r: "ranges_ok (ds @ (v, s, e) # todo)" using inv by (simp add: scan_inv_def)
  note new = ranges_ok_new [OF r]
  have nv: "\<not> 128 \<le> v" "unat v < 128" using v by (simp_all add: word_less_nat_alt word_le_nat_alt)
  have act: "\<And>p e. (v, p, e) \<notin> set act"
    using inv new unfolding scan_inv_def active_sound_def by blast
  have "numbered (ds @ [(v, s, e)]) (m(v \<mapsto> v))"
    using inv nv by (auto simp: scan_inv_def numbered_def)
  moreover have "separated (ds @ [(v, s, e)]) (m(v \<mapsto> v))"
    using inv nv unfolding scan_inv_def separated_def by (auto simp del: not_le)
  moreover have "active_sound (ds @ [(v, s, e)]) (m(v \<mapsto> v)) act"
    using inv act by (auto simp: scan_inv_def active_sound_def)
  moreover have "active_complete ds todo m act"
    using inv active_complete_Cons by (auto simp: scan_inv_def)
  then have "active_complete (ds @ [(v, s, e)]) todo (m(v \<mapsto> v)) act"
    using nv(1) new unfolding active_complete_def [of "ds @ [(v, s, e)]"] by (auto dest: active_completeD)
  ultimately show ?thesis using r by (simp add: scan_inv_def)
qed

lemma active_short:
  assumes "scan_inv ds ((v, s, e) # todo) m act" "\<not> v < 128"
  shows "length (filter P act) < 128"
proof -
  have "distinct (map fst (filter P act))"
    using assms(1) by (simp add: scan_inv_def active_sound_def distinct_map_filter)
  then have len: "length (filter P act) = card (fst ` set (filter P act))"
    by (metis distinct_card length_map set_map)
  have "fst ` set (filter P act) \<subseteq> {w. 128 \<le> w} - {v}"
  proof
    fix w assume "w \<in> fst ` set (filter P act)"
    then obtain q e' where "(w, q, e') \<in> set act" by auto
    then have "128 \<le> w" and "\<exists>s'. (w, s', e') \<in> set ds"
      using assms(1) unfolding scan_inv_def active_sound_def by blast+
    moreover have "ranges_ok (ds @ (v, s, e) # todo)" using assms(1) by (simp add: scan_inv_def)
    ultimately show "w \<in> {w. 128 \<le> w} - {v}" using ranges_ok_new by auto
  qed
  then have "card (fst ` set (filter P act)) \<le> card ({w. 128 \<le> w} - {v})" by (simp add: card_mono)
  also have "\<dots> < card {w :: u8. 128 \<le> w}" 
    using assms(2) card_Diff1_less [of "{w. 128 \<le> w}" v] by (simp add: not_less)
  finally show ?thesis using len card_virtual by simp
qed

lemma scan_inv_virtual:
  assumes inv: "scan_inv ds ((v, s, e) # todo) m act" and v: "\<not> v < 128"
    and act': "act' = filter (\<lambda>(_, _, active_end). active_end \<ge> s) act"
    and p: "List.find (\<lambda>r. r \<notin> set (map (\<lambda>(_, phys, _). phys) act')) all_phys = Some p"
  shows "scan_inv (ds @ [(v, s, e)]) todo (m(v \<mapsto> p)) (act' @ [(v, p, e)])"
proof -
  have r: "ranges_ok (ds @ (v, s, e) # todo)" using inv by (simp add: scan_inv_def)
  note new = ranges_ok_new [OF r]
  have act: "\<And>p e. (v, p, e) \<notin> set act"
    using inv new unfolding scan_inv_def active_sound_def by blast
  have p128: "unat p < 128"
    using find_free_Some(2) [OF p] active_short [OF inv v, of "\<lambda>(_, _, active_end). active_end \<ge> s"] act' by simp
  have fresh: "m w \<noteq> Some p" if "(w, s', e') \<in> set ds" "128 \<le> w" "s \<le> e'" for w s' e'
  proof -
    from that inv obtain q where q: "m w = Some q" "(w, q, e') \<in> set act"
      by (force simp: scan_inv_def active_complete_def)
    with that have "(w, q, e') \<in> set act'" by (simp add: act')
    with find_free_Some(1) [OF p] q show ?thesis by force
  qed
  have "numbered (ds @ [(v, s, e)]) (m(v \<mapsto> p))"
    using inv p128 v by (auto simp: scan_inv_def numbered_def)
  moreover have "separated (ds @ [(v, s, e)]) (m(v \<mapsto> p))"
    using inv fresh new unfolding scan_inv_def separated_def by (auto simp: eq_commute [of "Some p"])
  moreover have "active_sound (ds @ [(v, s, e)]) (m(v \<mapsto> p)) (act' @ [(v, p, e)])"
    using inv act v by (fastforce simp: scan_inv_def active_sound_def act' distinct_map_filter)
  moreover have "active_complete (ds @ [(v, s, e)]) todo (m(v \<mapsto> p)) (act' @ [(v, p, e)])"
    unfolding active_complete_def
  proof (intro allI impI)
    fix w s' e' assume w: "(w, s', e') \<in> set (ds @ [(v, s, e)]) \<and> 128 \<le> w"
    show "(\<exists>q. (m(v \<mapsto> p)) w = Some q \<and> (w, q, e') \<in> set (act' @ [(v, p, e)])) \<or>
        (\<forall>v' s'' e''. (v', s'', e'') \<in> set todo \<longrightarrow> e' < s'')"
    proof (cases "w = v \<or> s \<le> e'")
      case True
      moreover have "active_complete ds todo m act" using inv active_complete_Cons by (auto simp: scan_inv_def)
      ultimately show ?thesis using w new active_completeD [of ds todo m act w s' e'] by (auto simp: act')
    next
      case False
      with ranges_ok_later [OF r] show ?thesis by (meson not_le order.strict_trans2)
    qed
  qed
  ultimately show ?thesis using r by (simp add: scan_inv_def)
qed

lemma scan_ranges_total:
  "scan_inv ds todo m act \<Longrightarrow>
   \<exists>m'. scan_ranges todo m act = Ok m' \<and> numbered (ds @ todo) m' \<and> separated (ds @ todo) m'"
proof (induction todo m act arbitrary: ds rule: scan_ranges.induct)
  case (1 m act)
  then show ?case by (simp add: scan_inv_def)
next
  case (2 v s e todo m act)
  show ?case
  proof (cases "v < 128")
    case True
    with 2(1) [OF True scan_inv_fixed [OF 2(3) True]] show ?thesis by (simp add: fun_upd_def)
  next
    case False
    define act' where "act' = filter (\<lambda>(_, _, active_end). active_end \<ge> s) act"
    have "length (map (\<lambda>(_, phys, _). phys) act') < 255"
      using active_short [OF 2(3) False, of "\<lambda>(_, _, active_end). active_end \<ge> s"] by (simp add: act'_def)
    then obtain p where p: "List.find (\<lambda>r. r \<notin> set (map (\<lambda>(_, phys, _). phys) act')) all_phys = Some p"
      using find_free_exists by blast
    from 2(2) [OF False act'_def refl scan_inv_virtual [OF 2(3) False act'_def p]] False p
    show ?thesis by (simp add: act'_def Let_def fun_upd_def del: obind_Ok_iff)
  qed
qed

subsection \<open>The allocator\<close>

lemma scan_ranges_dom: "scan_ranges todo m act = Ok m' \<Longrightarrow> dom m' = dom m \<union> fst ` set todo"
proof (induction todo m act rule: scan_ranges.induct)
  case (2 v s e todo m act)
  show ?case
  proof (cases "v < 128")
    case True
    with 2(1) [OF True] 2(3) show ?thesis by (auto simp: fun_upd_def)
  next
    case False
    with 2(3) obtain p where "scan_ranges todo (m(v \<mapsto> p))
        (filter (\<lambda>(_, _, active_end). active_end \<ge> s) act @ [(v, p, e)]) = Ok m'"
      by (auto simp: Let_def)
    from 2(2) [OF False refl refl this] show ?thesis by (auto simp: fun_upd_def)
  qed
qed simp

lemma linear_scan_total:
  assumes "hash_iter iter"
  obtains m where "linear_scan iter R = Ok m" "dom m = dom R"
    "\<And>v p. m v = Some p \<Longrightarrow> unat p < 128 \<and> (v < 128 \<longrightarrow> p = v)"
    "\<And>v s e w s' e'. R v = Some (s, e) \<Longrightarrow> R w = Some (s', e') \<Longrightarrow> v \<noteq> w \<Longrightarrow> 128 \<le> v \<Longrightarrow> 128 \<le> w \<Longrightarrow>
       s \<le> e' \<Longrightarrow> s' \<le> e \<Longrightarrow> m v \<noteq> m w"
proof -
  define rs where "rs = sort_key (\<lambda>(_, start, _). start) (iter R)"
  have key: "(\<lambda>(_ :: u8, start :: nat, _ :: nat). start) = fst \<circ> snd" by auto
  have mem: "(v, s, e) \<in> set rs \<longleftrightarrow> R v = Some (s, e)" for v s e
    using assms by (auto simp: rs_def hash_iter_def)
  have "distinct (map fst rs)"
    using assms unfolding rs_def hash_iter_def
    by (metis distinct_map distinct_sort set_sort)
  then have "scan_inv [] rs Map.empty []"
    by (simp add: scan_inv_def ranges_ok_def numbered_def separated_def active_sound_def active_complete_def
        rs_def key sorted_sort_key)
  from scan_ranges_total [OF this] obtain m where m: "scan_ranges rs Map.empty [] = Ok m"
    and num: "numbered rs m" and sep: "separated rs m" by auto
  have A: "linear_scan iter R = Ok m" using m by (simp add: linear_scan_def rs_def)
  have dm: "dom m = dom R"
    
  proof -
    have "v \<in> fst ` set rs \<longleftrightarrow> v \<in> dom R" for v
      unfolding image_iff Bex_def dom_def split_paired_Ex mem by auto
    then show ?thesis using scan_ranges_dom [OF m] by auto
  qed
  have C: "unat p < 128 \<and> (v < 128 \<longrightarrow> p = v)" if "m v = Some p" for v p
  proof -
    have "v \<in> dom R" using that dm by auto
    then obtain s e where "R v = Some (s, e)" by auto
    with num that show ?thesis unfolding numbered_def mem by fastforce
  qed
  have D: "m v \<noteq> m w"
    if "R v = Some (s, e)" "R w = Some (s', e')" "v \<noteq> w" "128 \<le> v" "128 \<le> w" "s \<le> e'" "s' \<le> e" for v s e w s' e'
    using sep that unfolding separated_def mem by blast
  show ?thesis by (rule that [OF A dm C D])
qed

lemma uses_bounds:
  assumes "i \<in> set (uses n insts)"
  shows "hd (uses n insts) \<le> i" "i \<le> last (uses n insts)"
proof -
  have sorted: "sorted (uses n insts)" by (simp add: uses_def sorted_wrt_filter)
  obtain k where k: "k < length (uses n insts)" "i = uses n insts ! k" using assms by (auto simp: in_set_conv_nth)
  show "hd (uses n insts) \<le> i"
    using sorted k sorted_nth_mono [of "uses n insts" 0 k] by (cases "uses n insts") auto
  show "i \<le> last (uses n insts)"
    using sorted k sorted_nth_mono [of "uses n insts" k "length (uses n insts) - 1"]
    by (cases "uses n insts") (auto simp: last_conv_nth)
qed

lemma foldl_max_less: "(\<forall>x \<in> set xs. unat x < n) \<Longrightarrow> unat a < n \<Longrightarrow> unat (foldl max a xs) < n" for a :: u8
  by (induction xs arbitrary: a) (auto simp: max_def)

lemma foldl_max_ge: "x = a \<or> x \<in> set xs \<Longrightarrow> x \<le> foldl max a xs" for a :: u8
proof (induction xs arbitrary: a x)
  case (Cons y xs)
  then have "x \<le> max a y \<or> x \<in> set xs" by auto
  then show ?case using Cons.IH [of x "max a y"] Cons.IH [of "max a y" "max a y"] by (auto intro: order_trans)
qed simp

lemma set_map_values: "set (map_values m) = ran m"
proof -
  have U: "v \<in> of_nat ` set [0..<256]" for v :: u8
    using unsigned_less [of v] by (intro image_eqI [of _ _ "unat v"]) auto
  show ?thesis
    unfolding map_values_def List.map_filter_def set_map set_filter using U by (force simp: ran_def image_iff)
qed

lemma allocate_total:
  assumes "hash_iter iter"
  obtains m n where "linear_scan iter (compute_live_ranges insts) = Ok m"
    "allocate iter insts = Ok (map (remap_inst m) insts, n)" "8 \<le> n" "n \<le> 128"
    "\<And>v p. m v = Some p \<Longrightarrow> unat p < unat n"
proof -
  obtain m where m: "linear_scan iter (compute_live_ranges insts) = Ok m"
    and small: "\<And>v p. m v = Some p \<Longrightarrow> unat p < 128 \<and> (v < 128 \<longrightarrow> p = v)"
    using linear_scan_total [OF assms, of "compute_live_ranges insts"] by metis
  define x where "x = foldl max 0 (map_values m)"
  define n :: u32 where "n = max (ucast x + 1) 8"
  have "unat x < 128"
    unfolding x_def using small by (intro foldl_max_less) (auto simp: set_map_values ran_def)
  then have ux: "unat (ucast x + 1 :: u32) = unat x + 1"
    by (simp add: unat_word_ariths unsigned_ucast_eq take_bit_nat_eq_self)
  have "8 \<le> n" "n \<le> 128"
    using \<open>unat x < 128\<close> ux by (auto simp: n_def max_def word_le_nat_alt)
  moreover have "unat p < unat n" if "m v = Some p" for v p
  proof -
    have "p \<le> x" unfolding x_def using that by (intro foldl_max_ge) (auto simp: set_map_values ran_def)
    then have "unat p < unat (ucast x + 1 :: u32)" by (simp add: ux word_le_nat_alt)
    also have "\<dots> \<le> unat n" by (simp add: n_def max_def word_le_nat_alt)
    finally show ?thesis .
  qed
  moreover have "allocate iter insts = Ok (map (remap_inst m) insts, n)"
    by (simp add: allocate_def m n_def x_def Let_def del: obind_Ok_iff)
  ultimately show ?thesis using that m by blast
qed

definition key_order :: hash_order where
  "key_order m = List.map_filter (\<lambda>k. map_option (Pair k) (m k)) (map of_nat [0..<256])"

lemma hash_iter_key_order: "hash_iter key_order"
proof -
  have U: "v \<in> of_nat ` {0..<256}" for v :: u8
    using unsigned_less [of v] by (intro image_eqI [of _ _ "unat v"]) auto
  have "inj_on (of_nat :: nat \<Rightarrow> u8) {0..<256}" using of_nat_u8_inj by (simp add: lessThan_atLeast0)
  then have d: "distinct (map of_nat [0..<256] :: u8 list)" by (simp add: distinct_map)
  have fst: "map fst (key_order m) = filter (\<lambda>k. m k \<noteq> None) (map of_nat [0..<256])" for m
    unfolding key_order_def List.map_filter_def map_map
    by (rule trans [OF map_cong [OF refl, where g = id]]) (auto intro: filter_cong)
  have "(k, v) \<in> set (key_order m) \<longleftrightarrow> m k = Some v" for m k v
    using U [of k] unfolding key_order_def List.map_filter_def by (force simp: image_iff)
  then show ?thesis using d by (simp add: hash_iter_def fst distinct_filter)
qed

text \<open>
  C29. The computed live range of a register is exactly its first and its last use (as a destination,
  a source or a base address) in the instruction sequence, and a register that does not occur has
  none.
\<close>

theorem live_ranges_exact:
  "compute_live_ranges insts n =
     (if uses n insts = [] then None else Some (hd (uses n insts), last (uses n insts)))"
  by (rule live_ranges_first_last)

text \<open>
  C28. Register allocation always succeeds, in every iteration order of the hash map: there are at
  most 128 virtual registers, so the scan never runs out, the instruction count is kept, and the
  reported register count lies between 8 and 128 and exceeds every register number assigned.
\<close>

theorem regalloc_succeeds:
  assumes "hash_iter iter"
  shows "\<exists>m n. allocate iter insts = Ok (map (remap_inst m) insts, n) \<and> 8 \<le> n \<and> n \<le> 128 \<and>
    (\<forall>v p. m v = Some p \<longrightarrow> unat p < unat n)"
  using allocate_total [OF assms, of insts] by metis

theorem regalloc_succeeds_witness:
  "\<exists>m n. allocate key_order [select_mov 200 3] = Ok (map (remap_inst m) [select_mov 200 3], n) \<and> 8 \<le> n \<and> n \<le> 128"
  using regalloc_succeeds [OF hash_iter_key_order, of "[select_mov 200 3]"] by metis

text \<open>
  C8. Linear scan separates virtual registers (numbers from 128): if \<open>w\<close> is used between two uses of
  \<open>v\<close>, the two get different physical registers; fixed registers keep their number.
\<close>

theorem regalloc_separates:
  assumes "hash_iter iter" "linear_scan iter (compute_live_ranges insts) = Ok m"
    and "v \<noteq> w" "128 \<le> v" "128 \<le> w"
    and "i \<in> set (uses v insts)" "k \<in> set (uses v insts)" "j \<in> set (uses w insts)" "i \<le> j" "j \<le> k"
  shows "m v \<noteq> m w \<and> (\<forall>u. u < 128 \<longrightarrow> m u = None \<or> m u = Some u)"
proof (rule linear_scan_total [OF assms(1), of "compute_live_ranges insts"])
  fix m'
  let ?R = "compute_live_ranges insts"
  assume m': "linear_scan iter ?R = Ok m'"
    and num: "\<And>v p. m' v = Some p \<Longrightarrow> unat p < 128 \<and> (v < 128 \<longrightarrow> p = v)"
    and sep: "\<And>v s e w s' e'. ?R v = Some (s, e) \<Longrightarrow> ?R w = Some (s', e') \<Longrightarrow> v \<noteq> w \<Longrightarrow> 128 \<le> v \<Longrightarrow> 128 \<le> w \<Longrightarrow>
       s \<le> e' \<Longrightarrow> s' \<le> e \<Longrightarrow> m' v \<noteq> m' w"
  have v: "?R v = Some (hd (uses v insts), last (uses v insts))"
    and w: "?R w = Some (hd (uses w insts), last (uses w insts))"
    using assms(6,8) by (auto simp: live_ranges_first_last)
  have o: "hd (uses v insts) \<le> last (uses w insts)" "hd (uses w insts) \<le> last (uses v insts)"
    using uses_bounds [OF assms(6)] uses_bounds [OF assms(7)] uses_bounds [OF assms(8)] assms(9,10) by linarith+
  have "m' v \<noteq> m' w" by (rule sep [OF v w assms(3-5) o])
  moreover have "m = m'" using m' assms(2) by simp
  moreover have "m' u = None \<or> m' u = Some u" if "u < 128" for u
    using num [of u] that by (cases "m' u") auto
  ultimately show ?thesis by simp
qed

theorem regalloc_separates_witness:
  "\<exists>m. linear_scan key_order (compute_live_ranges [select_mov 200 3, select_mov 201 4, select_add_i32 5 200 201]) = Ok m \<and>
     m 200 \<noteq> m 201"
proof -
  let ?p = "[select_mov 200 3, select_mov 201 4, select_add_i32 5 200 201]"
  obtain m where m: "linear_scan key_order (compute_live_ranges ?p) = Ok m"
    by (rule linear_scan_total [OF hash_iter_key_order])
  have "0 \<in> set (uses 200 ?p)" "2 \<in> set (uses 200 ?p)" "1 \<in> set (uses 201 ?p)" by code_simp+
  with regalloc_separates [OF hash_iter_key_order m, of 200 201 0 2 1] m show ?thesis
    by (simp add: word_le_nat_alt)
qed

text \<open>
  Linear scan does not reserve fixed registers: in the program that sets \<open>R0\<close> and the virtual
  register \<open>R128\<close> and then adds the two, the virtual register is assigned \<open>R0\<close>, so its definition
  overwrites the live value of \<open>R0\<close> and the sum reads the same register twice.
\<close>

theorem regalloc_clobbers_fixed:
  "allocate key_order [select_mov 0 1, select_mov 128 2, select_add_i32 3 0 128] =
     Ok ([select_mov 0 1, select_mov 0 2, select_add_i32 3 0 0], 8)"
  by code_simp

subsection \<open>Renaming keeps instructions encodable\<close>

lemma is_gpr_remap [simp]: "is_gpr (remap_reg m r) = is_gpr r"
  by (cases r) (auto simp: is_gpr_def remap_reg_def split: option.splits)

lemma src_gpr_remap [simp]: "src_gpr (remap_operand m op) = src_gpr op"
  by (cases op) (auto simp: remap_operand_def)

lemma sass_shape_remap: "sass_shape inst \<Longrightarrow> sass_shape (remap_inst m inst)"
  by (cases "dst inst")
    (auto simp: sass_shape_def sass_encodable_def encodes_dst_def remap_inst_def list_all_iff)

end
