(* ===== verification/Sass_Scheduler.thy ===== *)
theory Sass_Scheduler
  imports Sass_Isel
begin

text \<open>
  The control-code scheduler (\<open>nvidia_sass/src/scheduler/mod.rs\<close>). The three mutable maps and the
  barrier counter of \<open>schedule\<close> are the record \<open>SchedState\<close>; \<open>schedule_inst\<close> is one round of the
  loop body. The counter is a \<open>u8\<close> and wraps; \<open>distance as u8\<close> truncates.

  Besides the range of the control codes, the lemmas give the two hazard guarantees in terms of the
  emitted program only: \<open>last_load_barrier\<close> and \<open>last_writer\<close> are read off the scheduled prefix.
\<close>

record SchedState =
  pending_writes :: "u8 \<rightharpoonup> nat \<times> u8"
  next_barrier :: u8
  barrier_map :: "u8 \<rightharpoonup> u8"

definition init_sched :: SchedState where
  "init_sched = \<lparr>pending_writes = Map.empty, next_barrier = 0, barrier_map = Map.empty\<rparr>"

fun instruction_latency :: "OpcodeClass \<Rightarrow> u8" where
  "instruction_latency Alu3 = 4"
| "instruction_latency Alu2 = 4"
| "instruction_latency Fma = 4"
| "instruction_latency Load = 200"
| "instruction_latency Store = 1"
| "instruction_latency Branch = 1"
| "instruction_latency Comparison = 4"
| "instruction_latency Sync = 1"
| "instruction_latency Special = 8"
| "instruction_latency Nop = 1"

fun operand_source :: "Operand \<Rightarrow> u8 list" where
  "operand_source (OpReg (Reg_R n)) = [n]"
| "operand_source (Memory (Reg_R n) _) = [n]"
| "operand_source _ = []"

definition source_registers :: "SassInst \<Rightarrow> u8 list" where
  "source_registers inst = concat (map operand_source (srcs inst))"

text \<open>The loop over the source registers, on the pair of the wait mask and \<open>max_stall_needed\<close>.\<close>

definition scan_source :: "nat \<Rightarrow> SchedState \<Rightarrow> u8 \<times> u8 \<Rightarrow> u8 \<Rightarrow> u8 \<times> u8" where
  "scan_source idx st acc src_reg =
     (let (mask, max_stall) = acc;
          mask' = (case barrier_map st src_reg of
                     Some barrier_id \<Rightarrow> mask OR push_bit (unat barrier_id) 1
                   | None \<Rightarrow> mask);
          max_stall' = (case pending_writes st src_reg of
                          Some (write_idx, latency) \<Rightarrow>
                            (let distance = of_nat (idx - write_idx) in
                             if distance < latency then max max_stall (latency - distance) else max_stall)
                        | None \<Rightarrow> max_stall)
      in (mask', max_stall'))"

definition schedule_inst :: "nat \<Rightarrow> SchedState \<Rightarrow> SassInst \<Rightarrow> SassInst \<times> SchedState" where
  "schedule_inst idx st inst =
     (let ctrl = \<lparr>stall = 1, yield_flag = False, write_barrier = 7, read_barrier = 7, wait_mask = 0, reuse = 0\<rparr>;
          (mask, max_stall_needed) = foldl (scan_source idx st) (wait_mask ctrl, 0) (source_registers inst);
          ctrl = ctrl\<lparr>wait_mask := mask, stall := max (min max_stall_needed 15) 1\<rparr>;
          ctrl = (if wait_mask ctrl \<noteq> 0 then ctrl\<lparr>stall := 1\<rparr> else ctrl);
          (ctrl, st) =
            (case dst inst of
               Some (Reg_R n) \<Rightarrow>
                 (let latency = instruction_latency (opclass (opcode inst));
                      st = st\<lparr>pending_writes := (pending_writes st)(n \<mapsto> (idx, latency))\<rparr> in
                  if latency > 15 then
                    (let barrier_id = next_barrier st mod 6 in
                     (ctrl\<lparr>write_barrier := barrier_id\<rparr>,
                      st\<lparr>barrier_map := (barrier_map st)(n \<mapsto> barrier_id), next_barrier := next_barrier st + 1\<rparr>))
                  else (ctrl, st))
             | _ \<Rightarrow> (ctrl, st))
      in (inst\<lparr>control := ctrl\<rparr>, st))"

fun schedule_from :: "nat \<Rightarrow> SchedState \<Rightarrow> SassInst list \<Rightarrow> SassInst list" where
  "schedule_from idx st [] = []"
| "schedule_from idx st (inst # insts) =
     (let (inst', st') = schedule_inst idx st inst in inst' # schedule_from (Suc idx) st' insts)"

definition schedule :: "SassInst list \<Rightarrow> SassInst list" where
  "schedule insts = schedule_from 0 init_sched insts"

subsection \<open>The emitted control codes\<close>

definition reg_dst :: "SassInst \<Rightarrow> u8 option" where
  "reg_dst inst = (case dst inst of Some (Reg_R n) \<Rightarrow> Some n | _ \<Rightarrow> None)"

definition latency_of :: "SassInst \<Rightarrow> u8" where
  "latency_of inst = instruction_latency (opclass (opcode inst))"

definition sched_inv :: "SchedState \<Rightarrow> bool" where
  "sched_inv st \<longleftrightarrow> (\<forall>r b. barrier_map st r = Some b \<longrightarrow> unat b < 6)"

lemma scan_mask_bit:
  assumes "sched_inv st"
  shows "bit (fst (foldl (scan_source idx st) acc rs)) i \<longleftrightarrow>
    bit (fst acc) i \<or> (\<exists>r \<in> set rs. \<exists>b. barrier_map st r = Some b \<and> i = unat b)"
proof (induction rs arbitrary: acc)
  case Nil
  then show ?case by simp
next
  case (Cons r rs)
  have "bit (fst (scan_source idx st acc r)) i \<longleftrightarrow>
      bit (fst acc) i \<or> (\<exists>b. barrier_map st r = Some b \<and> i = unat b)"
    using assms
    by (cases acc) (fastforce simp: scan_source_def sched_inv_def Let_def bit_simps split: option.splits prod.splits)
  then show ?case by (auto simp: Cons.IH)
qed

lemma scan_stall_mono: "snd acc \<le> snd (foldl (scan_source idx st) acc rs)"
proof (induction rs arbitrary: acc)
  case (Cons r rs)
  have "snd acc \<le> snd (scan_source idx st acc r)"
    by (cases acc) (auto simp: scan_source_def Let_def split: option.splits)
  with Cons [of "scan_source idx st acc r"] show ?case by (simp add: order_trans)
qed simp

lemma scan_stall_source:
  assumes "r \<in> set rs" "pending_writes st r = Some (w, l)" "of_nat (idx - w) < l"
  shows "l - of_nat (idx - w) \<le> snd (foldl (scan_source idx st) acc rs)"
  using assms(1)
proof (induction rs arbitrary: acc)
  case (Cons x rs)
  show ?case
  proof (cases "x = r")
    case True
    have "l - of_nat (idx - w) \<le> snd (scan_source idx st acc r)"
      using assms by (cases acc) (auto simp: scan_source_def Let_def split: option.splits)
    also have "\<dots> \<le> snd (foldl (scan_source idx st) (scan_source idx st acc r) rs)"
      by (rule scan_stall_mono)
    finally show ?thesis using True by simp
  next
    case False
    with Cons show ?thesis by simp
  qed
qed simp

lemma mask_small:
  assumes "sched_inv st"
  shows "fst (foldl (scan_source idx st) (0, s) rs) < 64"
proof -
  have "take_bit 6 (fst (foldl (scan_source idx st) (0, s) rs)) = fst (foldl (scan_source idx st) (0, s) rs)"
    using assms by (intro bit_word_eqI) (auto simp: bit_simps scan_mask_bit sched_inv_def)
  then show ?thesis by (simp add: take_bit_self_iff word_less_nat_alt)
qed

lemma schedule_inst_effect:
  assumes inv: "sched_inv st" and eq: "schedule_inst idx st inst = (inst', st')"
  shows "\<exists>c. inst' = inst\<lparr>control := c\<rparr>" "control_ok (control inst')" "1 \<le> stall (control inst')"
    and "wait_mask (control inst') = fst (foldl (scan_source idx st) (0, 0) (source_registers inst))"
    and "wait_mask (control inst') = 0 \<Longrightarrow>
      stall (control inst') = max (min (snd (foldl (scan_source idx st) (0, 0) (source_registers inst))) 15) 1"
    and "pending_writes st' = (case reg_dst inst of None \<Rightarrow> pending_writes st
           | Some n \<Rightarrow> (pending_writes st)(n \<mapsto> (idx, latency_of inst)))"
    and "barrier_map st' = (case reg_dst inst of
             Some n \<Rightarrow> if 15 < latency_of inst then (barrier_map st)(n \<mapsto> write_barrier (control inst')) else barrier_map st
           | None \<Rightarrow> barrier_map st)"
    and "sched_inv st'"
proof -
  obtain mask ms where ms: "foldl (scan_source idx st) (0, 0) (source_registers inst) = (mask, ms)"
    by fastforce
  have mask: "mask < 64" using mask_small [OF inv, of idx 0 "source_registers inst"] ms by simp
  define s :: u8 where "s = (if mask \<noteq> 0 then 1 else max (min ms 15) 1)"
  have s: "1 \<le> s" "s < 16" by (auto simp: s_def max_def min_def word_less_nat_alt word_le_nat_alt split: if_splits)
  define wb :: u8 where "wb = next_barrier st mod 6"
  have wb: "unat wb < 6" by (simp add: wb_def unat_mod)
  let ?c = "\<lparr>stall = s, yield_flag = False, write_barrier = 7, read_barrier = 7, wait_mask = mask, reuse = 0\<rparr>"
  have "(inst', st') =
    (case reg_dst inst of
       None \<Rightarrow> (inst\<lparr>control := ?c\<rparr>, st)
     | Some n \<Rightarrow>
         if 15 < latency_of inst then
           (inst\<lparr>control := ?c\<lparr>write_barrier := wb\<rparr>\<rparr>,
            st\<lparr>pending_writes := (pending_writes st)(n \<mapsto> (idx, latency_of inst)),
               barrier_map := (barrier_map st)(n \<mapsto> wb), next_barrier := next_barrier st + 1\<rparr>)
         else (inst\<lparr>control := ?c\<rparr>, st\<lparr>pending_writes := (pending_writes st)(n \<mapsto> (idx, latency_of inst))\<rparr>))"
    unfolding eq [symmetric] schedule_inst_def
    by (auto simp: ms s_def wb_def reg_dst_def latency_of_def Let_def split: option.splits Reg.splits)
  note cases = this
  have c8: "wb < 8" using wb by (simp add: word_less_nat_alt)
  show "\<exists>c. inst' = inst\<lparr>control := c\<rparr>" "control_ok (control inst')" "1 \<le> stall (control inst')"
    using cases s c8 mask by (auto simp: control_ok_def split: option.splits if_splits)
  show "wait_mask (control inst') = fst (foldl (scan_source idx st) (0, 0) (source_registers inst))"
    using cases ms by (auto split: option.splits if_splits)
  show "wait_mask (control inst') = 0 \<Longrightarrow>
      stall (control inst') = max (min (snd (foldl (scan_source idx st) (0, 0) (source_registers inst))) 15) 1"
    using cases ms by (auto simp: s_def split: option.splits if_splits)
  show "pending_writes st' = (case reg_dst inst of None \<Rightarrow> pending_writes st
           | Some n \<Rightarrow> (pending_writes st)(n \<mapsto> (idx, latency_of inst)))"
    using cases by (auto split: option.splits if_splits)
  show "barrier_map st' = (case reg_dst inst of
             Some n \<Rightarrow> if 15 < latency_of inst then (barrier_map st)(n \<mapsto> write_barrier (control inst')) else barrier_map st
           | None \<Rightarrow> barrier_map st)"
    using cases by (auto split: option.splits if_splits)
  show "sched_inv st'"
    using cases inv wb by (auto simp: sched_inv_def split: option.splits if_splits)
qed

subsection \<open>The state in front of an instruction\<close>

fun state_after :: "nat \<Rightarrow> SchedState \<Rightarrow> SassInst list \<Rightarrow> SchedState" where
  "state_after idx st [] = st"
| "state_after idx st (inst # insts) = state_after (Suc idx) (snd (schedule_inst idx st inst)) insts"

abbreviation state_before :: "SassInst list \<Rightarrow> nat \<Rightarrow> SchedState" where
  "state_before insts j \<equiv> state_after 0 init_sched (take j insts)"

lemma length_schedule_from [simp]: "length (schedule_from idx st insts) = length insts"
  by (induction insts arbitrary: idx st) (auto simp: Let_def split: prod.splits)

lemma schedule_from_nth:
  "j < length insts \<Longrightarrow>
   schedule_from idx st insts ! j = fst (schedule_inst (idx + j) (state_after idx st (take j insts)) (insts ! j))"
proof (induction insts arbitrary: idx st j)
  case (Cons inst insts)
  then show ?case by (cases j) (auto simp: Let_def split: prod.splits)
qed simp

lemma state_after_snoc:
  "state_after idx st (insts @ [inst]) = snd (schedule_inst (idx + length insts) (state_after idx st insts) inst)"
  by (induction insts arbitrary: idx st) auto

lemma state_before_Suc:
  "j < length insts \<Longrightarrow> state_before insts (Suc j) = snd (schedule_inst j (state_before insts j) (insts ! j))"
  using state_after_snoc [of 0 init_sched "take j insts" "insts ! j"]
  by (simp add: take_Suc_conv_app_nth min_def)

lemma sched_inv_after: "sched_inv st \<Longrightarrow> sched_inv (state_after idx st insts)"
  by (induction insts arbitrary: idx st) (auto intro: schedule_inst_effect(8) [OF _ surjective_pairing])

lemma sched_inv_before [simp]: "sched_inv (state_before insts j)"
  by (rule sched_inv_after) (simp add: sched_inv_def init_sched_def)

lemma schedule_nth:
  assumes "j < length insts"
  shows "schedule_inst j (state_before insts j) (insts ! j) = (schedule insts ! j, state_before insts (Suc j))"
  using assms by (simp add: schedule_def schedule_from_nth state_before_Suc prod_eq_iff)

lemmas schedule_effect = schedule_inst_effect [OF sched_inv_before schedule_nth]

lemma barrier_before:
  assumes "i < j" "j \<le> length insts" "reg_dst (insts ! i) = Some r" "15 < latency_of (insts ! i)"
    and "\<And>k. i < k \<Longrightarrow> k < j \<Longrightarrow> reg_dst (insts ! k) = Some r \<Longrightarrow> \<not> 15 < latency_of (insts ! k)"
  shows "barrier_map (state_before insts j) r = Some (write_barrier (control (schedule insts ! i)))"
  using assms(1,2,5)
proof (induction j)
  case (Suc j)
  have j: "j < length insts" using Suc.prems by simp
  show ?case
  proof (cases "i = j")
    case True
    then show ?thesis using schedule_effect(7) [OF j] assms(3,4) by simp
  next
    case False
    then have "barrier_map (state_before insts j) r = Some (write_barrier (control (schedule insts ! i)))"
      using Suc by (intro Suc.IH) auto
    moreover have "reg_dst (insts ! j) = Some r \<Longrightarrow> \<not> 15 < latency_of (insts ! j)"
      using Suc.prems False by auto
    ultimately show ?thesis
      using schedule_effect(7) [OF j] by (auto split: option.splits)
  qed
qed simp

lemma pending_before:
  assumes "i < j" "j \<le> length insts" "reg_dst (insts ! i) = Some r"
    and "\<And>k. i < k \<Longrightarrow> k < j \<Longrightarrow> reg_dst (insts ! k) \<noteq> Some r"
  shows "pending_writes (state_before insts j) r = Some (i, latency_of (insts ! i))"
  using assms(1,2,4)
proof (induction j)
  case (Suc j)
  have j: "j < length insts" using Suc.prems by simp
  show ?case
  proof (cases "i = j")
    case True
    then show ?thesis using schedule_effect(6) [OF j] assms(3) by simp
  next
    case False
    then have "pending_writes (state_before insts j) r = Some (i, latency_of (insts ! i))"
      using Suc by (intro Suc.IH) auto
    moreover have "reg_dst (insts ! j) \<noteq> Some r" using Suc.prems False by auto
    ultimately show ?thesis
      using schedule_effect(6) [OF j] by (auto split: option.splits)
  qed
qed simp

lemma latency_long: "15 < latency_of inst \<longleftrightarrow> opclass (opcode inst) = Load"
  by (cases "opclass (opcode inst)") (auto simp: latency_of_def)

text \<open>
  Scheduling only sets control codes: the program keeps its length and every opcode and operand,
  and each emitted control word has a stall count between 1 and 15, barriers and a wait mask that
  fit their fields, so none is truncated by the encoder.
\<close>

theorem schedule_control_bounds:
  "list_all2 (\<lambda>a b. \<exists>c. b = a\<lparr>control := c\<rparr> \<and> control_ok c \<and> 1 \<le> stall c \<and> stall c \<le> 15)
     insts (schedule insts)"
proof (rule list_all2_all_nthI)
  fix j assume j: "j < length insts"
  obtain c where c: "schedule insts ! j = (insts ! j)\<lparr>control := c\<rparr>" using schedule_effect(1) [OF j] by blast
  have "stall c < 16 \<Longrightarrow> stall c \<le> 15" by (simp add: word_less_nat_alt word_le_nat_alt)
  with c schedule_effect(2,3) [OF j]
  show "\<exists>c. schedule insts ! j = (insts ! j)\<lparr>control := c\<rparr> \<and> control_ok c \<and> 1 \<le> stall c \<and> stall c \<le> 15"
    by (auto simp: control_ok_def)
qed (simp add: schedule_def)

text \<open>
  C26. An instruction that reads a register whose latest load is still outstanding waits for it: if
  instruction \<open>i\<close> loads register \<open>r\<close>, instruction \<open>j\<close> after it reads \<open>r\<close> and no load in between
  writes \<open>r\<close>, then the wait mask emitted for \<open>j\<close> contains the write barrier emitted for \<open>i\<close>. This
  holds for programs of any length, in spite of the 8-bit barrier counter that wraps.
\<close>

theorem schedule_waits_for_loads:
  assumes "i < j" "j < length insts" "opclass (opcode (insts ! i)) = Load" "dst (insts ! i) = Some (Reg_R r)"
    and "r \<in> set (source_registers (insts ! j))"
    and "\<forall>k. i < k \<and> k < j \<and> opclass (opcode (insts ! k)) = Load \<longrightarrow> dst (insts ! k) \<noteq> Some (Reg_R r)"
  shows "bit (wait_mask (control (schedule insts ! j))) (unat (write_barrier (control (schedule insts ! i))))"
proof -
  have "reg_dst (insts ! k) = Some r \<longleftrightarrow> dst (insts ! k) = Some (Reg_R r)" for k
    by (auto simp: reg_dst_def split: option.splits Reg.splits)
  with assms have "barrier_map (state_before insts j) r = Some (write_barrier (control (schedule insts ! i)))"
    by (intro barrier_before) (auto simp: latency_long)
  with assms(2,5) show ?thesis by (auto simp: schedule_effect(4) scan_mask_bit)
qed

abbreviation example_hazard :: "SassInst list" where
  "example_hazard \<equiv> [select_load_global 1 0 0, select_add_i32 2 3 4, select_add_f32 5 1 2]"

theorem schedule_waits_for_loads_witness:
  "bit (wait_mask (control (schedule example_hazard ! 2))) (unat (write_barrier (control (schedule example_hazard ! 0))))"
proof (rule schedule_waits_for_loads [of 0 2 example_hazard 1])
  show "\<forall>k. 0 < k \<and> k < 2 \<and> opclass (opcode (example_hazard ! k)) = Load \<longrightarrow>
      dst (example_hazard ! k) \<noteq> Some (Reg_R 1)"
    by (auto simp: isel_defs less_Suc_eq numeral_2_eq_2)
qed (simp_all add: isel_defs source_registers_def)



text \<open>
  A wait on a barrier discards the stall count of the other operands: in the program that loads
  \<open>R1\<close>, adds into \<open>R2\<close> and adds \<open>R1\<close> and \<open>R2\<close>, the last instruction reads \<open>R2\<close> one slot after an
  instruction of latency 4 but is emitted with stall 1, because it also waits for the load.
\<close>

theorem schedule_wait_drops_stall:
  "wait_mask (control (schedule example_hazard ! 2)) = 1 \<and> stall (control (schedule example_hazard ! 2)) = 1 \<and>
   reg_dst (example_hazard ! 1) = Some 2 \<and> 2 \<in> set (source_registers (example_hazard ! 2)) \<and>
   latency_of (example_hazard ! 1) = 4"
  by code_simp

end
