(* ===== verification/Cubin_Builder.thy ===== *)
theory Cubin_Builder
  imports Sass_Encoding
begin

text \<open>
  The CUBIN writer (\<open>nvidia_sass/src/cubin_builder/mod.rs\<close>): string tables, section headers, the
  per-kernel \<open>.nv.info\<close> and \<open>.nv.constant0\<close> sections, the symbol table and the ELF64 file layout.
  \<open>Layout\<close> is the pair of the output buffer and the section headers that the code threads through;
  \<open>push_section\<close> is the repeated piece of code that appends data and records its header.

  The lemmas show that a string added to a table can be read at the offset returned, and that the
  file is consistent: the header points at the section header table, every header's name, offset and
  size select exactly the name and data of its section (\<open>lay_table\<close>, \<open>cubin_table\<close>), and the size of
  the file is bounded by the module (\<open>cubin_length\<close>).
\<close>

subsection \<open>String tables\<close>

definition strtab_new :: bytes where
  "strtab_new = [0]"

definition strtab_find :: "bytes \<Rightarrow> bytes \<Rightarrow> nat option" where
  "strtab_find data needle =
     (if needle = [] then Some 0
      else
        (let len = length needle in
         List.find (\<lambda>i. i + len + 1 \<le> length data \<and> subslice i (i + len) data = needle \<and> data ! (i + len) = 0)
           [0..<length data]))"

definition strtab_add :: "bytes \<Rightarrow> string \<Rightarrow> u32 \<times> bytes" where
  "strtab_add data s =
     (let needle = str_bytes s in
      case strtab_find data needle of
        Some pos \<Rightarrow> (of_nat pos, data)
      | None \<Rightarrow> (of_nat (length data), data @ str_bytes s @ [0]))"

subsection \<open>Buffers and section headers\<close>

definition align_to :: "bytes \<Rightarrow> nat \<Rightarrow> bytes" where
  "align_to buf alignment =
     (let rem = length buf mod alignment in
      if rem \<noteq> 0 then buf @ replicate (alignment - rem) 0 else buf)"

record SectionHeader =
  sh_name :: u32
  sh_type :: u32
  sh_flags :: u64
  sh_addr :: u64
  sh_offset :: u64
  sh_size :: u64
  sh_link :: u32
  sh_info :: u32
  sh_addralign :: u64
  sh_entsize :: u64

definition write_shdr :: "SectionHeader \<Rightarrow> bytes" where
  "write_shdr h =
     le_u32 (sh_name h) @ le_u32 (sh_type h) @ le_u64 (sh_flags h) @ le_u64 (sh_addr h) @
     le_u64 (sh_offset h) @ le_u64 (sh_size h) @ le_u32 (sh_link h) @ le_u32 (sh_info h) @
     le_u64 (sh_addralign h) @ le_u64 (sh_entsize h)"

abbreviation (input) SHT_NULL :: u32 where "SHT_NULL \<equiv> 0"
abbreviation (input) SHT_PROGBITS :: u32 where "SHT_PROGBITS \<equiv> 1"
abbreviation (input) SHT_SYMTAB :: u32 where "SHT_SYMTAB \<equiv> 2"
abbreviation (input) SHT_STRTAB :: u32 where "SHT_STRTAB \<equiv> 3"
abbreviation (input) SHT_CUDA_INFO :: u32 where "SHT_CUDA_INFO \<equiv> 0x70000000"
abbreviation (input) SHF_ALLOC :: u64 where "SHF_ALLOC \<equiv> 0x2"
abbreviation (input) SHF_EXECINSTR :: u64 where "SHF_EXECINSTR \<equiv> 0x4"
abbreviation (input) TEXT_ALIGNMENT :: nat where "TEXT_ALIGNMENT \<equiv> 128"

subsection \<open>Kernel metadata\<close>

definition EIATTR_REGCOUNT :: u16 where "EIATTR_REGCOUNT = 0x2F04"

definition EIATTR_MAX_THREADS :: u16 where "EIATTR_MAX_THREADS = 0x0504"

definition EIATTR_SMEM_SIZE :: u16 where "EIATTR_SMEM_SIZE = 0x0808"

definition EIATTR_LMEM_SIZE :: u16 where "EIATTR_LMEM_SIZE = 0x0A04"

definition EIATTR_EXIT_INSTR_OFFSETS :: u16 where "EIATTR_EXIT_INSTR_OFFSETS = 0x1C04"

definition find_exit_offsets :: "SassInst list \<Rightarrow> u32 list" where
  "find_exit_offsets insts =
     map (\<lambda>i. of_nat i * 16) (filter (\<lambda>i. mnemonic (opcode (insts ! i)) = ''EXIT'') [0..<length insts])"

definition nv_attr :: "u16 \<Rightarrow> u32 \<Rightarrow> bytes" where
  "nv_attr attr v = le_u16 attr @ le_u16 4 @ le_u32 v"

definition build_nv_info_for_kernel :: "SassKernel \<Rightarrow> u16 \<Rightarrow> bytes" where
  "build_nv_info_for_kernel k text_section_idx =
     nv_attr EIATTR_REGCOUNT (num_registers k) @
     nv_attr EIATTR_MAX_THREADS (max_threads k) @
     (if shared_mem_bytes k > 0 then nv_attr EIATTR_SMEM_SIZE (shared_mem_bytes k) else []) @
     (if local_mem_bytes k > 0 then nv_attr EIATTR_LMEM_SIZE (local_mem_bytes k) else []) @
     concat (map (nv_attr EIATTR_EXIT_INSTR_OFFSETS) (find_exit_offsets (instructions k)))"

definition build_constant0_for_kernel :: "SassKernel \<Rightarrow> bytes" where
  "build_constant0_for_kernel k =
     (let min_size = foldl max 0 (map (\<lambda>(_, off, sz). unat (off + sz)) (params k));
          len = max (unat (const_mem_bytes k)) min_size in
      if len = 0 then replicate 160 0 else replicate (max len 160) 0)"

subsection \<open>Symbols\<close>

record SymbolEntry =
  st_name :: u32
  st_info :: u8
  st_other :: u8
  st_shndx :: u16
  st_value :: u64
  st_size :: u64

definition write_sym :: "SymbolEntry \<Rightarrow> bytes" where
  "write_sym s =
     le_u32 (st_name s) @ [st_info s] @ [st_other s] @ le_u16 (st_shndx s) @ le_u64 (st_value s) @ le_u64 (st_size s)"

definition text_section_idx :: "nat \<Rightarrow> u16" where
  "text_section_idx kernel_idx = of_nat (5 + 3 * kernel_idx)"

definition null_symbol :: SymbolEntry where
  "null_symbol = \<lparr>st_name = 0, st_info = 0, st_other = 0, st_shndx = 0, st_value = 0, st_size = 0\<rparr>"

definition section_symbol :: "nat \<Rightarrow> SymbolEntry" where
  "section_symbol i =
     \<lparr>st_name = 0, st_info = push_bit 4 0 OR 3, st_other = 0, st_shndx = text_section_idx i, st_value = 0, st_size = 0\<rparr>"

definition kernel_symbol :: "u32 list \<Rightarrow> bytes list \<Rightarrow> nat \<Rightarrow> SymbolEntry" where
  "kernel_symbol kernel_name_indices encoded_kernels i =
     \<lparr>st_name = kernel_name_indices ! i, st_info = push_bit 4 1 OR 2, st_other = 0, st_shndx = text_section_idx i,
      st_value = 0, st_size = of_nat (length (encoded_kernels ! i))\<rparr>"

definition build_symbols :: "nat \<Rightarrow> u32 list \<Rightarrow> bytes list \<Rightarrow> SymbolEntry list" where
  "build_symbols num_kernels kernel_name_indices encoded_kernels =
     null_symbol # map section_symbol [0..<num_kernels] @
     map (kernel_symbol kernel_name_indices encoded_kernels) [0..<num_kernels]"

subsection \<open>Section names\<close>

text \<open>The loop that adds the three section names of each kernel to \<open>.shstrtab\<close>.\<close>

fun add_kernel_names :: "bytes \<Rightarrow> SassKernel list \<Rightarrow> (u32 \<times> u32 \<times> u32) list \<times> bytes" where
  "add_kernel_names shstrtab [] = ([], shstrtab)"
| "add_kernel_names shstrtab (k # ks) =
     (let (t, shstrtab) = strtab_add shstrtab (''.text.'' @ kname k);
          (n, shstrtab) = strtab_add shstrtab (''.nv.info.'' @ kname k);
          (c, shstrtab) = strtab_add shstrtab (''.nv.constant0.'' @ kname k);
          (rest, shstrtab) = add_kernel_names shstrtab ks
      in ((t, n, c) # rest, shstrtab))"

fun add_symbol_names :: "bytes \<Rightarrow> SassKernel list \<Rightarrow> u32 list \<times> bytes" where
  "add_symbol_names strtab [] = ([], strtab)"
| "add_symbol_names strtab (k # ks) =
     (let (i, strtab) = strtab_add strtab (kname k);
          (rest, strtab) = add_symbol_names strtab ks
      in (i # rest, strtab))"

subsection \<open>File layout\<close>

type_synonym Layout = "bytes \<times> SectionHeader list"

text \<open>Append the data of a section and record its header, which is given the offset and the size.\<close>

definition push_section :: "(u64 \<Rightarrow> u64 \<Rightarrow> SectionHeader) \<Rightarrow> bytes \<Rightarrow> Layout \<Rightarrow> Layout" where
  "push_section hdr data lay =
     (let (out, headers) = lay in
      (out @ data, headers @ [hdr (of_nat (length out)) (of_nat (length data))]))"

definition align_layout :: "nat \<Rightarrow> Layout \<Rightarrow> Layout" where
  "align_layout alignment lay = (let (out, headers) = lay in (align_to out alignment, headers))"

definition null_header :: SectionHeader where
  "null_header =
     \<lparr>sh_name = 0, sh_type = SHT_NULL, sh_flags = 0, sh_addr = 0, sh_offset = 0, sh_size = 0, sh_link = 0,
      sh_info = 0, sh_addralign = 0, sh_entsize = 0\<rparr>"

definition strtab_header :: "u32 \<Rightarrow> u64 \<Rightarrow> u64 \<Rightarrow> SectionHeader" where
  "strtab_header name offset len =
     \<lparr>sh_name = name, sh_type = SHT_STRTAB, sh_flags = 0, sh_addr = 0, sh_offset = offset, sh_size = len,
      sh_link = 0, sh_info = 0, sh_addralign = 1, sh_entsize = 0\<rparr>"

definition symtab_header :: "u32 \<Rightarrow> u32 \<Rightarrow> u64 \<Rightarrow> u64 \<Rightarrow> SectionHeader" where
  "symtab_header name first_global offset len =
     \<lparr>sh_name = name, sh_type = SHT_SYMTAB, sh_flags = 0, sh_addr = 0, sh_offset = offset, sh_size = len,
      sh_link = 2, sh_info = first_global, sh_addralign = 8, sh_entsize = 24\<rparr>"

definition nv_info_header :: "u32 \<Rightarrow> u32 \<Rightarrow> u64 \<Rightarrow> u64 \<Rightarrow> SectionHeader" where
  "nv_info_header name info offset len =
     \<lparr>sh_name = name, sh_type = SHT_CUDA_INFO, sh_flags = 0, sh_addr = 0, sh_offset = offset, sh_size = len,
      sh_link = 0, sh_info = info, sh_addralign = 4, sh_entsize = 0\<rparr>"

definition text_header :: "u32 \<Rightarrow> u32 \<Rightarrow> u64 \<Rightarrow> u64 \<Rightarrow> SectionHeader" where
  "text_header name info offset len =
     \<lparr>sh_name = name, sh_type = SHT_PROGBITS, sh_flags = SHF_ALLOC OR SHF_EXECINSTR, sh_addr = 0,
      sh_offset = offset, sh_size = len, sh_link = 3, sh_info = info,
      sh_addralign = of_nat TEXT_ALIGNMENT, sh_entsize = 0\<rparr>"

definition const0_header :: "u32 \<Rightarrow> u64 \<Rightarrow> u64 \<Rightarrow> SectionHeader" where
  "const0_header name offset len =
     \<lparr>sh_name = name, sh_type = SHT_PROGBITS, sh_flags = SHF_ALLOC, sh_addr = 0, sh_offset = offset,
      sh_size = len, sh_link = 0, sh_info = 0, sh_addralign = 4, sh_entsize = 0\<rparr>"

text \<open>One round of the loop over the kernels.\<close>

definition push_kernel ::
  "u32 \<Rightarrow> (u32 \<times> u32 \<times> u32) list \<Rightarrow> SassKernel list \<Rightarrow> bytes list \<Rightarrow> nat \<Rightarrow> Layout \<Rightarrow> Layout" where
  "push_kernel first_global names ks encoded_kernels i lay =
     (let (text_name, nv_info_name, const0_name) = names ! i;
          lay = align_layout TEXT_ALIGNMENT lay;
          lay = push_section (text_header text_name (first_global + of_nat i)) (encoded_kernels ! i) lay;
          lay = align_layout 4 lay;
          lay = push_section (nv_info_header nv_info_name (ucast (text_section_idx i)))
                  (build_nv_info_for_kernel (ks ! i) (text_section_idx i)) lay;
          lay = align_layout 4 lay
      in push_section (const0_header const0_name) (build_constant0_for_kernel (ks ! i)) lay)"

definition patch_elf_header :: "u64 \<Rightarrow> u32 \<Rightarrow> nat \<Rightarrow> bytes \<Rightarrow> bytes" where
  "patch_elf_header shdr_offset sm num_sections out =
     (let out = overwrite 0 [0x7F, 0x45, 0x4C, 0x46] out;
          out = overwrite 4 [2] out;
          out = overwrite 5 [1] out;
          out = overwrite 6 [1] out;
          out = overwrite 7 [0] out;
          out = overwrite 16 (le_u16 2) out;
          out = overwrite 18 (le_u16 190) out;
          out = overwrite 20 (le_u32 1) out;
          out = overwrite 24 (le_u64 0) out;
          out = overwrite 32 (le_u64 0) out;
          out = overwrite 40 (le_u64 shdr_offset) out;
          out = overwrite 48 (le_u32 sm) out;
          out = overwrite 52 (le_u16 64) out;
          out = overwrite 54 (le_u16 0) out;
          out = overwrite 56 (le_u16 0) out;
          out = overwrite 58 (le_u16 64) out;
          out = overwrite 60 (le_u16 (of_nat num_sections)) out
      in overwrite 62 (le_u16 1) out)"

subsection \<open>The writer\<close>

definition encode_kernels :: "SassModule \<Rightarrow> (bytes list, NvSassError) outcome" where
  "encode_kernels m =
     omap_list (\<lambda>k. obind (encode_kernel k (sm_version m)) (\<lambda>insts. Ok (concat insts))) (kernels m)"

definition layout_sections :: "SassModule \<Rightarrow> bytes list \<Rightarrow> Layout" where
  "layout_sections m encoded_kernels =
     (let (shstrtab_name, shstrtab) = strtab_add strtab_new ''.shstrtab'';
          (strtab_name, shstrtab) = strtab_add shstrtab ''.strtab'';
          (symtab_name, shstrtab) = strtab_add shstrtab ''.symtab'';
          (nv_info_name, shstrtab) = strtab_add shstrtab ''.nv.info'';
          (names, shstrtab) = add_kernel_names shstrtab (kernels m);
          (kernel_name_indices, strtab) = add_symbol_names strtab_new (kernels m);
          num_kernels = length (kernels m);
          symbols = build_symbols num_kernels kernel_name_indices encoded_kernels;
          first_global = of_nat (1 + num_kernels);
          lay = (replicate 64 0, [null_header]);
          lay = push_section (strtab_header shstrtab_name) shstrtab lay;
          lay = push_section (strtab_header strtab_name) strtab lay;
          lay = align_layout 8 lay;
          lay = push_section (symtab_header symtab_name first_global) (concat (map write_sym symbols)) lay;
          lay = push_section (nv_info_header nv_info_name 0) [] lay
      in foldl (\<lambda>lay i. push_kernel first_global names (kernels m) encoded_kernels i lay) lay [0..<num_kernels])"

definition build_cubin_from_module :: "SassModule \<Rightarrow> (bytes, NvSassError) outcome" where
  "build_cubin_from_module m =
     obind (encode_kernels m) (\<lambda>encoded_kernels.
     let (out, headers) = align_layout 8 (layout_sections m encoded_kernels);
         shdr_offset = of_nat (length out);
         out = out @ concat (map write_shdr headers);
         num_sections = 5 + 3 * length (kernels m)
     in Ok (patch_elf_header shdr_offset (sm_version m) num_sections out))"

subsection \<open>Strings can be read back\<close>

definition reads :: "bytes \<Rightarrow> nat \<Rightarrow> bytes \<Rightarrow> bool" where
  "reads data off s \<longleftrightarrow> 0 \<notin> set s \<and> (\<exists>post. drop off data = s @ 0 # post)"

definition cstr :: "bytes \<Rightarrow> nat \<Rightarrow> bytes" where
  "cstr data off = takeWhile (\<lambda>b. b \<noteq> 0) (drop off data)"

lemma cstr_reads: "reads data off s \<Longrightarrow> cstr data off = s"
proof -
  have "0 \<notin> set s \<Longrightarrow> takeWhile (\<lambda>b. b \<noteq> 0) (s @ 0 # post) = s" for post :: bytes
    by (induction s) auto
  moreover assume "reads data off s"
  ultimately show ?thesis by (auto simp: reads_def cstr_def)
qed

lemma reads_append: "reads data off s \<Longrightarrow> reads (data @ xs) off s"
proof -
  assume r: "reads data off s"
  then have "off \<le> length data" unfolding reads_def
    by (metis append_is_Nil_conv drop_all linorder_not_le list.distinct(1) nat_less_le)
  with r show ?thesis by (auto simp: reads_def)
qed

lemma strtab_add_extends: "strtab_add data s = (i, data') \<Longrightarrow> \<exists>xs. data' = data @ xs"
  by (auto simp: strtab_add_def Let_def split: option.splits)

lemma strtab_add_reads:
  assumes "strtab_add data s = (i, data')" "0 \<notin> set (str_bytes s)" "length data' < 2 ^ 32" "data \<noteq> []" "hd data = 0"
  shows "reads data' (unat i) (str_bytes s)"
proof (cases "strtab_find data (str_bytes s)")
  case None
  then have "unat i = length data" "data' = data @ str_bytes s @ [0]"
    using assms by (auto simp: strtab_add_def Let_def unsigned_of_nat take_bit_nat_eq_self)
  then show ?thesis using assms(2) by (simp add: reads_def)
next
  case (Some pos)
  have d: "data' = data" and i: "i = of_nat pos" using Some assms(1) by (auto simp: strtab_add_def Let_def)
  show ?thesis
  proof (cases "str_bytes s = []")
    case True
    then have "pos = 0" using Some by (simp add: strtab_find_def)
    then show ?thesis using True assms(4,5) i d by (cases data) (auto simp: reads_def)
  next
    case False
    let ?n = "length (str_bytes s)"
    have p: "pos + ?n + 1 \<le> length data" "subslice pos (pos + ?n) data = str_bytes s" "data ! (pos + ?n) = 0"
      using Some False by (auto simp: strtab_find_def Let_def find_Some_iff)
    have "unat i = pos" using p assms(3) d i by (simp add: unsigned_of_nat take_bit_nat_eq_self)
    moreover have "drop pos data = str_bytes s @ 0 # drop (Suc (pos + ?n)) data"
      using p id_take_nth_drop [of ?n "drop pos data"] by (simp add: subslice_def add.commute)
    ultimately show ?thesis using assms(2) d by (auto simp: reads_def)
  qed
qed

definition table_ok :: "bytes \<Rightarrow> bool" where
  "table_ok data \<longleftrightarrow> data \<noteq> [] \<and> hd data = 0"

lemma table_ok_new [simp]: "table_ok strtab_new"
  by (simp add: table_ok_def strtab_new_def)

lemma table_ok_append: "table_ok data \<Longrightarrow> table_ok (data @ xs)"
  by (simp add: table_ok_def)

lemma strtab_add_ok: "strtab_add data s = (i, data') \<Longrightarrow> table_ok data \<Longrightarrow> table_ok data'"
  using strtab_add_extends [of data s i data'] by (auto simp: table_ok_append)

definition nul_free :: "SassKernel \<Rightarrow> bool" where
  "nul_free k \<longleftrightarrow> 0 \<notin> set (str_bytes (kname k))"

lemma str_bytes_append: "str_bytes (s @ t) = str_bytes s @ str_bytes t"
  by (simp add: str_bytes_def)

lemma section_prefix: "0 \<notin> set (str_bytes ''.text.'')" "0 \<notin> set (str_bytes ''.nv.info.'')"
  "0 \<notin> set (str_bytes ''.nv.constant0.'')"
  by code_simp+

lemma name_nul_free:
  "nul_free k \<Longrightarrow> 0 \<notin> set (str_bytes (''.text.'' @ kname k))"
  "nul_free k \<Longrightarrow> 0 \<notin> set (str_bytes (''.nv.info.'' @ kname k))"
  "nul_free k \<Longrightarrow> 0 \<notin> set (str_bytes (''.nv.constant0.'' @ kname k))"
  using section_prefix by (simp_all only: str_bytes_append set_append Un_iff nul_free_def not_False_eq_True simp_thms)

text \<open>The string at a recorded offset stays readable while the table grows.\<close>

lemma strtab_add_later:
  assumes "strtab_add data s = (i, d1)" "0 \<notin> set (str_bytes s)" "data' = d1 @ xs" "length data' < 2 ^ 32" "table_ok data"
  shows "reads data' (unat i) (str_bytes s)"
proof -
  have "reads d1 (unat i) (str_bytes s)"
    by (rule strtab_add_reads [OF assms(1,2)]) (use assms(3-5) in \<open>auto simp: table_ok_def\<close>)
  then show ?thesis using reads_append assms(3) by blast
qed

lemma add_kernel_names_extends:
  "add_kernel_names data ks = (names, data') \<Longrightarrow> \<exists>xs. data' = data @ xs"
proof (induction ks arbitrary: data names data')
  case (Cons k ks)
  then show ?case
    by (fastforce simp: Let_def split: prod.splits dest!: strtab_add_extends)
qed simp

abbreviation kernel_names_read :: "bytes \<Rightarrow> SassKernel \<Rightarrow> u32 \<times> u32 \<times> u32 \<Rightarrow> bool" where
  "kernel_names_read data k nm \<equiv>
     reads data (unat (fst nm)) (str_bytes (''.text.'' @ kname k)) \<and>
     reads data (unat (fst (snd nm))) (str_bytes (''.nv.info.'' @ kname k)) \<and>
     reads data (unat (snd (snd nm))) (str_bytes (''.nv.constant0.'' @ kname k))"

lemma add_kernel_names_reads:
  assumes "add_kernel_names data ks = (names, data')" "list_all nul_free ks" "length data' < 2 ^ 32" "table_ok data"
  shows "list_all2 (kernel_names_read data') ks names"
  using assms
proof (induction ks arbitrary: data names data')
  case (Cons k ks)
  obtain t d1 n d2 c d3 rest where
    1: "strtab_add data (''.text.'' @ kname k) = (t, d1)"
    and 2: "strtab_add d1 (''.nv.info.'' @ kname k) = (n, d2)"
    and 3: "strtab_add d2 (''.nv.constant0.'' @ kname k) = (c, d3)"
    and 4: "add_kernel_names d3 ks = (rest, data')" and names: "names = (t, n, c) # rest"
    using Cons.prems(1) by (auto simp: Let_def split: prod.splits)
  obtain x1 x2 x3 where xs: "d2 = d1 @ x1" "d3 = d2 @ x2" "data' = d3 @ x3"
    using strtab_add_extends [OF 2] strtab_add_extends [OF 3] add_kernel_names_extends [OF 4] by auto
  have nul: "nul_free k" using Cons.prems(2) by simp
  have ok: "table_ok d1" "table_ok d2" "table_ok d3" using Cons.prems(4) 1 2 3 strtab_add_ok by metis+
  have "kernel_names_read data' k (t, n, c)"
    using strtab_add_later [OF 1 name_nul_free(1) [OF nul] _ Cons.prems(3,4)]
      strtab_add_later [OF 2 name_nul_free(2) [OF nul] _ Cons.prems(3) ok(1)]
      strtab_add_later [OF 3 name_nul_free(3) [OF nul] _ Cons.prems(3) ok(2)] xs by simp
  moreover have "list_all2 (kernel_names_read data') ks rest"
    using Cons.IH [OF 4 _ Cons.prems(3) ok(3)] Cons.prems(2) by simp
  ultimately show ?case by (simp add: names)
qed simp

subsection \<open>Sections stay where they were placed\<close>

definition placed :: "bytes \<Rightarrow> SectionHeader \<Rightarrow> bytes \<Rightarrow> bool" where
  "placed out h d \<longleftrightarrow>
     (\<exists>off. sh_offset h = of_nat off \<and> sh_size h = of_nat (length d) \<and> 64 \<le> off \<and> off + length d \<le> length out \<and>
        subslice off (off + length d) out = d)"

lemma placed_append: "placed out h d \<Longrightarrow> placed (out @ xs) h d"
  unfolding placed_def by (auto simp: subslice_append1)

lemma placed_end:
  "64 \<le> length out \<Longrightarrow> sh_offset h = of_nat (length out) \<Longrightarrow> sh_size h = of_nat (length d) \<Longrightarrow> placed (out @ d) h d"
  unfolding placed_def by (rule exI [of _ "length out"]) (simp add: subslice_def)

lemma align_to_extends: "\<exists>xs. align_to buf n = buf @ xs"
  by (auto simp: align_to_def Let_def)

text \<open>
  \<open>lay_table lay tab\<close>: behind the null header, the headers recorded so far name and delimit the
  sections of \<open>tab\<close>, in order.
\<close>

definition lay_table :: "Layout \<Rightarrow> (u32 \<times> bytes) list \<Rightarrow> bool" where
  "lay_table lay tab \<longleftrightarrow> 64 \<le> length (fst lay) \<and> snd lay \<noteq> [] \<and>
     list_all2 (\<lambda>h s. sh_name h = fst s \<and> placed (fst lay) h (snd s)) (tl (snd lay)) tab"

lemma lay_table_grow:
  "lay_table (out, hs) tab \<Longrightarrow> lay_table (out @ xs, hs) tab"
  unfolding lay_table_def by (auto elim!: list_all2_mono intro: placed_append)

lemma lay_table_align: "lay_table lay tab \<Longrightarrow> lay_table (align_layout n lay) tab"
  using align_to_extends [of "fst lay" n] lay_table_grow [of "fst lay" "snd lay" tab]
  by (cases lay) (auto simp: align_layout_def)

lemma lay_table_push:
  assumes "lay_table lay tab" "\<And>off len. sh_name (hdr off len) = nm \<and> sh_offset (hdr off len) = off \<and> sh_size (hdr off len) = len"
  shows "lay_table (push_section hdr d lay) (tab @ [(nm, d)])"
proof -
  obtain out hs where lay: "lay = (out, hs)" by (rule prod.exhaust)
  have g: "lay_table (out @ d, hs) tab" using assms(1) lay_table_grow lay by simp
  have "placed (out @ d) (hdr (of_nat (length out)) (of_nat (length d))) d"
    using assms lay by (intro placed_end) (simp_all add: lay_table_def)
  then show ?thesis
    using g assms(2) by (auto simp: push_section_def lay lay_table_def intro!: list_all2_appendI)
qed

lemmas header_defs = text_header_def nv_info_header_def const0_header_def strtab_header_def symtab_header_def

definition kernel_table :: "(u32 \<times> u32 \<times> u32) list \<Rightarrow> SassKernel list \<Rightarrow> bytes list \<Rightarrow> nat \<Rightarrow> (u32 \<times> bytes) list" where
  "kernel_table names ks enc i =
     [(fst (names ! i), enc ! i),
      (fst (snd (names ! i)), build_nv_info_for_kernel (ks ! i) (text_section_idx i)),
      (snd (snd (names ! i)), build_constant0_for_kernel (ks ! i))]"

lemma push_kernel_table:
  assumes "lay_table lay tab"
  shows "lay_table (push_kernel g names ks enc i lay) (tab @ kernel_table names ks enc i)"
proof -
  obtain t ni c where names: "names ! i = (t, ni, c)" by (metis prod_cases3)
  let ?b = "push_section (text_header t (g + of_nat i)) (enc ! i) (align_layout TEXT_ALIGNMENT lay)"
  let ?d = "push_section (nv_info_header ni (ucast (text_section_idx i)))
      (build_nv_info_for_kernel (ks ! i) (text_section_idx i)) (align_layout 4 ?b)"
  have "lay_table ?b (tab @ [(t, enc ! i)])"
    by (rule lay_table_push [OF lay_table_align [OF assms]]) (simp add: header_defs)
  from lay_table_align [OF this, of 4]
  have "lay_table ?d ((tab @ [(t, enc ! i)]) @ [(ni, build_nv_info_for_kernel (ks ! i) (text_section_idx i))])"
    by (rule lay_table_push) (simp add: header_defs)
  from lay_table_align [OF this, of 4]
  have "lay_table (push_section (const0_header c) (build_constant0_for_kernel (ks ! i)) (align_layout 4 ?d))
      (((tab @ [(t, enc ! i)]) @ [(ni, build_nv_info_for_kernel (ks ! i) (text_section_idx i))]) @
        [(c, build_constant0_for_kernel (ks ! i))])"
    by (rule lay_table_push) (simp add: header_defs)
  then show ?thesis by (simp add: push_kernel_def names Let_def kernel_table_def)
qed

lemma push_kernels_table:
  "lay_table lay tab \<Longrightarrow> lay_table (foldl (\<lambda>lay i. push_kernel g names ks enc i lay) lay is)
     (tab @ concat (map (kernel_table names ks enc) is))"
proof (induction "is" arbitrary: lay tab)
  case (Cons i "is")
  show ?case using Cons.IH [OF push_kernel_table [OF Cons.prems]] by simp
qed simp

text \<open>The tables that \<open>layout_sections\<close> builds, and the sections it lays out from them.\<close>

lemma layout_sections_table:
  obtains n1 n2 n3 n4 t1 t2 t3 t4 names sh st sy where
    "strtab_add strtab_new ''.shstrtab'' = (n1, t1)" "strtab_add t1 ''.strtab'' = (n2, t2)"
    "strtab_add t2 ''.symtab'' = (n3, t3)" "strtab_add t3 ''.nv.info'' = (n4, t4)"
    "add_kernel_names t4 (kernels m) = (names, sh)"
    "lay_table (layout_sections m enc) ([(n1, sh), (n2, st), (n3, sy), (n4, [])] @
       concat (map (kernel_table names (kernels m) enc) [0..<length (kernels m)]))"
proof -
  obtain n1 t1 where s1: "strtab_add strtab_new ''.shstrtab'' = (n1, t1)" by (rule prod.exhaust)
  obtain n2 t2 where s2: "strtab_add t1 ''.strtab'' = (n2, t2)" by (rule prod.exhaust)
  obtain n3 t3 where s3: "strtab_add t2 ''.symtab'' = (n3, t3)" by (rule prod.exhaust)
  obtain n4 t4 where s4: "strtab_add t3 ''.nv.info'' = (n4, t4)" by (rule prod.exhaust)
  obtain names sh where s5: "add_kernel_names t4 (kernels m) = (names, sh)" by (rule prod.exhaust)
  obtain kn st where s6: "add_symbol_names strtab_new (kernels m) = (kn, st)" by (rule prod.exhaust)
  let ?n = "length (kernels m)"
  let ?g = "of_nat (1 + ?n) :: u32"
  let ?sym = "concat (map write_sym (build_symbols ?n kn enc))"
  let ?z = "(replicate 64 0, [null_header])"
  have "lay_table ?z []" by (simp add: lay_table_def)
  then have "lay_table (push_section (strtab_header n1) sh ?z) ([] @ [(n1, sh)])"
    by (rule lay_table_push) (simp add: header_defs)
  then have "lay_table (push_section (strtab_header n2) st (push_section (strtab_header n1) sh ?z)) (([] @ [(n1, sh)]) @ [(n2, st)])"
    by (rule lay_table_push) (simp add: header_defs)
  note lay_table_push [OF lay_table_align [OF this, of 8], of "symtab_header n3 ?g" n3 ?sym]
  then have "lay_table (push_section (symtab_header n3 ?g) ?sym (align_layout 8
      (push_section (strtab_header n2) st (push_section (strtab_header n1) sh ?z)))) ((([] @ [(n1, sh)]) @ [(n2, st)]) @ [(n3, ?sym)])"
    by (simp add: header_defs)
  note lay_table_push [OF this, of "nv_info_header n4 0" n4 "[]"]
  then have "lay_table (push_section (nv_info_header n4 0) [] (push_section (symtab_header n3 ?g) ?sym (align_layout 8
      (push_section (strtab_header n2) st (push_section (strtab_header n1) sh ?z))))) [(n1, sh), (n2, st), (n3, ?sym), (n4, [])]"
    by (simp add: header_defs)
  note push_kernels_table [OF this, of ?g names "kernels m" enc "[0..<?n]"]
  then have "lay_table (layout_sections m enc) ([(n1, sh), (n2, st), (n3, ?sym), (n4, [])] @
       concat (map (kernel_table names (kernels m) enc) [0..<?n]))"
    unfolding layout_sections_def s1 s2 s3 s4 s5 s6 Let_def prod.case .
  then show ?thesis by (rule that [OF s1 s2 s3 s4 s5])
qed

subsection \<open>Reading the file\<close>

text \<open>The fields an ELF64 reader looks at.\<close>

definition rd16 :: "bytes \<Rightarrow> nat \<Rightarrow> u16" where "rd16 b p = from_le (subslice p (p + 2) b)"

definition rd32 :: "bytes \<Rightarrow> nat \<Rightarrow> u32" where "rd32 b p = from_le (subslice p (p + 4) b)"

definition rd64 :: "bytes \<Rightarrow> nat \<Rightarrow> u64" where "rd64 b p = from_le (subslice p (p + 8) b)"

definition shdr_at :: "bytes \<Rightarrow> nat \<Rightarrow> nat" where
  "shdr_at b i = unat (rd64 b 40) + 64 * i"

definition section_bytes :: "bytes \<Rightarrow> nat \<Rightarrow> bytes" where
  "section_bytes b i =
     (let off = unat (rd64 b (shdr_at b i + 24)); len = unat (rd64 b (shdr_at b i + 32)) in subslice off (off + len) b)"

definition section_name :: "bytes \<Rightarrow> nat \<Rightarrow> bytes" where
  "section_name b i = cstr (section_bytes b (unat (rd16 b 62))) (unat (rd32 b (shdr_at b i)))"

lemma subslice_overwrite_off:
  "off + length d \<le> length xs \<Longrightarrow> b \<le> off \<or> off + length d \<le> a \<Longrightarrow> subslice a b (overwrite off d xs) = subslice a b xs"
  by (rule nth_equalityI) (auto simp: nth_subslice nth_overwrite)

lemma subslice_overwrite_at:
  "off + length d \<le> length xs \<Longrightarrow> b = off + length d \<Longrightarrow> subslice off b (overwrite off d xs) = d"
  by (rule nth_equalityI) (auto simp: nth_subslice nth_overwrite)

primrec patches :: "(nat \<times> bytes) list \<Rightarrow> bytes \<Rightarrow> bytes" where
  "patches [] b = b"
| "patches (p # ps) b = patches ps (overwrite (fst p) (snd p) b)"

definition patch_list :: "u64 \<Rightarrow> u32 \<Rightarrow> nat \<Rightarrow> (nat \<times> bytes) list" where
  "patch_list so sm n =
     [(0, [0x7F, 0x45, 0x4C, 0x46]), (4, [2]), (5, [1]), (6, [1]), (7, [0]), (16, le_u16 2), (18, le_u16 190),
      (20, le_u32 1), (24, le_u64 0), (32, le_u64 0), (40, le_u64 so), (48, le_u32 sm), (52, le_u16 64),
      (54, le_u16 0), (56, le_u16 0), (58, le_u16 64), (60, le_u16 (of_nat n)), (62, le_u16 1)]"

lemma patch_header_patches: "patch_elf_header so sm n out = patches (patch_list so sm n) out"
  by (simp add: patch_elf_header_def patch_list_def Let_def)

lemma patches_append: "patches (ps @ qs) b = patches qs (patches ps b)"
  by (induction ps arbitrary: b) auto

lemma length_patches: "list_all (\<lambda>p. fst p + length (snd p) \<le> length b) ps \<Longrightarrow> length (patches ps b) = length b"
  by (induction ps arbitrary: b) auto

lemma patches_off:
  "list_all (\<lambda>p. fst p + length (snd p) \<le> length b \<and> (c \<le> fst p \<or> fst p + length (snd p) \<le> a)) ps \<Longrightarrow>
   subslice a c (patches ps b) = subslice a c b"
  by (induction ps arbitrary: b) (auto simp: subslice_overwrite_off)

lemma patches_at:
  assumes "ps = qs @ (a, d) # rs" "list_all (\<lambda>p. fst p + length (snd p) \<le> 64) ps" "64 \<le> length b" "c = a + length d"
    and "list_all (\<lambda>p. c \<le> fst p \<or> fst p + length (snd p) \<le> a) rs"
  shows "subslice a c (patches ps b) = d"
proof -
  let ?b = "patches qs b"
  have fits: "list_all (\<lambda>p. fst p + length (snd p) \<le> length b) ps"
    using assms(2,3) by (auto simp: list_all_iff)
  then have len: "length ?b = length b" using assms(1) by (intro length_patches) simp
  have "subslice a c (patches rs (overwrite a d ?b)) = subslice a c (overwrite a d ?b)"
    using assms(1,5) fits len by (intro patches_off) (auto simp: list_all_iff)
  also have "\<dots> = d" using assms(1,4) fits len by (intro subslice_overwrite_at) auto
  finally show ?thesis by (simp add: assms(1) patches_append)
qed

lemma patch_list_fits: "list_all (\<lambda>p. fst p + length (snd p) \<le> 64) (patch_list so sm n)"
  by (simp add: patch_list_def)

lemma patch_fields:
  assumes len: "64 \<le> length out" and b: "b = patch_elf_header so sm n out"
  shows "length b = length out" "64 \<le> a \<Longrightarrow> subslice a c b = subslice a c out"
    "subslice 0 4 b = [0x7F, 0x45, 0x4C, 0x46]" "subslice 4 5 b = [2]" "subslice 5 6 b = [1]"
    "rd16 b 18 = 190" "rd64 b 40 = so" "rd32 b 48 = sm" "rd16 b 60 = of_nat n" "rd16 b 62 = 1"
proof -
  note fits = patch_list_fits [of so sm n]
  have f: "list_all (\<lambda>p. fst p + length (snd p) \<le> length out) (patch_list so sm n)"
    using len fits by (auto simp: list_all_iff)
  show "length b = length out" unfolding b patch_header_patches by (rule length_patches [OF f])
  show "64 \<le> a \<Longrightarrow> subslice a c b = subslice a c out"
    unfolding b patch_header_patches using fits f by (intro patches_off) (auto simp: list_all_iff)
  note at = patches_at [OF _ fits len]
  have s: "subslice 0 4 b = [0x7F, 0x45, 0x4C, 0x46]" "subslice 4 5 b = [2]" "subslice 5 6 b = [1]"
    "subslice 18 20 b = le_u16 190" "subslice 40 48 b = le_u64 so" "subslice 48 52 b = le_u32 sm"
    "subslice 60 62 b = le_u16 (of_nat n)" "subslice 62 64 b = le_u16 1"
    unfolding b patch_header_patches
    by (rule at [where qs = "take 0 (patch_list so sm n)"], simp add: patch_list_def, simp, simp add: patch_list_def)
      (rule at [where qs = "take 1 (patch_list so sm n)"], simp add: patch_list_def, simp, simp add: patch_list_def,
       rule at [where qs = "take 2 (patch_list so sm n)"], simp add: patch_list_def, simp, simp add: patch_list_def,
       rule at [where qs = "take 6 (patch_list so sm n)"], simp add: patch_list_def, simp, simp add: patch_list_def,
       rule at [where qs = "take 10 (patch_list so sm n)"], simp add: patch_list_def, simp, simp add: patch_list_def,
       rule at [where qs = "take 11 (patch_list so sm n)"], simp add: patch_list_def, simp, simp add: patch_list_def,
       rule at [where qs = "take 16 (patch_list so sm n)"], simp add: patch_list_def, simp, simp add: patch_list_def,
       rule at [where qs = "take 17 (patch_list so sm n)"], simp add: patch_list_def, simp, simp add: patch_list_def)
  show "subslice 0 4 b = [0x7F, 0x45, 0x4C, 0x46]" "subslice 4 5 b = [2]" "subslice 5 6 b = [1]" by (fact s)+
  show "rd16 b 18 = 190" "rd64 b 40 = so" "rd32 b 48 = sm" "rd16 b 60 = of_nat n" "rd16 b 62 = 1"
    by (simp_all add: rd16_def rd32_def rd64_def s)
qed

lemma length_write_shdr [simp]: "length (write_shdr h) = 64"
  by (simp add: write_shdr_def)

lemma concat_shdr_nth:
  "i < length hs \<Longrightarrow> subslice (64 * i) (64 * i + 64) (concat (map write_shdr hs)) = write_shdr (hs ! i)"
proof (induction hs arbitrary: i)
  case (Cons h hs)
  then show ?case
    by (cases i) (auto simp: subslice_append1 subslice_append2 subslice_whole add.commute)
qed simp

lemma shdr_fields:
  "from_le (subslice 0 4 (write_shdr h)) = sh_name h" "from_le (subslice 24 32 (write_shdr h)) = sh_offset h"
  "from_le (subslice 32 40 (write_shdr h)) = sh_size h"
proof -
  let ?a = "le_u32 (sh_name h) @ le_u32 (sh_type h) @ le_u64 (sh_flags h) @ le_u64 (sh_addr h)"
  let ?z = "le_u32 (sh_link h) @ le_u32 (sh_info h) @ le_u64 (sh_addralign h) @ le_u64 (sh_entsize h)"
  have w: "write_shdr h = ?a @ le_u64 (sh_offset h) @ le_u64 (sh_size h) @ ?z" by (simp add: write_shdr_def)
  show "from_le (subslice 24 32 (write_shdr h)) = sh_offset h"
    unfolding w by (rule u64_le.dec_field) simp_all
  have w2: "write_shdr h = (?a @ le_u64 (sh_offset h)) @ le_u64 (sh_size h) @ ?z" by (simp add: write_shdr_def)
  show "from_le (subslice 32 40 (write_shdr h)) = sh_size h"
    unfolding w2 by (rule u64_le.dec_field) simp_all
  have w3: "write_shdr h = [] @ le_u32 (sh_name h) @ drop 4 (write_shdr h)" by (simp add: write_shdr_def)
  show "from_le (subslice 0 4 (write_shdr h)) = sh_name h"
    by (subst w3, rule u32_le.dec_field) simp_all
qed

text \<open>A file whose section header table is written behind its sections.\<close>

lemma file_sections:
  assumes lay: "lay_table (out, hs) tab" and i: "i < length tab"
    and b: "b = patch_elf_header (of_nat (length out)) sm n (out @ concat (map write_shdr hs))"
    and small: "length b < 2 ^ 32"
  shows "section_bytes b (Suc i) = snd (tab ! i)" "rd32 b (shdr_at b (Suc i)) = fst (tab ! i)"
proof -
  let ?f = "out @ concat (map write_shdr hs)"
  let ?i = "Suc i" and ?d = "snd (tab ! i)"
  define h where "h = hs ! ?i"
  have len: "64 \<le> length out" using lay by (simp add: lay_table_def)
  have hs: "?i < length hs" "hs ! ?i = h" and nm: "sh_name h = fst (tab ! i)" and pl: "placed out h ?d"
    using lay i by (auto simp: lay_table_def list_all2_conv_all_nth nth_tl h_def)
  have l64: "64 \<le> length ?f" using len by simp
  have blen: "length b = length ?f" by (rule patch_fields(1) [OF l64 b])
  have bsub: "64 \<le> a \<Longrightarrow> subslice a c b = subslice a c ?f" for a c
    by (rule patch_fields(2) [OF l64 b])
  have out32: "length out < 2 ^ 32" using small blen by simp
  have "rd64 b 40 = of_nat (length out)" by (rule patch_fields(7) [OF l64 b])
  then have at: "shdr_at b ?i = length out + 64 * ?i"
    using out32 by (simp add: shdr_at_def unsigned_of_nat take_bit_nat_eq_self)
  have "subslice (length out + 64 * ?i) (length out + 64 * ?i + 64) b = write_shdr h"
    using hs len concat_shdr_nth [of ?i hs] by (simp add: bsub subslice_append2)
  then have hdr: "subslice (shdr_at b ?i + x) (shdr_at b ?i + y) b = subslice x y (write_shdr h)" if "x \<le> y" "y \<le> 64" for x y
    using subslice_subslice [of x y "length out + 64 * ?i + 64" "length out + 64 * ?i" b] that at by simp
  show "rd32 b (shdr_at b ?i) = fst (tab ! i)"
    using hdr [of 0 4] nm by (simp add: rd32_def shdr_fields)
  obtain off where off: "sh_offset h = of_nat off" "sh_size h = of_nat (length ?d)" "64 \<le> off"
    "off + length ?d \<le> length out" "subslice off (off + length ?d) out = ?d"
    using pl by (auto simp: placed_def)
  have "unat (rd64 b (shdr_at b ?i + 24)) = off" "unat (rd64 b (shdr_at b ?i + 32)) = length ?d"
    using hdr [of 24 32] hdr [of 32 40] off out32
    by (simp_all add: rd64_def add.assoc shdr_fields unsigned_of_nat take_bit_nat_eq_self)
  then show "section_bytes b ?i = ?d"
    using off by (simp add: section_bytes_def bsub subslice_append1)
qed

lemma build_cubin_cases:
  assumes "build_cubin_from_module m = Ok b"
  obtains enc out hs where "encode_kernels m = Ok enc" "align_layout 8 (layout_sections m enc) = (out, hs)"
    "b = patch_elf_header (of_nat (length out)) (sm_version m) (5 + 3 * length (kernels m)) (out @ concat (map write_shdr hs))"
    "64 \<le> length out"
proof -
  obtain enc where enc: "encode_kernels m = Ok enc"
    using assms unfolding build_cubin_from_module_def obind_Ok_iff by blast
  obtain out hs where lay: "align_layout 8 (layout_sections m enc) = (out, hs)" by (rule prod.exhaust)
  obtain tab where "lay_table (layout_sections m enc) tab" by (rule layout_sections_table)
  then have "64 \<le> length out" using lay_table_align [of "layout_sections m enc" tab 8] lay by (simp add: lay_table_def)
  with that enc lay assms show ?thesis
    unfolding build_cubin_from_module_def by simp
qed

text \<open>The names and contents of all sections behind the null section.\<close>

definition kernel_section_list :: "SassKernel list \<Rightarrow> bytes list \<Rightarrow> nat \<Rightarrow> (string \<times> bytes) list" where
  "kernel_section_list ks enc i =
     [(''.text.'' @ kname (ks ! i), enc ! i),
      (''.nv.info.'' @ kname (ks ! i), build_nv_info_for_kernel (ks ! i) (text_section_idx i)),
      (''.nv.constant0.'' @ kname (ks ! i), build_constant0_for_kernel (ks ! i))]"

definition module_section_list :: "SassModule \<Rightarrow> bytes list \<Rightarrow> bytes \<Rightarrow> bytes \<Rightarrow> bytes \<Rightarrow> (string \<times> bytes) list" where
  "module_section_list m enc sh st sy =
     [(''.shstrtab'', sh), (''.strtab'', st), (''.symtab'', sy), (''.nv.info'', [])] @
     concat (map (kernel_section_list (kernels m) enc) [0..<length (kernels m)])"

lemma module_sections_named:
  assumes add: "strtab_add strtab_new ''.shstrtab'' = (n1, t1)" "strtab_add t1 ''.strtab'' = (n2, t2)"
    "strtab_add t2 ''.symtab'' = (n3, t3)" "strtab_add t3 ''.nv.info'' = (n4, t4)"
    "add_kernel_names t4 (kernels m) = (names, sh)"
    and nul: "list_all nul_free (kernels m)" and small: "length sh < 2 ^ 32"
  shows "list_all2 (\<lambda>a b. reads sh (unat (fst a)) (str_bytes (fst b)) \<and> snd a = snd b)
    ([(n1, sh), (n2, st), (n3, sy), (n4, [])] @ concat (map (kernel_table names (kernels m) enc) [0..<length (kernels m)]))
    (module_section_list m enc sh st sy)"
proof -
  have ok: "table_ok t1" "table_ok t2" "table_ok t3" "table_ok t4"
    using strtab_add_ok [OF add(1)] strtab_add_ok [OF add(2)] strtab_add_ok [OF add(3)] strtab_add_ok [OF add(4)] by simp_all
  obtain x2 x3 x4 x5 where xs: "t2 = t1 @ x2" "t3 = t2 @ x3" "t4 = t3 @ x4" "sh = t4 @ x5"
    using strtab_add_extends [OF add(2)] strtab_add_extends [OF add(3)] strtab_add_extends [OF add(4)]
      add_kernel_names_extends [OF add(5)] by auto
  have z: "0 \<notin> set (str_bytes ''.shstrtab'')" "0 \<notin> set (str_bytes ''.strtab'')" "0 \<notin> set (str_bytes ''.symtab'')"
    "0 \<notin> set (str_bytes ''.nv.info'')" by code_simp+
  have "reads sh (unat n1) (str_bytes ''.shstrtab'')" "reads sh (unat n2) (str_bytes ''.strtab'')"
    "reads sh (unat n3) (str_bytes ''.symtab'')" "reads sh (unat n4) (str_bytes ''.nv.info'')"
    using strtab_add_later [OF add(1) z(1) _ small] strtab_add_later [OF add(2) z(2) _ small ok(1)]
      strtab_add_later [OF add(3) z(3) _ small ok(2)] strtab_add_later [OF add(4) z(4) _ small ok(3)] xs by simp_all
  moreover have "list_all2 (\<lambda>a b. reads sh (unat (fst a)) (str_bytes (fst b)) \<and> snd a = snd b)
      (concat (map (kernel_table names (kernels m) enc) is)) (concat (map (kernel_section_list (kernels m) enc) is))"
    if "set is \<subseteq> {0..<length (kernels m)}" for "is"
    using that
  proof (induction "is")
    case (Cons i "is")
    then have "kernel_names_read sh (kernels m ! i) (names ! i)"
      using add_kernel_names_reads [OF add(5) nul small ok(4)] by (auto simp: list_all2_conv_all_nth)
    with Cons show ?case by (simp add: kernel_table_def kernel_section_list_def)
  qed simp
  ultimately show ?thesis by (simp add: module_section_list_def)
qed

lemma cubin_table:
  assumes b: "build_cubin_from_module m = Ok b" and small: "length b < 2 ^ 32" and nul: "list_all nul_free (kernels m)"
  obtains enc sh st sy where "encode_kernels m = Ok enc"
    "\<And>i. i < length (module_section_list m enc sh st sy) \<Longrightarrow>
       section_name b (Suc i) = str_bytes (fst (module_section_list m enc sh st sy ! i)) \<and>
       section_bytes b (Suc i) = snd (module_section_list m enc sh st sy ! i)"
proof -
  obtain enc out hs where enc: "encode_kernels m = Ok enc" and lay: "align_layout 8 (layout_sections m enc) = (out, hs)"
    and bb: "b = patch_elf_header (of_nat (length out)) (sm_version m) (5 + 3 * length (kernels m))
          (out @ concat (map write_shdr hs))" and len: "64 \<le> length out"
    by (rule build_cubin_cases [OF b])
  obtain n1 n2 n3 n4 t1 t2 t3 t4 names sh st sy where
    add: "strtab_add strtab_new ''.shstrtab'' = (n1, t1)" "strtab_add t1 ''.strtab'' = (n2, t2)"
    "strtab_add t2 ''.symtab'' = (n3, t3)" "strtab_add t3 ''.nv.info'' = (n4, t4)"
    "add_kernel_names t4 (kernels m) = (names, sh)"
    and tab: "lay_table (layout_sections m enc) ([(n1, sh), (n2, st), (n3, sy), (n4, [])] @
       concat (map (kernel_table names (kernels m) enc) [0..<length (kernels m)]))"
    by (rule layout_sections_table)
  define tb where "tb = [(n1, sh), (n2, st), (n3, sy), (n4, [])] @
    concat (map (kernel_table names (kernels m) enc) [0..<length (kernels m)])"
  have tab': "lay_table (out, hs) tb" using lay_table_align [OF tab, of 8] lay by (simp add: tb_def)
  note sec = file_sections [OF tab' _ bb small]
  have sh1: "section_bytes b 1 = sh" using sec(1) [of 0] by (simp add: tb_def)
  have "placed out (hs ! 1) sh"
    using tab' by (auto simp: lay_table_def tb_def nth_tl list_all2_Cons2 neq_Nil_conv)
  then have "length sh \<le> length out" by (auto simp: placed_def)
  also have "length out \<le> length b" using patch_fields(1) [OF _ bb] len by simp
  finally have "length sh < 2 ^ 32" using small by simp
  note names_ok = module_sections_named [OF add nul this, of st sy enc, folded tb_def]
  have r62: "rd16 b 62 = 1" by (rule patch_fields(10) [OF _ bb]) (use len in simp)
  show ?thesis
  proof (rule that [OF enc])
    fix i assume "i < length (module_section_list m enc sh st sy)"
    then have i: "i < length tb" and r: "reads sh (unat (fst (tb ! i))) (str_bytes (fst (module_section_list m enc sh st sy ! i)))"
      "snd (tb ! i) = snd (module_section_list m enc sh st sy ! i)"
      using names_ok by (auto simp: list_all2_conv_all_nth)
    show "section_name b (Suc i) = str_bytes (fst (module_section_list m enc sh st sy ! i)) \<and>
       section_bytes b (Suc i) = snd (module_section_list m enc sh st sy ! i)"
      using sec [OF i] r sh1 r62 cstr_reads [OF r(1)] by (simp add: section_name_def)
  qed
qed

lemma concat_triples:
  assumes "\<And>i. length (f i) = 3"
  shows "length (concat (map f [0..<n])) = 3 * n"
    and "i < n \<Longrightarrow> j < 3 \<Longrightarrow> concat (map f [0..<n]) ! (3 * i + j) = f i ! j"
proof -
  show len: "length (concat (map f [0..<n])) = 3 * n" for n by (induction n) (simp_all add: assms)
  show "i < n \<Longrightarrow> j < 3 \<Longrightarrow> concat (map f [0..<n]) ! (3 * i + j) = f i ! j"
  proof (induction n)
    case (Suc n)
    then show ?case by (cases "i = n") (simp_all add: nth_append len)
  qed simp
qed

lemma length_module_section_list: "length (module_section_list m enc sh st sy) = 4 + 3 * length (kernels m)"
  using concat_triples(1) [of "kernel_section_list (kernels m) enc"]
  by (simp add: module_section_list_def kernel_section_list_def)

lemma module_section_nth:
  assumes "i < length (kernels m)"
  shows "module_section_list m enc sh st sy ! (4 + 3 * i) = (''.text.'' @ kname (kernels m ! i), enc ! i)"
    and "module_section_list m enc sh st sy ! (5 + 3 * i) =
      (''.nv.info.'' @ kname (kernels m ! i), build_nv_info_for_kernel (kernels m ! i) (text_section_idx i))"
    and "module_section_list m enc sh st sy ! (6 + 3 * i) =
      (''.nv.constant0.'' @ kname (kernels m ! i), build_constant0_for_kernel (kernels m ! i))"
    and "6 + 3 * i < length (module_section_list m enc sh st sy)"
proof -
  have l: "length (kernel_section_list (kernels m) enc i) = 3" for i by (simp add: kernel_section_list_def)
  have n: "module_section_list m enc sh st sy ! (4 + k) =
      concat (map (kernel_section_list (kernels m) enc) [0..<length (kernels m)]) ! k" for k
    by (simp add: module_section_list_def)
  note c = concat_triples(2) [of "kernel_section_list (kernels m) enc", OF l assms]
  show "module_section_list m enc sh st sy ! (4 + 3 * i) = (''.text.'' @ kname (kernels m ! i), enc ! i)"
    using c [of 0] n [of "3 * i"] by (simp add: kernel_section_list_def)
  show "module_section_list m enc sh st sy ! (5 + 3 * i) =
      (''.nv.info.'' @ kname (kernels m ! i), build_nv_info_for_kernel (kernels m ! i) (text_section_idx i))"
    using c [of 1] n [of "3 * i + 1"] by (simp add: kernel_section_list_def add.commute)
  show "module_section_list m enc sh st sy ! (6 + 3 * i) =
      (''.nv.constant0.'' @ kname (kernels m ! i), build_constant0_for_kernel (kernels m ! i))"
    using c [of 2] n [of "3 * i + 2"] by (simp add: kernel_section_list_def add.commute)
  show "6 + 3 * i < length (module_section_list m enc sh st sy)" using assms by (simp add: length_module_section_list)
qed

lemma cubin_kernel_sections:
  assumes b: "build_cubin_from_module m = Ok b" and small: "length b < 2 ^ 32"
    and nul: "list_all nul_free (kernels m)" and i: "i < length (kernels m)"
  shows "\<exists>code. encode_kernel (kernels m ! i) (sm_version m) = Ok code \<and>
    section_name b (5 + 3 * i) = str_bytes (''.text.'' @ kname (kernels m ! i)) \<and>
    section_bytes b (5 + 3 * i) = concat code \<and>
    section_name b (6 + 3 * i) = str_bytes (''.nv.info.'' @ kname (kernels m ! i)) \<and>
    section_bytes b (6 + 3 * i) = build_nv_info_for_kernel (kernels m ! i) (text_section_idx i) \<and>
    section_name b (7 + 3 * i) = str_bytes (''.nv.constant0.'' @ kname (kernels m ! i)) \<and>
    section_bytes b (7 + 3 * i) = build_constant0_for_kernel (kernels m ! i)"
proof -
  obtain enc sh st sy where enc: "encode_kernels m = Ok enc"
    and sec: "\<And>i. i < length (module_section_list m enc sh st sy) \<Longrightarrow>
       section_name b (Suc i) = str_bytes (fst (module_section_list m enc sh st sy ! i)) \<and>
       section_bytes b (Suc i) = snd (module_section_list m enc sh st sy ! i)"
    using cubin_table [OF b small nul] by metis
  obtain code where "encode_kernel (kernels m ! i) (sm_version m) = Ok code" "enc ! i = concat code"
    using enc i by (auto simp: encode_kernels_def omap_list_Ok_iff)
  then show ?thesis
    using sec [of "4 + 3 * i"] sec [of "5 + 3 * i"] sec [of "6 + 3 * i"] module_section_nth [OF i, of enc sh st sy]
    by (intro exI [of _ code]) simp
qed

subsection \<open>The size of the file\<close>

lemma length_str_bytes [simp]: "length (str_bytes s) = length s"
  by (simp add: str_bytes_def)

lemma strtab_add_length: "strtab_add data s = (i, data') \<Longrightarrow> length data' \<le> length data + length s + 1"
  by (auto simp: strtab_add_def Let_def split: option.splits)

lemma add_kernel_names_length:
  "add_kernel_names t ks = (names, t') \<Longrightarrow> length t' \<le> length t + (\<Sum>k\<leftarrow>ks. 3 * length (kname k) + 33)"
  by (induction t ks arbitrary: names t' rule: add_kernel_names.induct)
    (fastforce simp: Let_def dest!: strtab_add_length split: prod.splits)+

lemma add_symbol_names_length:
  "add_symbol_names t ks = (names, t') \<Longrightarrow> length t' \<le> length t + (\<Sum>k\<leftarrow>ks. length (kname k) + 1)"
  by (induction t ks arbitrary: names t' rule: add_symbol_names.induct)
    (fastforce simp: Let_def dest!: strtab_add_length split: prod.splits)+

lemma length_fst_push [simp]: "length (fst (push_section hdr d lay)) = length (fst lay) + length d"
  by (simp add: push_section_def split: prod.splits)

lemma length_fst_align_le: "0 < n \<Longrightarrow> length (fst (align_layout n lay)) \<le> length (fst lay) + n"
  by (auto simp: align_layout_def align_to_def Let_def split: prod.splits)

definition kernel_bytes :: "SassKernel list \<Rightarrow> bytes list \<Rightarrow> nat \<Rightarrow> nat" where
  "kernel_bytes ks enc i =
     length (enc ! i) + length (build_nv_info_for_kernel (ks ! i) (text_section_idx i)) +
     length (build_constant0_for_kernel (ks ! i)) + 136"

lemma push_kernel_length:
  "length (fst (push_kernel g names ks enc i lay)) \<le> length (fst lay) + kernel_bytes ks enc i"
proof -
  obtain t ni c where names: "names ! i = (t, ni, c)" by (metis prod_cases3)
  let ?a = "align_layout TEXT_ALIGNMENT lay"
  let ?b = "push_section (text_header t (g + of_nat i)) (enc ! i) ?a"
  let ?d = "push_section (nv_info_header ni (ucast (text_section_idx i)))
      (build_nv_info_for_kernel (ks ! i) (text_section_idx i)) (align_layout 4 ?b)"
  have "push_kernel g names ks enc i lay = push_section (const0_header c) (build_constant0_for_kernel (ks ! i)) (align_layout 4 ?d)"
    by (simp add: push_kernel_def names Let_def)
  then show ?thesis
    using length_fst_align_le [of TEXT_ALIGNMENT lay] length_fst_align_le [of 4 ?b] length_fst_align_le [of 4 ?d]
    by (simp add: kernel_bytes_def)
qed

lemma push_kernels_length:
  "length (fst (foldl (\<lambda>lay i. push_kernel g names ks enc i lay) lay [0..<n])) \<le>
   length (fst lay) + (\<Sum>i\<leftarrow>[0..<n]. kernel_bytes ks enc i)"
proof (induction n)
  case (Suc n)
  then show ?case
    using push_kernel_length [of g names ks enc n "foldl (\<lambda>lay i. push_kernel g names ks enc i lay) lay [0..<n]"] by simp
qed simp

lemma layout_sections_length:
  "length (fst (layout_sections m enc)) \<le>
   136 + (\<Sum>k\<leftarrow>kernels m. 4 * length (kname k) + 34) + 48 * length (kernels m) +
   (\<Sum>i\<leftarrow>[0..<length (kernels m)]. kernel_bytes (kernels m) enc i)"
proof -
  obtain n1 t1 where s1: "strtab_add strtab_new ''.shstrtab'' = (n1, t1)" by (rule prod.exhaust)
  obtain n2 t2 where s2: "strtab_add t1 ''.strtab'' = (n2, t2)" by (rule prod.exhaust)
  obtain n3 t3 where s3: "strtab_add t2 ''.symtab'' = (n3, t3)" by (rule prod.exhaust)
  obtain n4 t4 where s4: "strtab_add t3 ''.nv.info'' = (n4, t4)" by (rule prod.exhaust)
  obtain names sh where s5: "add_kernel_names t4 (kernels m) = (names, sh)" by (rule prod.exhaust)
  obtain kn st where s6: "add_symbol_names strtab_new (kernels m) = (kn, st)" by (rule prod.exhaust)
  let ?n = "length (kernels m)"
  let ?g = "of_nat (1 + ?n) :: u32"
  let ?b = "push_section (strtab_header n2) st (push_section (strtab_header n1) sh (replicate 64 0, [null_header]))"
  let ?e = "push_section (nv_info_header n4 0) []
    (push_section (symtab_header n3 ?g) (concat (map write_sym (build_symbols ?n kn enc))) (align_layout 8 ?b))"
  have lay: "layout_sections m enc = foldl (\<lambda>lay i. push_kernel ?g names (kernels m) enc i lay) ?e [0..<?n]"
    unfolding layout_sections_def s1 s2 s3 s4 s5 s6 Let_def prod.case ..
  have "length sh \<le> 36 + (\<Sum>k\<leftarrow>kernels m. 3 * length (kname k) + 33)"
    using strtab_add_length [OF s1] strtab_add_length [OF s2] strtab_add_length [OF s3] strtab_add_length [OF s4]
      add_kernel_names_length [OF s5] by (simp add: strtab_new_def)
  moreover have "length st \<le> 1 + (\<Sum>k\<leftarrow>kernels m. length (kname k) + 1)"
    using add_symbol_names_length [OF s6] by (simp add: strtab_new_def)
  moreover have "(\<Sum>k\<leftarrow>kernels m. 3 * length (kname k) + 33) + (\<Sum>k\<leftarrow>kernels m. length (kname k) + 1) =
      (\<Sum>k\<leftarrow>kernels m. 4 * length (kname k) + 34)"
    by (simp add: sum_list_addf [symmetric] add.commute)
  moreover have "length (fst ?e) \<le> 64 + length sh + length st + 8 + 24 * (1 + 2 * ?n)"
    using length_fst_align_le [of 8 ?b] by (simp add: length_concat comp_def write_sym_def build_symbols_def sum_list_triv)
  ultimately show ?thesis
    unfolding lay using push_kernels_length [of ?g names "kernels m" enc ?e ?n] by simp
qed

lemma build_cubin_total: "encode_kernels m = Ok enc \<Longrightarrow> \<exists>b. build_cubin_from_module m = Ok b"
  by (simp add: build_cubin_from_module_def split_beta)

lemma snd_align [simp]: "snd (align_layout n lay) = snd lay"
  by (simp add: align_layout_def split: prod.splits)

lemma layout_sections_headers: "length (snd (layout_sections m enc)) = 5 + 3 * length (kernels m)"
proof -
  obtain n1 n2 n3 n4 names sh st sy where "lay_table (layout_sections m enc) ([(n1, sh), (n2, st), (n3, sy), (n4, [])] @
       concat (map (kernel_table names (kernels m) enc) [0..<length (kernels m)]))"
    by (rule layout_sections_table)
  then have "length (snd (layout_sections m enc)) =
      5 + length (concat (map (kernel_table names (kernels m) enc) [0..<length (kernels m)]))"
    by (cases "snd (layout_sections m enc)") (auto simp: lay_table_def dest: list_all2_lengthD)
  then show ?thesis using concat_triples(1) [of "kernel_table names (kernels m) enc"] by (simp add: kernel_table_def)
qed

lemma cubin_length:
  assumes "build_cubin_from_module m = Ok b"
  obtains enc where "encode_kernels m = Ok enc" "length b \<le>
     136 + (\<Sum>k\<leftarrow>kernels m. 4 * length (kname k) + 34) + 48 * length (kernels m) +
     (\<Sum>i\<leftarrow>[0..<length (kernels m)]. kernel_bytes (kernels m) enc i) + 8 + 64 * (5 + 3 * length (kernels m))"
proof -
  obtain enc out hs where enc: "encode_kernels m = Ok enc" and lay: "align_layout 8 (layout_sections m enc) = (out, hs)"
    and b: "b = patch_elf_header (of_nat (length out)) (sm_version m) (5 + 3 * length (kernels m))
      (out @ concat (map write_shdr hs))" and len: "64 \<le> length out"
    by (rule build_cubin_cases [OF assms])
  have "length b = length (out @ concat (map write_shdr hs))" by (rule patch_fields(1) [OF _ b]) (use len in simp)
  moreover have "length out \<le> length (fst (layout_sections m enc)) + 8"
    using length_fst_align_le [of 8 "layout_sections m enc"] lay by simp
  moreover have "length hs = 5 + 3 * length (kernels m)"
    using layout_sections_headers [of m enc] lay by (metis snd_align snd_conv)
  ultimately show ?thesis
    using that [OF enc] layout_sections_length [of m enc]
    by (simp add: length_concat comp_def sum_list_triv)
qed

lemma cubin_header:
  assumes "build_cubin_from_module m = Ok b"
  shows "subslice 0 4 b = [0x7F, 0x45, 0x4C, 0x46] \<and> subslice 4 5 b = [2] \<and> subslice 5 6 b = [1] \<and>
    rd16 b 18 = 190 \<and> rd32 b 48 = sm_version m \<and> rd16 b 60 = of_nat (5 + 3 * length (kernels m)) \<and> rd16 b 62 = 1 \<and>
    64 \<le> length b"
proof -
  obtain out hs where len: "64 \<le> length out" and bb: "b = patch_elf_header (of_nat (length out)) (sm_version m)
      (5 + 3 * length (kernels m)) (out @ concat (map write_shdr hs))"
    by (rule build_cubin_cases [OF assms])
  then have "64 \<le> length (out @ concat (map write_shdr hs))" by simp
  note p = patch_fields [OF this bb]
  show ?thesis using p(1,3-10) len by simp
qed

text \<open>
  The file header of every CUBIN written is an ELF64 little-endian CUDA header: magic, class, byte
  order, machine 190, the SM version as flags, the number of section headers (null, two string
  tables, the symbol table, the global \<open>.nv.info\<close>, three per kernel) and the index of the section
  name table.
\<close>

theorem cubin_header_fields:
  assumes "build_cubin_from_module m = Ok b"
  shows "subslice 0 4 b = [0x7F, 0x45, 0x4C, 0x46] \<and> subslice 4 5 b = [2] \<and> subslice 5 6 b = [1] \<and>
    rd16 b 18 = 190 \<and> rd32 b 48 = sm_version m \<and> rd16 b 60 = of_nat (5 + 3 * length (kernels m)) \<and> rd16 b 62 = 1 \<and>
    64 \<le> length b"
  using assms by (rule cubin_header)

text \<open>
  C7. Everything written about a kernel can be found in the file: following the section header table,
  sections \<open>5 + 3 i\<close>, \<open>6 + 3 i\<close> and \<open>7 + 3 i\<close> are named \<open>.text.<kernel>\<close>, \<open>.nv.info.<kernel>\<close> and
  \<open>.nv.constant0.<kernel>\<close> in the section name table, and their offsets and sizes select exactly the
  encoded instructions, the attributes and the parameter area of kernel \<open>i\<close>, for any number of kernels
  whose file stays below 4 GiB and whose names contain no NUL byte.
\<close>

theorem cubin_text_sections:
  assumes "build_cubin_from_module m = Ok b" "length b < 2 ^ 32" "list_all nul_free (kernels m)"
    and "i < length (kernels m)"
  shows "\<exists>code. encode_kernel (kernels m ! i) (sm_version m) = Ok code \<and>
    section_name b (5 + 3 * i) = str_bytes (''.text.'' @ kname (kernels m ! i)) \<and>
    section_bytes b (5 + 3 * i) = concat code \<and>
    section_name b (6 + 3 * i) = str_bytes (''.nv.info.'' @ kname (kernels m ! i)) \<and>
    section_bytes b (6 + 3 * i) = build_nv_info_for_kernel (kernels m ! i) (text_section_idx i) \<and>
    section_name b (7 + 3 * i) = str_bytes (''.nv.constant0.'' @ kname (kernels m ! i)) \<and>
    section_bytes b (7 + 3 * i) = build_constant0_for_kernel (kernels m ! i)"
  using assms by (rule cubin_kernel_sections)

abbreviation example_kernel :: SassKernel where
  "example_kernel \<equiv>
     \<lparr>kname = ''k'', instructions = [example_fadd, example_fadd], num_registers = 3, shared_mem_bytes = 8,
      const_mem_bytes = 0, local_mem_bytes = 0, max_threads = 1024, params = [(''x'', 0, 8)]\<rparr>"

abbreviation example_module :: SassModule where
  "example_module \<equiv> \<lparr>kernels = [example_kernel], sm_version = 120, global_constants = []\<rparr>"

lemma example_module_encodes:
  "encode_kernels example_module =
     Ok [concat (replicate 2 [4, 2, 0xFB, 0x0F, 0, 0, 0, 0x30, 0xEF, 7, 0, 0, 0, 0, 0, 0])]"
  by code_simp

lemma example_module_builds:
  obtains b where "build_cubin_from_module example_module = Ok b" "length b < 2 ^ 32"
proof -
  obtain b where b: "build_cubin_from_module example_module = Ok b"
    using build_cubin_total [OF example_module_encodes] by blast
  have ex: "find_exit_offsets [example_fadd, example_fadd] = []" by code_simp
  have "length b < 2 ^ 32"
    by (rule cubin_length [OF b])
      (simp add: ex example_module_encodes length_concat sum_list_replicate kernel_bytes_def build_nv_info_for_kernel_def nv_attr_def
        build_constant0_for_kernel_def Let_def)
  with b that show ?thesis by blast
qed

theorem cubin_header_fields_witness:
  "\<exists>b. build_cubin_from_module example_module = Ok b \<and> rd32 b 48 = 120 \<and> rd16 b 60 = 8"
proof -
  obtain b where b: "build_cubin_from_module example_module = Ok b" by (rule example_module_builds)
  show ?thesis using cubin_header_fields [OF b] b by (intro exI [of _ b]) simp
qed

theorem cubin_text_sections_witness:
  "\<exists>b. build_cubin_from_module example_module = Ok b \<and> section_name b 5 = str_bytes ''.text.k''"
proof -
  obtain b where b: "build_cubin_from_module example_module = Ok b" and small: "length b < 2 ^ 32"
    by (rule example_module_builds)
  have nul: "list_all nul_free (kernels example_module)" by code_simp
  show ?thesis using cubin_text_sections [OF b small nul, of 0] b by (intro exI [of _ b]) auto
qed

end
