(* ===== verification/Sass_Pipeline.thy ===== *)
theory Sass_Pipeline
  imports Sass_Ptx Sass_Regalloc Sass_Scheduler Cubin_Builder
begin

text \<open>
  The PTX to CUBIN pipeline (\<open>nvidia_sass/src/pipeline.rs\<close>): the context, the pass interface, the five
  passes and the driver \<open>compile_ptx_to_cubin\<close>, over the parser, register allocator, scheduler,
  validator and writer of the other theories. The iteration order of the allocator's hash map is the
  parameter \<open>iter\<close>.

  The lemmas show what the whole pipeline returns on every input: once the text parses, only an
  unsupported SM version can make it fail, and the file it then returns holds the encoding of the
  parsed instructions after allocation and scheduling.
\<close>

subsection \<open>Context and passes\<close>

record PtxToSassContext =
  ctx_ptx :: string
  requested_kernel_name :: string
  ctx_kernel_name :: string
  ctx_sm_version :: u32
  virtual_instructions :: "SassInst list"
  physical_instructions :: "SassInst list"
  scheduled_instructions :: "SassInst list"
  ctx_num_registers :: u32
  ctx_module :: "SassModule option"
  ctx_cubin :: "bytes option"
  ctx_pass_names :: "string list"
  ctx_notes :: "string list"

definition context_new :: "string \<Rightarrow> string \<Rightarrow> u32 \<Rightarrow> PtxToSassContext" where
  "context_new ptx name sm =
     \<lparr>ctx_ptx = ptx, requested_kernel_name = name, ctx_kernel_name = name, ctx_sm_version = sm,
      virtual_instructions = [], physical_instructions = [], scheduled_instructions = [],
      ctx_num_registers = 0, ctx_module = None, ctx_cubin = None, ctx_pass_names = [], ctx_notes = []\<rparr>"

record PtxToSassPass =
  pass_name :: string
  pass_run :: "PtxToSassContext \<Rightarrow> PtxToSassContext \<times> (unit, string) outcome"

text \<open>\<open>PtxToSassPipeline::run\<close>: the context keeps what the passes wrote before an error.\<close>

fun pipeline_run :: "PtxToSassPass list \<Rightarrow> PtxToSassContext \<Rightarrow> PtxToSassContext \<times> (unit, string) outcome" where
  "pipeline_run [] ctx = (ctx, Ok ())"
| "pipeline_run (p # ps) ctx =
     (case pass_run p (ctx\<lparr>ctx_pass_names := ctx_pass_names ctx @ [pass_name p]\<rparr>) of
        (ctx, Ok _) \<Rightarrow> pipeline_run ps ctx
      | (ctx, Err err) \<Rightarrow> (ctx, Err (pass_name p @ '': '' @ err))
      | (ctx, Panic) \<Rightarrow> (ctx, Panic))"

definition ParsePtxSubsetPass :: PtxToSassPass where
  "ParsePtxSubsetPass =
     \<lparr>pass_name = ''parse-ptx-subset'',
      pass_run = \<lambda>ctx.
        (case parse_ptx_subset (ctx_ptx ctx) (requested_kernel_name ctx) (ctx_sm_version ctx) of
           Ok parsed \<Rightarrow>
             (ctx\<lparr>ctx_kernel_name := parsed_kernel_name parsed, ctx_sm_version := parsed_sm_version parsed,
                  virtual_instructions := parsed_insts parsed\<rparr>, Ok ())
         | Err e \<Rightarrow> (ctx, Err e)
         | Panic \<Rightarrow> (ctx, Panic))\<rparr>"

definition AllocateRegistersPass :: "hash_order \<Rightarrow> PtxToSassPass" where
  "AllocateRegistersPass iter =
     \<lparr>pass_name = ''allocate-registers'',
      pass_run = \<lambda>ctx.
        (case allocate iter (virtual_instructions ctx) of
           Ok (physical, num_regs) \<Rightarrow>
             (ctx\<lparr>physical_instructions := physical, ctx_num_registers := num_regs\<rparr>, Ok ())
         | Err e \<Rightarrow> (ctx, Err (sass_error_text e))
         | Panic \<Rightarrow> (ctx, Panic))\<rparr>"

definition ScheduleControlCodesPass :: PtxToSassPass where
  "ScheduleControlCodesPass =
     \<lparr>pass_name = ''schedule-control-codes'',
      pass_run = \<lambda>ctx. (ctx\<lparr>scheduled_instructions := schedule (physical_instructions ctx)\<rparr>, Ok ())\<rparr>"

fun validate_all :: "u32 \<Rightarrow> SassInst list \<Rightarrow> (unit, string) outcome" where
  "validate_all sm [] = Ok ()"
| "validate_all sm (inst # insts) =
     obind (omap_err sass_error_text (validate_roundtrip inst sm)) (\<lambda>_. validate_all sm insts)"

definition ValidateEncodingPass :: PtxToSassPass where
  "ValidateEncodingPass =
     \<lparr>pass_name = ''validate-encoding'',
      pass_run = \<lambda>ctx. (ctx, validate_all (ctx_sm_version ctx) (scheduled_instructions ctx))\<rparr>"

definition pipeline_module :: "PtxToSassContext \<Rightarrow> SassModule" where
  "pipeline_module ctx =
     \<lparr>kernels =
        [\<lparr>kname = ctx_kernel_name ctx, instructions = scheduled_instructions ctx,
          num_registers = ctx_num_registers ctx, shared_mem_bytes = 0, const_mem_bytes = 0,
          local_mem_bytes = 0, max_threads = 1024, params = []\<rparr>],
      sm_version = ctx_sm_version ctx, global_constants = []\<rparr>"

definition BuildCubinPass :: PtxToSassPass where
  "BuildCubinPass =
     \<lparr>pass_name = ''build-cubin'',
      pass_run = \<lambda>ctx.
        (let m = pipeline_module ctx in
         case build_cubin_from_module m of
           Ok cubin \<Rightarrow> (ctx\<lparr>ctx_module := Some m, ctx_cubin := Some cubin\<rparr>, Ok ())
         | Err e \<Rightarrow> (ctx, Err (sass_error_text e))
         | Panic \<Rightarrow> (ctx, Panic))\<rparr>"

definition default_ptx_to_sass_pipeline :: "hash_order \<Rightarrow> PtxToSassPass list" where
  "default_ptx_to_sass_pipeline iter =
     [ParsePtxSubsetPass, AllocateRegistersPass iter, ScheduleControlCodesPass, ValidateEncodingPass, BuildCubinPass]"

record PtxToSassPipelineResult =
  result_module :: SassModule
  result_cubin :: bytes
  result_pass_names :: "string list"
  result_notes :: "string list"

definition compile_ptx_to_cubin ::
  "hash_order \<Rightarrow> string \<Rightarrow> string \<Rightarrow> u32 \<Rightarrow> (PtxToSassPipelineResult, string) outcome" where
  "compile_ptx_to_cubin iter ptx name sm =
     (let (ctx, res) = pipeline_run (default_ptx_to_sass_pipeline iter) (context_new ptx name sm) in
      obind res (\<lambda>_.
      obind (ok_or ''PTX to SASS pipeline did not produce a module'' (ctx_module ctx)) (\<lambda>m.
      obind (ok_or ''PTX to SASS pipeline did not produce a CUBIN'' (ctx_cubin ctx)) (\<lambda>cubin.
      Ok \<lparr>result_module = m, result_cubin = cubin, result_pass_names = ctx_pass_names ctx,
          result_notes = ctx_notes ctx\<rparr>))))"

subsection \<open>The pass interface\<close>

text \<open>
  What the driver relies on: a pass leaves the input text, the requested name, the trace and the notes
  alone, and changes nothing when it fails.
\<close>

locale ptx_passes =
  fixes passes :: "PtxToSassPass list"
  assumes pass_frame: "p \<in> set passes \<Longrightarrow> pass_run p ctx = (ctx', res) \<Longrightarrow>
      ctx_ptx ctx' = ctx_ptx ctx \<and> requested_kernel_name ctx' = requested_kernel_name ctx \<and>
      ctx_pass_names ctx' = ctx_pass_names ctx \<and> ctx_notes ctx' = ctx_notes ctx"
    and pass_failed: "p \<in> set passes \<Longrightarrow> pass_run p ctx = (ctx', res) \<Longrightarrow> res \<noteq> Ok () \<Longrightarrow> ctx' = ctx"
begin

lemma run_frame:
  "set ps \<subseteq> set passes \<Longrightarrow> pipeline_run ps ctx = (ctx', res) \<Longrightarrow>
   ctx_ptx ctx' = ctx_ptx ctx \<and> requested_kernel_name ctx' = requested_kernel_name ctx \<and>
   ctx_notes ctx' = ctx_notes ctx"
  by (induction ps arbitrary: ctx)
    (auto split: prod.splits outcome.splits dest: pass_frame)

lemma run_trace:
  "set ps \<subseteq> set passes \<Longrightarrow> pipeline_run ps ctx = (ctx', res) \<Longrightarrow>
   \<exists>k \<le> length ps. ctx_pass_names ctx' = ctx_pass_names ctx @ map pass_name (take k ps) \<and>
     (res = Ok () \<longrightarrow> k = length ps)"
proof (induction ps arbitrary: ctx)
  case (Cons p ps)
  let ?c = "ctx\<lparr>ctx_pass_names := ctx_pass_names ctx @ [pass_name p]\<rparr>"
  obtain c r where c: "pass_run p ?c = (c, r)" by (rule prod.exhaust)
  have p: "p \<in> set passes" using Cons.prems(1) by simp
  have names: "ctx_pass_names c = ctx_pass_names ctx @ [pass_name p]" using pass_frame [OF p c] by simp
  show ?case
  proof (cases r)
    case (Ok u)
    then have run: "pipeline_run ps c = (ctx', res)" using Cons.prems(2) c by simp
    obtain k where "k \<le> length ps" "ctx_pass_names ctx' = ctx_pass_names c @ map pass_name (take k ps)"
      "res = Ok () \<longrightarrow> k = length ps"
      using Cons.IH [OF _ run] Cons.prems(1) by auto
    then show ?thesis using names by (intro exI [of _ "Suc k"]) simp
  next
    case (Err e)
    then show ?thesis using Cons.prems(2) c names by (intro exI [of _ 1]) auto
  next
    case Panic
    then show ?thesis using Cons.prems(2) c names by (intro exI [of _ 1]) auto
  qed
qed simp

end

lemmas pass_defs = ParsePtxSubsetPass_def AllocateRegistersPass_def ScheduleControlCodesPass_def
  ValidateEncodingPass_def BuildCubinPass_def

interpretation default_passes: ptx_passes "default_ptx_to_sass_pipeline iter" for iter
  by unfold_locales
    (auto simp: default_ptx_to_sass_pipeline_def pass_defs Let_def split: outcome.splits)

text \<open>
  Whatever the input, the driver never changes the text it was given, and its trace names the passes
  that ran, in order: a prefix of the five, and all of them when it succeeds.
\<close>

theorem pipeline_trace:
  assumes "pipeline_run (default_ptx_to_sass_pipeline iter) (context_new ptx name sm) = (ctx, res)"
  shows "ctx_ptx ctx = ptx \<and> requested_kernel_name ctx = name \<and>
    (\<exists>k \<le> 5. ctx_pass_names ctx = take k [''parse-ptx-subset'', ''allocate-registers'', ''schedule-control-codes'',
      ''validate-encoding'', ''build-cubin''] \<and> (res = Ok () \<longrightarrow> k = 5))"
proof -
  have names: "map pass_name (default_ptx_to_sass_pipeline iter) = [''parse-ptx-subset'', ''allocate-registers'',
      ''schedule-control-codes'', ''validate-encoding'', ''build-cubin'']" "length (default_ptx_to_sass_pipeline iter) = 5"
    by (simp_all add: default_ptx_to_sass_pipeline_def pass_defs)
  have "ctx_ptx ctx = ptx \<and> requested_kernel_name ctx = name"
    using default_passes.run_frame [OF subset_refl assms] by (simp add: context_new_def)
  moreover obtain k where "k \<le> 5" "ctx_pass_names ctx = map pass_name (take k (default_ptx_to_sass_pipeline iter))"
    "res = Ok () \<longrightarrow> k = 5"
    using default_passes.run_trace [OF subset_refl assms] names(2) by (auto simp: context_new_def)
  ultimately show ?thesis unfolding take_map [symmetric] names(1) by blast
qed

theorem pipeline_trace_witness:
  "\<exists>ctx k. pipeline_run (default_ptx_to_sass_pipeline key_order) (context_new ''ret;'' ''f'' 120) =
     (ctx, Err ''parse-ptx-subset: no PTX entry function named 'f' found'') \<and> ctx_ptx ctx = ''ret;'' \<and>
     ctx_pass_names ctx = take k [''parse-ptx-subset'', ''allocate-registers'', ''schedule-control-codes'',
      ''validate-encoding'', ''build-cubin'']"
proof -
  have "parse_ptx_subset ''ret;'' ''f'' 120 = Err ''no PTX entry function named 'f' found''" by code_simp
  then have "pipeline_run (default_ptx_to_sass_pipeline key_order) (context_new ''ret;'' ''f'' 120) =
     (context_new ''ret;'' ''f'' 120\<lparr>ctx_pass_names := [''parse-ptx-subset'']\<rparr>,
      Err ''parse-ptx-subset: no PTX entry function named 'f' found'')"
    by (simp add: default_ptx_to_sass_pipeline_def pass_defs context_new_def)
  then show ?thesis using pipeline_trace [of key_order "''ret;''" "''f''" 120] by blast
qed

subsection \<open>Instructions survive the passes\<close>

abbreviation sm_supported :: "u32 \<Rightarrow> bool" where
  "sm_supported sm \<equiv> sm = 120 \<or> sm = 121"

lemma sass_shape_control: "sass_shape (inst\<lparr>control := c\<rparr>) = sass_shape inst"
  by (simp add: sass_shape_def sass_encodable_def encodes_dst_def)

lemma encode_sass_shape: "sass_shape inst \<Longrightarrow> sm_supported sm \<Longrightarrow> \<exists>bs. encode_sass inst sm = Ok bs \<and> length bs = 16"
  using encode_bits_total [of inst]
  by (auto simp: sass_shape_def encode_sass_def sm120_encode_def Let_def is_ok_iff)

lemma validate_shape:
  assumes "sass_shape inst" "control_ok (control inst)" "sm_supported sm"
  shows "validate_roundtrip inst sm = Ok ()"
proof -
  obtain bs where "encode_sass inst sm = Ok bs" using encode_sass_shape [OF assms(1,3)] by blast
  then show ?thesis
    using assms validate_roundtrip_Ok [of inst sm bs] by (auto simp: sass_shape_def sass_encodable_def)
qed

lemma validate_unsupported: "\<not> sm_supported sm \<Longrightarrow> validate_roundtrip inst sm = Err (UnsupportedSmVersion sm)"
  by (simp add: validate_roundtrip_def encode_sass_def)

lemma schedule_shape:
  assumes "list_all sass_shape insts"
  shows "list_all (\<lambda>i. sass_shape i \<and> control_ok (control i)) (schedule insts)" "length (schedule insts) = length insts"
proof -
  show len: "length (schedule insts) = length insts" by (simp add: schedule_def)
  show "list_all (\<lambda>i. sass_shape i \<and> control_ok (control i)) (schedule insts)"
    unfolding list_all_length len
  proof (intro allI impI conjI)
    fix j assume j: "j < length insts"
    obtain c where "schedule insts ! j = (insts ! j)\<lparr>control := c\<rparr>" using schedule_effect(1) [OF j] by blast
    then show "sass_shape (schedule insts ! j)" using assms j by (simp add: sass_shape_control list_all_length)
    show "control_ok (control (schedule insts ! j))" by (rule schedule_effect(2) [OF j])
  qed
qed

lemma validate_all_Ok:
  "list_all (\<lambda>i. sass_shape i \<and> control_ok (control i)) insts \<Longrightarrow> sm_supported sm \<Longrightarrow> validate_all sm insts = Ok ()"
  by (induction insts) (auto simp: validate_shape)

lemma encode_insts_shape:
  "list_all (\<lambda>i. sass_shape i \<and> control_ok (control i)) insts \<Longrightarrow> sm_supported sm \<Longrightarrow>
   \<exists>code. omap_list (\<lambda>i. encode_sass i sm) insts = Ok code \<and> length (concat code) = 16 * length insts"
proof (induction insts)
  case (Cons i insts)
  then obtain code where "omap_list (\<lambda>i. encode_sass i sm) insts = Ok code" "length (concat code) = 16 * length insts"
    by auto
  moreover obtain bs where "encode_sass i sm = Ok bs" "length bs = 16"
    using encode_sass_shape [of i sm] Cons.prems by auto
  ultimately show ?case by simp
qed simp

subsection \<open>The size of the file of one kernel\<close>

lemma sum_list_eights: "sum_list (map (\<lambda>x. length (nv_attr a x)) xs) = 8 * length xs"
  by (induction xs) (simp_all add: nv_attr_def)

lemma nv_info_length: "length (build_nv_info_for_kernel k i) \<le> 32 + 8 * length (instructions k)"
proof -
  have "length (find_exit_offsets (instructions k)) \<le> length (instructions k)"
    using length_filter_le [of _ "[0..<length (instructions k)]"] by (simp add: find_exit_offsets_def)
  then show ?thesis
    by (simp add: build_nv_info_for_kernel_def length_concat comp_def sum_list_eights) (simp add: nv_attr_def)
qed

lemma pipeline_cubin_length:
  assumes b: "build_cubin_from_module (pipeline_module ctx) = Ok b"
    and code: "omap_list (\<lambda>i. encode_sass i (ctx_sm_version ctx)) (scheduled_instructions ctx) = Ok code"
      "length (concat code) = 16 * length (scheduled_instructions ctx)"
    and small: "length (scheduled_instructions ctx) < 2 ^ 24" "length (ctx_kernel_name ctx) < 2 ^ 24"
  shows "length b < 2 ^ 32"
proof -
  obtain k where k: "kernels (pipeline_module ctx) = [k]" "instructions k = scheduled_instructions ctx"
    "kname k = ctx_kernel_name ctx" "params k = []" "const_mem_bytes k = 0"
    by (simp add: pipeline_module_def)
  have enc: "encode_kernels (pipeline_module ctx) = Ok [concat code]"
    using code(1) by (simp add: encode_kernels_def pipeline_module_def encode_kernel_def)
  obtain enc' where "encode_kernels (pipeline_module ctx) = Ok enc'" and "length b \<le>
     136 + (\<Sum>k\<leftarrow>[k]. 4 * length (kname k) + 34) + 48 * length [k] +
     (\<Sum>i\<leftarrow>[0..<length [k]]. kernel_bytes [k] enc' i) + 8 + 64 * (5 + 3 * length [k])"
    using cubin_length [OF b, unfolded k(1)] by blast
  then have "length b \<le> 738 + 4 * length (kname k) + kernel_bytes [k] [concat code] 0"
    using enc by simp
  moreover have "kernel_bytes [k] [concat code] 0 \<le> 328 + 24 * length (scheduled_instructions ctx)"
    using nv_info_length [of k "text_section_idx 0"] code(2) k
    by (simp add: kernel_bytes_def build_constant0_for_kernel_def)
  ultimately show ?thesis using small k(3) by simp
qed

subsection \<open>What the pipeline returns\<close>

lemma pipeline_succeeds:
  assumes iter: "hash_iter iter" and p: "parse_ptx_subset ptx name sm = Ok p" and sm: "sm_supported (parsed_sm_version p)"
  obtains r phys n code where "compile_ptx_to_cubin iter ptx name sm = Ok r" "allocate iter (parsed_insts p) = Ok (phys, n)"
    "result_module r = pipeline_module (context_new ptx name sm \<lparr>ctx_kernel_name := parsed_kernel_name p,
       ctx_sm_version := parsed_sm_version p, scheduled_instructions := schedule phys, ctx_num_registers := n\<rparr>)"
    "result_pass_names r = map pass_name (default_ptx_to_sass_pipeline iter)"
    "build_cubin_from_module (result_module r) = Ok (result_cubin r)"
    "omap_list (\<lambda>i. encode_sass i (parsed_sm_version p)) (schedule phys) = Ok code"
    "length (concat code) = 16 * length (parsed_insts p)" "length phys = length (parsed_insts p)" "8 \<le> n" "n \<le> 128"
proof -
  obtain m n where a: "allocate iter (parsed_insts p) = Ok (map (remap_inst m) (parsed_insts p), n)" and n: "8 \<le> n" "n \<le> 128"
    by (rule allocate_total [OF iter])
  define phys where "phys = map (remap_inst m) (parsed_insts p)"
  define c where "c = context_new ptx name sm \<lparr>ctx_kernel_name := parsed_kernel_name p,
       ctx_sm_version := parsed_sm_version p, scheduled_instructions := schedule phys, ctx_num_registers := n\<rparr>"
  have "list_all selected (parsed_insts p)" using parse_ptx_subset_selected [OF p] by simp
  then have "list_all sass_shape phys"
    by (auto simp: phys_def list_all_iff intro: sass_shape_remap selected_shape)
  note sh = schedule_shape [OF this]
  obtain code where code: "omap_list (\<lambda>i. encode_sass i (parsed_sm_version p)) (schedule phys) = Ok code"
    "length (concat code) = 16 * length (schedule phys)"
    using encode_insts_shape [OF sh(1) sm] by blast
  have v: "validate_all (parsed_sm_version p) (schedule phys) = Ok ()" by (rule validate_all_Ok [OF sh(1) sm])
  have "encode_kernels (pipeline_module c) = Ok [concat code]"
    using code(1) by (simp add: encode_kernels_def pipeline_module_def encode_kernel_def c_def)
  then obtain b where b: "build_cubin_from_module (pipeline_module c) = Ok b" using build_cubin_total by blast
  have b': "build_cubin_from_module (pipeline_module (ctx\<lparr>ctx_pass_names := l\<rparr>)) = build_cubin_from_module (pipeline_module ctx)"
    for ctx l by (simp add: pipeline_module_def)
  define r where "r = \<lparr>result_module = pipeline_module c, result_cubin = b,
      result_pass_names = map pass_name (default_ptx_to_sass_pipeline iter), result_notes = []\<rparr>"
  have "compile_ptx_to_cubin iter ptx name sm = Ok r"
    using p a v b
    by (simp add: compile_ptx_to_cubin_def default_ptx_to_sass_pipeline_def pass_defs context_new_def r_def c_def
        phys_def [symmetric] pipeline_module_def Let_def ok_or_def del: obind_Ok_iff)
  then show ?thesis
    by (rule that [OF _ a [folded phys_def]]) (use code b n sh(2) in \<open>simp_all add: r_def c_def phys_def\<close>)
qed

lemma pipeline_fails:
  assumes iter: "hash_iter iter"
  shows "parse_ptx_subset ptx name sm = Err e \<Longrightarrow> compile_ptx_to_cubin iter ptx name sm = Err (''parse-ptx-subset: '' @ e)"
    and "parse_ptx_subset ptx name sm = Panic \<Longrightarrow> compile_ptx_to_cubin iter ptx name sm = Panic"
    and "parse_ptx_subset ptx name sm = Ok p \<Longrightarrow> \<not> sm_supported (parsed_sm_version p) \<Longrightarrow>
      compile_ptx_to_cubin iter ptx name sm =
        Err (''validate-encoding: '' @ sass_error_text (UnsupportedSmVersion (parsed_sm_version p)))"
proof -
  note defs = compile_ptx_to_cubin_def default_ptx_to_sass_pipeline_def pass_defs context_new_def Let_def
  show "parse_ptx_subset ptx name sm = Err e \<Longrightarrow> compile_ptx_to_cubin iter ptx name sm = Err (''parse-ptx-subset: '' @ e)"
    by (simp add: defs del: obind_Ok_iff)
  show "parse_ptx_subset ptx name sm = Panic \<Longrightarrow> compile_ptx_to_cubin iter ptx name sm = Panic"
    by (simp add: defs del: obind_Ok_iff)
  assume p: "parse_ptx_subset ptx name sm = Ok p" and sm: "\<not> sm_supported (parsed_sm_version p)"
  obtain m n where a: "allocate iter (parsed_insts p) = Ok (map (remap_inst m) (parsed_insts p), n)"
    by (rule allocate_total [OF iter])
  define s where "s = schedule (map (remap_inst m) (parsed_insts p))"
  have "length s = length (parsed_insts p)" by (simp add: s_def schedule_def)
  then have "s \<noteq> []" using parse_ptx_subset_selected [OF p] by auto
  then have "validate_all (parsed_sm_version p) s = Err (sass_error_text (UnsupportedSmVersion (parsed_sm_version p)))"
    by (cases s) (simp_all add: validate_unsupported [OF sm] del: obind_Ok_iff)
  then show "compile_ptx_to_cubin iter ptx name sm =
        Err (''validate-encoding: '' @ sass_error_text (UnsupportedSmVersion (parsed_sm_version p)))"
    using p a by (simp add: defs s_def [symmetric] del: obind_Ok_iff)
qed

lemma pipeline_text:
  assumes iter: "hash_iter iter" and p: "parse_ptx_subset ptx name sm = Ok p" and sm: "sm_supported (parsed_sm_version p)"
    and small: "length (parsed_insts p) < 2 ^ 24" "length (parsed_kernel_name p) < 2 ^ 24"
    and nul: "0 \<notin> set (str_bytes (parsed_kernel_name p))"
  shows "\<exists>r phys n code. compile_ptx_to_cubin iter ptx name sm = Ok r \<and>
    allocate iter (parsed_insts p) = Ok (phys, n) \<and>
    omap_list (\<lambda>i. encode_sass i (parsed_sm_version p)) (schedule phys) = Ok code \<and>
    length (concat code) = 16 * length (parsed_insts p) \<and>
    section_name (result_cubin r) 5 = str_bytes (''.text.'' @ parsed_kernel_name p) \<and>
    section_bytes (result_cubin r) 5 = concat code \<and>
    result_pass_names r = [''parse-ptx-subset'', ''allocate-registers'', ''schedule-control-codes'',
      ''validate-encoding'', ''build-cubin'']"
proof -
  let ?c = "\<lambda>phys n. context_new ptx name sm \<lparr>ctx_kernel_name := parsed_kernel_name p,
       ctx_sm_version := parsed_sm_version p, scheduled_instructions := schedule phys, ctx_num_registers := n\<rparr>"
  obtain r phys n code where r: "compile_ptx_to_cubin iter ptx name sm = Ok r" and a: "allocate iter (parsed_insts p) = Ok (phys, n)"
    and m: "result_module r = pipeline_module (?c phys n)"
    and names: "result_pass_names r = map pass_name (default_ptx_to_sass_pipeline iter)"
    and b: "build_cubin_from_module (result_module r) = Ok (result_cubin r)"
    and code: "omap_list (\<lambda>i. encode_sass i (parsed_sm_version p)) (schedule phys) = Ok code"
      "length (concat code) = 16 * length (parsed_insts p)" and len: "length phys = length (parsed_insts p)"
    by (rule pipeline_succeeds [OF iter p sm])
  have "length (result_cubin r) < 2 ^ 32"
    by (rule pipeline_cubin_length [OF b [unfolded m]]) (use code small len in \<open>simp_all add: schedule_def\<close>)
  moreover have "list_all nul_free (kernels (result_module r))"
    using nul by (simp add: m pipeline_module_def nul_free_def)
  moreover have k: "kernels (result_module r) ! 0 = \<lparr>kname = parsed_kernel_name p, instructions = schedule phys,
      num_registers = n, shared_mem_bytes = 0, const_mem_bytes = 0, local_mem_bytes = 0, max_threads = 1024, params = []\<rparr>"
    "sm_version (result_module r) = parsed_sm_version p" "0 < length (kernels (result_module r))"
    by (simp_all add: m pipeline_module_def)
  ultimately obtain code' where "encode_kernel (kernels (result_module r) ! 0) (sm_version (result_module r)) = Ok code'"
    "section_bytes (result_cubin r) 5 = concat code'"
    "section_name (result_cubin r) 5 = str_bytes (''.text.'' @ parsed_kernel_name p)"
    using cubin_kernel_sections [OF b, of 0] by auto
  moreover from this k code have "code' = code" by (simp add: encode_kernel_def)
  moreover have "result_pass_names r = [''parse-ptx-subset'', ''allocate-registers'', ''schedule-control-codes'',
      ''validate-encoding'', ''build-cubin'']" by (simp add: names default_ptx_to_sass_pipeline_def pass_defs)
  ultimately show ?thesis using r a code by blast
qed

text \<open>
  C12. Once the text parses to a supported SM version, the pipeline always produces a CUBIN, for every
  iteration order of the hash map: no later pass can fail. All five passes have run, and section 5 of
  the file is named after the kernel and holds one 16-byte word per parsed instruction, the encoding
  of the instructions after allocation and scheduling.
\<close>

theorem pipeline_produces_text:
  assumes "hash_iter iter" "parse_ptx_subset ptx name sm = Ok p"
    and "parsed_sm_version p = 120 \<or> parsed_sm_version p = 121"
    and "length (parsed_insts p) < 2 ^ 24" "length (parsed_kernel_name p) < 2 ^ 24"
    and "0 \<notin> set (str_bytes (parsed_kernel_name p))"
  shows "\<exists>r phys n code. compile_ptx_to_cubin iter ptx name sm = Ok r \<and>
    allocate iter (parsed_insts p) = Ok (phys, n) \<and>
    omap_list (\<lambda>i. encode_sass i (parsed_sm_version p)) (schedule phys) = Ok code \<and>
    length (concat code) = 16 * length (parsed_insts p) \<and>
    section_name (result_cubin r) 5 = str_bytes (''.text.'' @ parsed_kernel_name p) \<and>
    section_bytes (result_cubin r) 5 = concat code \<and>
    result_pass_names r = [''parse-ptx-subset'', ''allocate-registers'', ''schedule-control-codes'',
      ''validate-encoding'', ''build-cubin'']"
  using assms by (rule pipeline_text)

theorem pipeline_produces_text_witness:
  "\<exists>r. compile_ptx_to_cubin key_order (ptx_kernel ''add'' [PtxAddI 3 1 2, PtxExit]) ''add'' 0 = Ok r \<and>
     section_name (result_cubin r) 5 = str_bytes ''.text.add''"
proof -
  have "ptx_ident ''add''" by code_simp
  then have p: "parse_ptx_subset (ptx_kernel ''add'' [PtxAddI 3 1 2, PtxExit]) ''add'' 0 =
      Ok \<lparr>parsed_kernel_name = ''add'', parsed_sm_version = 120, parsed_insts = [select_add_i32 3 1 2, select_exit]\<rparr>"
    by (simp add: parse_ptx_kernel)
  have "0 \<notin> set (str_bytes ''add'')" by code_simp
  then show ?thesis
    using pipeline_produces_text [OF hash_iter_key_order p] by auto
qed

text \<open>
  The pipeline fails in exactly two ways: with the parser's message when the text does not parse, and
  in validation when the SM version is not 120 or 121; each message names the pass that failed.
\<close>

theorem pipeline_error_iff:
  assumes "hash_iter iter"
  shows "compile_ptx_to_cubin iter ptx name sm = Err e \<longleftrightarrow>
    (\<exists>msg. parse_ptx_subset ptx name sm = Err msg \<and> e = ''parse-ptx-subset: '' @ msg) \<or>
    (\<exists>p. parse_ptx_subset ptx name sm = Ok p \<and> parsed_sm_version p \<noteq> 120 \<and> parsed_sm_version p \<noteq> 121 \<and>
       e = ''validate-encoding: unsupported SM version: '' @ show_nat (unat (parsed_sm_version p)))"
proof (cases "parse_ptx_subset ptx name sm")
  case (Ok p)
  show ?thesis
  proof (cases "sm_supported (parsed_sm_version p)")
    case True
    obtain r where "compile_ptx_to_cubin iter ptx name sm = outcome.Ok r"
      by (rule pipeline_succeeds [OF assms Ok True])
    with Ok True show ?thesis by auto
  next
    case False
    with pipeline_fails(3) [OF assms Ok False] Ok show ?thesis by auto
  qed
qed (use pipeline_fails(1,2) [OF assms] in auto)

theorem pipeline_error_iff_witness:
  "compile_ptx_to_cubin key_order (ptx_kernel ''add'' [PtxAddI 3 1 2, PtxExit]) ''add'' 90 =
     Err ''validate-encoding: unsupported SM version: 90''"
proof -
  have "ptx_ident ''add''" by code_simp
  then have p: "parse_ptx_subset (ptx_kernel ''add'' [PtxAddI 3 1 2, PtxExit]) ''add'' 90 =
      Ok \<lparr>parsed_kernel_name = ''add'', parsed_sm_version = 90, parsed_insts = [select_add_i32 3 1 2, select_exit]\<rparr>"
    by (simp add: parse_ptx_kernel)
  have "show_nat (unat (90 :: u32)) = ''90''" by code_simp
  then show ?thesis
    unfolding pipeline_error_iff [OF hash_iter_key_order] using p by auto
qed

end
