(* ===== verification/Cubin_Parser.thy ===== *)
theory Cubin_Parser
  imports Cubin_Builder "HOL-Library.AList" "HOL-Library.Multiset"
begin

unbundle bit_operations_syntax

text \<open>
  The CUBIN reader (\<open>ptx/src/sass/cubin_parser.rs\<close>): file recognition, the attribute loop of
  \<open>.nv.info\<close>, sections, symbols, kernels and constants. The ELF view is the \<open>object\<close> crate's:
  \<open>ElfView\<close> lists what the code asks it for, and the function that produces it is the argument
  \<open>elf_parse\<close>. The hash map of sections is an association list; the order in which iteration visits
  it is the argument \<open>order\<close>.

  The lemmas show that the attribute loop inverts the encoding of attribute lists, and that reading a
  file of the CUBIN writer gives back the kernels that were written, except for their register count:
  the two files disagree on the attribute number.
\<close>

subsection \<open>The ELF view\<close>

datatype SymbolKind = Kind_Text | Kind_Data | Kind_Section | Kind_Other

record ElfSection =
  es_name :: "(string, string) outcome"
  es_data :: "(bytes, string) outcome"
  es_address :: u64
  es_size :: u64

record ElfSymbol =
  ey_name :: "(string, string) outcome"
  ey_kind :: SymbolKind
  ey_section_index :: "nat option"
  ey_address :: u64
  ey_size :: u64
  ey_is_global :: bool

record ElfView =
  ev_flags :: "u32 option"
  ev_sections :: "ElfSection list"
  ev_symbols :: "ElfSymbol list"
  ev_section_by_index :: "nat \<Rightarrow> ElfSection option"

subsection \<open>Results\<close>

record CubinKernel =
  ck_name :: string
  ck_address :: u64
  ck_size :: u64
  ck_code :: bytes
  ck_num_registers :: u32
  ck_shared_mem_size :: u32
  ck_const_mem_size :: u32
  ck_local_mem_size :: u32
  ck_max_threads_per_block :: u32
  ck_sm_version :: u32

record CubinConstant =
  cc_bank :: u32
  cc_offset :: u32
  cc_size :: u32
  cc_name :: "string option"
  cc_data :: bytes

datatype CubinSymbolType = Sym_Function | Sym_Variable | Sym_Texture | Sym_Surface | Sym_Sampler | Sym_Section | Sym_Unknown

record CubinSymbol =
  cs_name :: string
  cs_address :: u64
  cs_size :: u64
  cs_symbol_type :: CubinSymbolType
  cs_section :: "string option"
  cs_is_global :: bool

record CubinSection =
  sec_name :: string
  sec_address :: u64
  sec_size :: u64
  sec_data :: bytes
  sec_type :: u32
  sec_flags :: u64

type_synonym section_map = "(string \<times> CubinSection) list"

text \<open>The map of debug lines is always empty (\<open>parse_debug_lines\<close>).\<close>

record ParsedCubin =
  pc_sm_version :: u32
  pc_ptx_version :: "string option"
  pc_kernels :: "CubinKernel list"
  pc_constants :: "CubinConstant list"
  pc_symbols :: "CubinSymbol list"
  pc_sections :: section_map

datatype CubinParseError =
    IoError string
  | ElfParseError string
  | SectionError string
  | InvalidFormat string
  | UnsupportedVersion u32

fun cubin_error_text :: "CubinParseError \<Rightarrow> string" where
  "cubin_error_text (IoError msg) = ''IO error: '' @ msg"
| "cubin_error_text (ElfParseError msg) = ''ELF parse error: '' @ msg"
| "cubin_error_text (SectionError msg) = ''Section error: '' @ msg"
| "cubin_error_text (InvalidFormat msg) = ''Invalid CUBIN format: '' @ msg"
| "cubin_error_text (UnsupportedVersion ver) = ''Unsupported SM version: '' @ show_nat (unat ver)"

subsection \<open>Recognition and versions\<close>

definition is_cubin :: "bytes \<Rightarrow> (bool, CubinParseError) outcome" where
  "is_cubin data =
     (if length data < 16 then Ok False
      else if subslice 0 4 data \<noteq> [0x7F, 0x45, 0x4C, 0x46] then Ok False
      else if data ! 4 \<noteq> 2 then Ok False
      else if data ! 5 \<noteq> 1 then Ok False
      else if length data < 20 then Panic
      else Ok ((from_le [data ! 18, data ! 19] :: u16) = 190))"

fun first_sm_part :: "string list \<Rightarrow> u32 option" where
  "first_sm_part [] = None"
| "first_sm_part (part # parts) =
     (if starts_with ''sm_'' part
      then Option.bind (strip_prefix ''sm_'' part) (\<lambda>v. outcome_ok (parse_u32 v))
      else first_sm_part parts)"

definition sm_version_from_filename :: "string \<Rightarrow> u32 option" where
  "sm_version_from_filename filename = first_sm_part (split_char (CHR ''.'') filename)"

definition sm_version_from_elf_flags :: "u32 \<Rightarrow> u32 option" where
  "sm_version_from_elf_flags flags =
     List.find (\<lambda>sm. 10 \<le> sm \<and> sm \<le> 255)
       [flags AND 0xff, drop_bit 8 flags AND 0xff, drop_bit 16 flags AND 0xff]"

definition extract_sm_version :: "ElfView \<Rightarrow> u32" where
  "extract_sm_version elf =
     (case ev_flags elf of
        Some e_flags \<Rightarrow> (case sm_version_from_elf_flags e_flags of Some sm \<Rightarrow> sm | None \<Rightarrow> 61)
      | None \<Rightarrow> 61)"

subsection \<open>Kernel attributes\<close>

record NvInfo =
  ni_num_regs :: u32
  ni_shared_mem :: u32
  ni_const_mem :: u32
  ni_local_mem :: u32
  ni_max_threads :: u32

definition default_nv_info :: NvInfo where
  "default_nv_info = \<lparr>ni_num_regs = 32, ni_shared_mem = 0, ni_const_mem = 0, ni_local_mem = 0, ni_max_threads = 1024\<rparr>"

definition nv_attribute :: "u16 \<Rightarrow> bytes \<Rightarrow> NvInfo \<Rightarrow> NvInfo" where
  "nv_attribute attr_type attr_data info =
     (let v = from_le (take 4 attr_data) in
      if attr_type = 0x0401 then (if length attr_data \<ge> 4 then info\<lparr>ni_num_regs := v\<rparr> else info)
      else if attr_type = 0x0808 then (if length attr_data \<ge> 4 then info\<lparr>ni_shared_mem := v\<rparr> else info)
      else if attr_type = 0x0A04 then (if length attr_data \<ge> 4 then info\<lparr>ni_local_mem := v\<rparr> else info)
      else if attr_type = 0x0504 then (if length attr_data \<ge> 4 then info\<lparr>ni_max_threads := v\<rparr> else info)
      else info)"

definition align4 :: "usize \<Rightarrow> usize" where
  "align4 offset = (offset + 3) div 4 * 4"

function nv_info_loop :: "bytes \<Rightarrow> usize \<Rightarrow> NvInfo \<Rightarrow> NvInfo" where
  "nv_info_loop data offset info =
     (if offset + 4 \<le> length data then
        (let attr_type = from_le (subslice offset (offset + 2) data);
             attr_size = unat (from_le (subslice (offset + 2) (offset + 4) data) :: u16);
             offset = offset + 4 in
         if offset + attr_size > length data then info
         else
           (let attr_data = subslice offset (offset + attr_size) data in
            nv_info_loop data (align4 (offset + attr_size)) (nv_attribute attr_type attr_data info)))
      else info)"
  by auto

lemma align4_ge: "n \<le> align4 n"
  unfolding align4_def by presburger

termination nv_info_loop
proof (relation "measure (\<lambda>(data, offset, info). length data - offset)", goal_cases)
  case (2 data offset info attr_type attr_size off attr_data)
  then show ?case using align4_ge [of "off + attr_size"] by simp
qed simp

declare nv_info_loop.simps [simp del]

definition parse_nv_info :: "bytes \<Rightarrow> NvInfo" where
  "parse_nv_info data = nv_info_loop data 0 default_nv_info"

subsection \<open>Sections and symbols\<close>

fun parse_sections :: "ElfSection list \<Rightarrow> section_map \<Rightarrow> (section_map, CubinParseError) outcome" where
  "parse_sections [] sections = Ok sections"
| "parse_sections (s # ss) sections =
     obind (omap_err SectionError (es_name s)) (\<lambda>name.
     if name = [] then parse_sections ss sections
     else
       obind (omap_err SectionError (es_data s)) (\<lambda>data.
       parse_sections ss
         (AList.update name
            \<lparr>sec_name = name, sec_address = es_address s, sec_size = es_size s, sec_data = data,
             sec_type = 0, sec_flags = 0\<rparr> sections)))"

fun symbol_type_of :: "SymbolKind \<Rightarrow> CubinSymbolType" where
  "symbol_type_of Kind_Text = Sym_Function"
| "symbol_type_of Kind_Data = Sym_Variable"
| "symbol_type_of Kind_Section = Sym_Section"
| "symbol_type_of Kind_Other = Sym_Unknown"

definition parse_symbol :: "ElfView \<Rightarrow> ElfSymbol \<Rightarrow> CubinSymbol option" where
  "parse_symbol elf s =
     (case ey_name s of
        Ok n \<Rightarrow>
          (if n = [] then None
           else Some \<lparr>cs_name = n, cs_address = ey_address s, cs_size = ey_size s,
                      cs_symbol_type = symbol_type_of (ey_kind s),
                      cs_section = Option.bind (Option.bind (ey_section_index s) (ev_section_by_index elf))
                        (\<lambda>sec. outcome_ok (es_name sec)),
                      cs_is_global = ey_is_global s\<rparr>)
      | _ \<Rightarrow> None)"

definition parse_symbols :: "ElfView \<Rightarrow> CubinSymbol list" where
  "parse_symbols elf = List.map_filter (parse_symbol elf) (ev_symbols elf)"

subsection \<open>Kernels, constants and the PTX version\<close>

definition extract_kernel :: "section_map \<Rightarrow> u32 \<Rightarrow> string \<times> CubinSection \<Rightarrow> CubinKernel option" where
  "extract_kernel sections sm entry =
     (let (name, s) = entry in
      if starts_with ''.text.'' name \<and> length (sec_data s) > 0 then
        (let kernel_name = (case strip_prefix ''.text.'' name of Some k \<Rightarrow> k | None \<Rightarrow> name);
             info = (case map_of sections (''.nv.info.'' @ kernel_name) of
                       Some i \<Rightarrow> parse_nv_info (sec_data i)
                     | None \<Rightarrow> \<lparr>ni_num_regs = 32, ni_shared_mem = 0, ni_const_mem = 0, ni_local_mem = 0, ni_max_threads = 1024\<rparr>) in
         Some \<lparr>ck_name = kernel_name, ck_address = sec_address s, ck_size = sec_size s, ck_code = sec_data s,
               ck_num_registers = ni_num_regs info, ck_shared_mem_size = ni_shared_mem info,
               ck_const_mem_size = ni_const_mem info, ck_local_mem_size = ni_local_mem info,
               ck_max_threads_per_block = ni_max_threads info, ck_sm_version = sm\<rparr>)
      else None)"

definition extract_kernels :: "(section_map \<Rightarrow> section_map) \<Rightarrow> section_map \<Rightarrow> u32 \<Rightarrow> CubinKernel list" where
  "extract_kernels order sections sm = List.map_filter (extract_kernel sections sm) (order sections)"

definition constant_bank :: "string \<Rightarrow> u32" where
  "constant_bank name =
     (case Option.bind (strip_prefix ''.nv.constant'' name)
             (\<lambda>s. outcome_ok (parse_u32 (hd (split_char (CHR ''.'') s)))) of
        Some bank \<Rightarrow> bank | None \<Rightarrow> 0)"

definition extract_constant :: "string \<times> CubinSection \<Rightarrow> CubinConstant option" where
  "extract_constant entry =
     (let (name, s) = entry in
      if starts_with ''.nv.constant'' name then
        Some \<lparr>cc_bank = constant_bank name, cc_offset = 0, cc_size = ucast (sec_size s), cc_name = Some name,
              cc_data = sec_data s\<rparr>
      else None)"

definition extract_constants :: "(section_map \<Rightarrow> section_map) \<Rightarrow> section_map \<Rightarrow> CubinConstant list" where
  "extract_constants order sections = List.map_filter extract_constant (order sections)"

text \<open>\<open>std::str::from_utf8\<close>; the characters of a model string are its UTF-8 bytes.\<close>

definition cont_byte :: "u8 \<Rightarrow> bool" where "cont_byte b \<longleftrightarrow> 0x80 \<le> b \<and> b \<le> 0xBF"

function utf8_valid :: "bytes \<Rightarrow> bool" where
  "utf8_valid [] = True"
| "utf8_valid (b # bs) =
     (if b < 0x80 then utf8_valid bs
      else if 0xC2 \<le> b \<and> b \<le> 0xDF then (case bs of c # bs' \<Rightarrow> cont_byte c \<and> utf8_valid bs' | _ \<Rightarrow> False)
      else if 0xE0 \<le> b \<and> b \<le> 0xEF then
        (case bs of c # d # bs' \<Rightarrow>
           (if b = 0xE0 then 0xA0 \<le> c \<and> c \<le> 0xBF else if b = 0xED then 0x80 \<le> c \<and> c \<le> 0x9F else cont_byte c) \<and>
           cont_byte d \<and> utf8_valid bs' | _ \<Rightarrow> False)
      else if 0xF0 \<le> b \<and> b \<le> 0xF4 then
        (case bs of c # d # e # bs' \<Rightarrow>
           (if b = 0xF0 then 0x90 \<le> c \<and> c \<le> 0xBF else if b = 0xF4 then 0x80 \<le> c \<and> c \<le> 0x8F else cont_byte c) \<and>
           cont_byte d \<and> cont_byte e \<and> utf8_valid bs' | _ \<Rightarrow> False)
      else False)"
  by pat_completeness auto

termination utf8_valid
  by (relation "measure length") auto

definition bytes_str :: "bytes \<Rightarrow> string" where
  "bytes_str bs = map (\<lambda>b. char_of (unat b)) bs"

definition from_utf8 :: "bytes \<Rightarrow> string option" where
  "from_utf8 bs = (if utf8_valid bs then Some (bytes_str bs) else None)"

fun find_ptx_version_in :: "section_map \<Rightarrow> string option" where
  "find_ptx_version_in [] = None"
| "find_ptx_version_in ((name, s) # rest) =
     (if contains ''ptx'' name then
        (case Option.bind (from_utf8 (sec_data s)) (\<lambda>t. List.find (starts_with ''.version'') (str_lines t)) of
           Some ver \<Rightarrow> Some ver
         | None \<Rightarrow> find_ptx_version_in rest)
      else find_ptx_version_in rest)"

definition find_ptx_version :: "(section_map \<Rightarrow> section_map) \<Rightarrow> section_map \<Rightarrow> string option" where
  "find_ptx_version order sections = find_ptx_version_in (order sections)"

subsection \<open>The parser\<close>

type_synonym elf_reader = "bytes \<Rightarrow> (ElfView, string) outcome"

definition parse_cubin :: "elf_reader \<Rightarrow> (section_map \<Rightarrow> section_map) \<Rightarrow> bytes \<Rightarrow> (ParsedCubin, CubinParseError) outcome" where
  "parse_cubin elf_parse order data =
     obind (omap_err ElfParseError (elf_parse data)) (\<lambda>elf.
     let sm = extract_sm_version elf in
     obind (parse_sections (ev_sections elf) []) (\<lambda>sections.
     let symbols = parse_symbols elf;
         kernels = extract_kernels order sections sm;
         constants = extract_constants order sections in
     Ok \<lparr>pc_sm_version = sm, pc_ptx_version = find_ptx_version order sections, pc_kernels = kernels,
         pc_constants = constants, pc_symbols = symbols, pc_sections = sections\<rparr>))"

definition get_kernel_code :: "ParsedCubin \<Rightarrow> string \<Rightarrow> bytes option" where
  "get_kernel_code parsed kernel_name =
     map_option ck_code (List.find (\<lambda>k. ck_name k = kernel_name) (pc_kernels parsed))"

definition get_kernel_names :: "ParsedCubin \<Rightarrow> string list" where
  "get_kernel_names parsed = map ck_name (pc_kernels parsed)"

subsection \<open>The builder\<close>

type_synonym file_reader = "string \<Rightarrow> (bytes, string) outcome"

definition parser_from_file :: "file_reader \<Rightarrow> string \<Rightarrow> (bytes, CubinParseError) outcome" where
  "parser_from_file read path = omap_err IoError (read path)"

record CubinParserBuilder =
  cb_data :: "bytes option"
  cb_parse_debug :: bool
  cb_parse_constants :: bool

definition cb_new :: CubinParserBuilder where
  "cb_new = \<lparr>cb_data = None, cb_parse_debug = True, cb_parse_constants = True\<rparr>"

definition cb_with_data :: "bytes \<Rightarrow> CubinParserBuilder \<Rightarrow> CubinParserBuilder" where
  "cb_with_data data b = b\<lparr>cb_data := Some data\<rparr>"

definition cb_from_file ::
  "file_reader \<Rightarrow> string \<Rightarrow> CubinParserBuilder \<Rightarrow> (CubinParserBuilder, CubinParseError) outcome" where
  "cb_from_file read path b = obind (omap_err IoError (read path)) (\<lambda>data. Ok (b\<lparr>cb_data := Some data\<rparr>))"

definition cb_set_parse_debug :: "bool \<Rightarrow> CubinParserBuilder \<Rightarrow> CubinParserBuilder" where
  "cb_set_parse_debug enable b = b\<lparr>cb_parse_debug := enable\<rparr>"

definition cb_set_parse_constants :: "bool \<Rightarrow> CubinParserBuilder \<Rightarrow> CubinParserBuilder" where
  "cb_set_parse_constants enable b = b\<lparr>cb_parse_constants := enable\<rparr>"

definition cb_build :: "CubinParserBuilder \<Rightarrow> (bytes, CubinParseError) outcome" where
  "cb_build b =
     obind (ok_or (InvalidFormat ''No data provided'') (cb_data b)) (\<lambda>data.
     obind (is_cubin data) (\<lambda>good.
     if \<not> good then Err (InvalidFormat ''Not a valid CUBIN file'') else Ok data))"

subsection \<open>Attribute lists\<close>

abbreviation attr_bytes :: "(u16 \<times> u32) list \<Rightarrow> bytes" where
  "attr_bytes as \<equiv> concat (map (\<lambda>(a, v). nv_attr a v) as)"

lemma nv_info_loop_attr:
  assumes data: "data = pre @ nv_attr a v @ rest" and al: "length pre mod 4 = 0"
  shows "nv_info_loop data (length pre) info = nv_info_loop data (length (pre @ nv_attr a v)) (nv_attribute a (le_u32 v) info)"
proof -
  let ?n = "length pre"
  have "data = pre @ le_u16 a @ (le_u16 4 @ le_u32 v @ rest)" by (simp add: data nv_attr_def)
  then have a: "from_le (subslice ?n (?n + 2) data) = a" using u16_le.dec_field [of pre ?n "?n + 2" a] by simp
  have "data = (pre @ le_u16 a) @ le_u16 4 @ (le_u32 v @ rest)" by (simp add: data nv_attr_def)
  then have s: "from_le (subslice (?n + 2) (?n + 4) data) = (4 :: u16)"
    using u16_le.dec_field [of "pre @ le_u16 a" "?n + 2" "?n + 4" 4 "le_u32 v @ rest"] by simp
  have d: "subslice (?n + 4) (?n + 4 + 4) data = le_u32 v"
    using subslice_exact [of "pre @ le_u16 a @ le_u16 4" "?n + 4" "le_u32 v" 4 rest] by (simp add: data nv_attr_def)
  have n: "length (pre @ nv_attr a v) = ?n + 8" by (simp add: nv_attr_def)
  have al8: "align4 (?n + 4 + 4) = ?n + 8" using al unfolding align4_def by presburger
  have u: "unat (4 :: u16) = 4" by simp
  have l: "?n + 4 \<le> length data" "\<not> ?n + 4 + 4 > length data" by (simp_all add: data nv_attr_def)
  show ?thesis
    by (subst nv_info_loop.simps) (simp only: Let_def a s u d al8 l n if_True if_False)
qed

lemma nv_info_loop_attrs:
  "length pre mod 4 = 0 \<Longrightarrow>
   nv_info_loop (pre @ attr_bytes as) (length pre) info = foldl (\<lambda>info (a, v). nv_attribute a (le_u32 v) info) info as"
proof (induction "as" arbitrary: pre info)
  case Nil
  then show ?case by (simp add: nv_info_loop.simps)
next
  case (Cons av "as")
  obtain a v where av: "av = (a, v)" by (rule prod.exhaust)
  have "length (pre @ nv_attr a v) mod 4 = 0" using Cons.prems by (simp add: nv_attr_def) presburger
  then show ?case
    using nv_info_loop_attr [OF refl Cons.prems, of a v "attr_bytes as" info]
      Cons.IH [of "pre @ nv_attr a v" "nv_attribute a (le_u32 v) info"] by (simp add: av)
qed

lemma parse_nv_info_attrs:
  "parse_nv_info (attr_bytes as) = foldl (\<lambda>info (a, v). nv_attribute a (le_u32 v) info) default_nv_info as"
  using nv_info_loop_attrs [of "[]"] by (simp add: parse_nv_info_def)

lemma nv_attribute_values:
  "nv_attribute EIATTR_REGCOUNT (le_u32 v) info = info"
  "nv_attribute EIATTR_MAX_THREADS (le_u32 v) info = info\<lparr>ni_max_threads := v\<rparr>"
  "nv_attribute EIATTR_SMEM_SIZE (le_u32 v) info = info\<lparr>ni_shared_mem := v\<rparr>"
  "nv_attribute EIATTR_LMEM_SIZE (le_u32 v) info = info\<lparr>ni_local_mem := v\<rparr>"
  "nv_attribute EIATTR_EXIT_INSTR_OFFSETS (le_u32 v) info = info"
  by (simp_all add: nv_attribute_def EIATTR_REGCOUNT_def EIATTR_MAX_THREADS_def EIATTR_SMEM_SIZE_def
      EIATTR_LMEM_SIZE_def EIATTR_EXIT_INSTR_OFFSETS_def)

lemma nv_attribute_exits:
  "foldl (\<lambda>info (a, v). nv_attribute a (le_u32 v) info) info (map (Pair EIATTR_EXIT_INSTR_OFFSETS) offs) = info"
  by (induction offs) (simp_all add: nv_attribute_values)

lemma nv_info_of_kernel:
  "parse_nv_info (build_nv_info_for_kernel k i) =
     \<lparr>ni_num_regs = 32, ni_shared_mem = shared_mem_bytes k, ni_const_mem = 0, ni_local_mem = local_mem_bytes k,
      ni_max_threads = max_threads k\<rparr>"
proof -
  have e: "build_nv_info_for_kernel k i = attr_bytes
    ([(EIATTR_REGCOUNT, num_registers k), (EIATTR_MAX_THREADS, max_threads k)] @
     (if shared_mem_bytes k > 0 then [(EIATTR_SMEM_SIZE, shared_mem_bytes k)] else []) @
     (if local_mem_bytes k > 0 then [(EIATTR_LMEM_SIZE, local_mem_bytes k)] else []) @
     map (Pair EIATTR_EXIT_INSTR_OFFSETS) (find_exit_offsets (instructions k)))"
    by (simp add: build_nv_info_for_kernel_def comp_def)
  show ?thesis
    unfolding e parse_nv_info_attrs
    by (simp add: nv_attribute_values nv_attribute_exits default_nv_info_def word_gt_0)
qed

subsection \<open>Reading the sections of a view\<close>

lemma update_new: "k \<notin> fst ` set al \<Longrightarrow> AList.update k v al = al @ [(k, v)]"
  by (induction al) auto

abbreviation section_data :: "section_map \<Rightarrow> (string \<times> bytes) list" where
  "section_data ss \<equiv> map (\<lambda>(n, s). (n, sec_data s)) ss"

lemma parse_sections_new:
  assumes "list_all2 (\<lambda>e s. es_name s = Ok (fst e) \<and> es_data s = Ok (snd e)) L secs"
    and "distinct (map fst acc @ map fst L)" "[] \<notin> fst ` set L"
  shows "\<exists>ss. parse_sections secs acc = Ok (acc @ ss) \<and> section_data ss = L"
  using assms
proof (induction arbitrary: acc rule: list_all2_induct)
  case (Cons e L s secs)
  let ?s = "\<lparr>sec_name = fst e, sec_address = es_address s, sec_size = es_size s, sec_data = snd e, sec_type = 0, sec_flags = 0\<rparr>"
  have u: "AList.update (fst e) ?s acc = acc @ [(fst e, ?s)]"
    using Cons.prems(1) by (intro update_new) auto
  obtain ss where "parse_sections secs (acc @ [(fst e, ?s)]) = Ok ((acc @ [(fst e, ?s)]) @ ss)" "section_data ss = L"
    using Cons.IH [of "acc @ [(fst e, ?s)]"] Cons.prems by auto
  then show ?case using Cons.hyps(1) Cons.prems(2) u
    by (intro exI [of _ "(fst e, ?s) # ss"]) auto
qed simp

lemma parse_sections_unnamed:
  "list_all (\<lambda>s. es_name s = Ok []) pre \<Longrightarrow> parse_sections (pre @ secs) acc = parse_sections secs acc"
  by (induction pre) auto

subsection \<open>Kernels of a section list\<close>

type_synonym kernel_summary = "string \<times> bytes \<times> NvInfo \<times> u32"

definition summary :: "CubinKernel \<Rightarrow> kernel_summary" where
  "summary k = (ck_name k, ck_code k,
     \<lparr>ni_num_regs = ck_num_registers k, ni_shared_mem = ck_shared_mem_size k, ni_const_mem = ck_const_mem_size k,
      ni_local_mem = ck_local_mem_size k, ni_max_threads = ck_max_threads_per_block k\<rparr>, ck_sm_version k)"

definition kernel_entry :: "(string \<times> bytes) list \<Rightarrow> u32 \<Rightarrow> string \<times> bytes \<Rightarrow> kernel_summary option" where
  "kernel_entry L sm e =
     (case strip_prefix ''.text.'' (fst e) of
        None \<Rightarrow> None
      | Some k \<Rightarrow>
          if snd e = [] then None
          else Some (k, snd e,
            case map_of L (''.nv.info.'' @ k) of Some d \<Rightarrow> parse_nv_info d | None \<Rightarrow> default_nv_info, sm))"

lemma extract_kernel_entry:
  "map_option summary (extract_kernel ss sm (n, s)) = kernel_entry (section_data ss) sm (n, sec_data s)"
proof -
  have "map_of (section_data ss) x = map_option sec_data (map_of ss x)" for x
    by (induction ss) auto
  then show ?thesis
    by (auto simp: extract_kernel_def kernel_entry_def summary_def strip_prefix_def default_nv_info_def Let_def
        split: option.splits)
qed

lemma mset_map_filter: "mset xs = mset ys \<Longrightarrow> mset (List.map_filter f xs) = mset (List.map_filter f ys)"
  by (simp add: List.map_filter_def mset_filter)

lemma map_filter_map_option:
  "map g (List.map_filter f xs) = List.map_filter (\<lambda>x. map_option g (f x)) xs"
  by (induction xs) (auto simp: List.map_filter_simps split: option.splits)

lemma extract_kernels_mset:
  assumes "\<And>xs. mset (order xs) = mset xs"
  shows "mset (map summary (extract_kernels order ss sm)) = mset (List.map_filter (kernel_entry (section_data ss) sm) (section_data ss))"
proof -
  have "map summary (extract_kernels order ss sm) = List.map_filter (\<lambda>e. kernel_entry (section_data ss) sm (fst e, sec_data (snd e))) (order ss)"
    unfolding extract_kernels_def map_filter_map_option
    by (rule arg_cong2 [where f = List.map_filter]) (auto simp: extract_kernel_entry)
  also have "mset \<dots> = mset (List.map_filter (\<lambda>e. kernel_entry (section_data ss) sm (fst e, sec_data (snd e))) ss)"
    by (rule mset_map_filter) (rule assms)
  also have "List.map_filter (\<lambda>e. kernel_entry (section_data ss) sm (fst e, sec_data (snd e))) ss =
      List.map_filter (kernel_entry (section_data ss) sm) (section_data ss)"
    by (simp add: List.map_filter_def comp_def filter_map split_beta)
  finally show ?thesis .
qed

subsection \<open>The section list of a module\<close>

lemma section_prefixes:
  "''.text.'' @ a \<noteq> ''.nv.info.'' @ b" "''.text.'' @ a \<noteq> ''.nv.constant0.'' @ b" "''.nv.info.'' @ a \<noteq> ''.nv.constant0.'' @ b"
  "''.text.'' @ a \<noteq> ''.shstrtab''" "''.text.'' @ a \<noteq> ''.strtab''" "''.text.'' @ a \<noteq> ''.symtab''" "''.text.'' @ a \<noteq> ''.nv.info''"
  "''.nv.info.'' @ a \<noteq> ''.shstrtab''" "''.nv.info.'' @ a \<noteq> ''.strtab''" "''.nv.info.'' @ a \<noteq> ''.symtab''" "''.nv.info.'' @ a \<noteq> ''.nv.info''"
  "''.nv.constant0.'' @ a \<noteq> ''.shstrtab''" "''.nv.constant0.'' @ a \<noteq> ''.strtab''" "''.nv.constant0.'' @ a \<noteq> ''.symtab''"
  "''.nv.constant0.'' @ a \<noteq> ''.nv.info''"
  by simp_all

lemma kernel_sections_in:
  "e \<in> set (concat (map (kernel_section_list ks enc) is)) \<longleftrightarrow> (\<exists>i \<in> set is. e \<in> set (kernel_section_list ks enc i))"
  by auto

lemma kernel_sections_distinct:
  assumes "distinct is" "distinct (map kname ks)" "set is \<subseteq> {0..<length ks}"
  shows "distinct (map fst (concat (map (kernel_section_list ks enc) is)))"
  using assms(1,3)
proof (induction "is")
  case (Cons i "is")
  have d: "distinct (map fst (kernel_section_list ks enc i))"
    using section_prefixes by (simp add: kernel_section_list_def)
  have "set (map fst (kernel_section_list ks enc i)) \<inter> set (map fst (concat (map (kernel_section_list ks enc) is))) = {}"
  proof (rule ccontr)
    assume "\<not> ?thesis"
    then obtain j x where j: "j \<in> set is" and x: "x \<in> set (map fst (kernel_section_list ks enc i))" "x \<in> set (map fst (kernel_section_list ks enc j))"
      by auto
    then have "kname (ks ! i) = kname (ks ! j)"
      using section_prefixes by (auto simp: kernel_section_list_def)
    moreover have "i < length ks" "j < length ks" "i \<noteq> j" using Cons.prems j by auto
    ultimately show False using assms(2) by (simp add: distinct_conv_nth)
  qed
  with d Cons show ?case by auto
qed simp

lemma module_sections_distinct:
  assumes "distinct (map kname (kernels m))"
  shows "distinct (map fst (module_section_list m enc sh st sy))" "[] \<notin> fst ` set (module_section_list m enc sh st sy)"
proof -
  let ?c = "concat (map (kernel_section_list (kernels m) enc) [0..<length (kernels m)])"
  have d: "distinct (map fst ?c)" by (rule kernel_sections_distinct [OF _ assms]) auto
  have n: "x \<noteq> ''.shstrtab'' \<and> x \<noteq> ''.strtab'' \<and> x \<noteq> ''.symtab'' \<and> x \<noteq> ''.nv.info'' \<and> x \<noteq> []" if "x \<in> fst ` set ?c" for x
  proof -
    from that obtain i where "x \<in> fst ` set (kernel_section_list (kernels m) enc i)" by auto
    then have "x = ''.text.'' @ kname (kernels m ! i) \<or> x = ''.nv.info.'' @ kname (kernels m ! i) \<or>
        x = ''.nv.constant0.'' @ kname (kernels m ! i)" by (auto simp: kernel_section_list_def)
    then show ?thesis using section_prefixes by (elim disjE) simp_all
  qed
  have "set (map fst [(''.shstrtab'', sh), (''.strtab'', st), (''.symtab'', sy), (''.nv.info'', [])]) \<inter> set (map fst ?c) = {}"
    using n by auto
  moreover have "distinct (map fst [(''.shstrtab'', sh), (''.strtab'', st), (''.symtab'', sy), (''.nv.info'', [])])" by simp
  ultimately show "distinct (map fst (module_section_list m enc sh st sy))"
    unfolding module_section_list_def map_append distinct_append using d by blast
  show "[] \<notin> fst ` set (module_section_list m enc sh st sy)"
    unfolding module_section_list_def set_append image_Un using n [of "[]"] by auto
qed

definition written_kernel :: "SassModule \<Rightarrow> bytes list \<Rightarrow> nat \<Rightarrow> kernel_summary" where
  "written_kernel m enc i =
     (kname (kernels m ! i), enc ! i,
      \<lparr>ni_num_regs = 32, ni_shared_mem = shared_mem_bytes (kernels m ! i), ni_const_mem = 0,
       ni_local_mem = local_mem_bytes (kernels m ! i), ni_max_threads = max_threads (kernels m ! i)\<rparr>, sm_version m)"

lemma strip_text:
  "strip_prefix ''.text.'' (''.text.'' @ k) = Some k" "strip_prefix ''.text.'' (''.nv.info.'' @ k) = None"
  "strip_prefix ''.text.'' (''.nv.constant0.'' @ k) = None"
  by (simp_all add: strip_prefix_def starts_with_def)

lemma module_kernel_entries:
  assumes "distinct (map kname (kernels m))"
    and L_def: "L = module_section_list m enc sh st sy"
  shows "List.map_filter (kernel_entry L (sm_version m)) L =
    map (written_kernel m enc) (filter (\<lambda>i. enc ! i \<noteq> []) [0..<length (kernels m)])"
proof -
  let ?f = "kernel_entry L (sm_version m)"
  have info: "map_of L (''.nv.info.'' @ kname (kernels m ! i)) = Some (build_nv_info_for_kernel (kernels m ! i) (text_section_idx i))"
    if "i < length (kernels m)" for i
    using module_section_nth(2,4) [OF that, of enc sh st sy] module_sections_distinct(1) [OF assms(1)] unfolding L_def
    by (intro map_of_is_SomeI) (auto simp: in_set_conv_nth intro: exI [of _ "5 + 3 * i"])
  have k: "List.map_filter ?f (kernel_section_list (kernels m) enc i) =
      (if enc ! i = [] then [] else [written_kernel m enc i])" if "i < length (kernels m)" for i
    using info [OF that] strip_text
    by (simp add: kernel_section_list_def List.map_filter_simps kernel_entry_def written_kernel_def nv_info_of_kernel)
  have "List.map_filter ?f (concat (map (kernel_section_list (kernels m) enc) is)) =
      map (written_kernel m enc) (filter (\<lambda>i. enc ! i \<noteq> []) is)" if "set is \<subseteq> {0..<length (kernels m)}" for "is"
    using that by (induction "is") (auto simp: List.map_filter_simps map_filter_append k)
  moreover have "List.map_filter ?f [(''.shstrtab'', sh), (''.strtab'', st), (''.symtab'', sy), (''.nv.info'', [])] = []"
    by (simp add: List.map_filter_simps kernel_entry_def strip_prefix_def starts_with_def)
  ultimately show ?thesis
    by (subst (2) L_def) (simp only: module_section_list_def map_filter_append, simp)
qed

subsection \<open>Reading a written file\<close>

text \<open>
  What is relied on of the \<open>object\<close> crate: the flags of the header, and the sections of the header
  table in order with their names and contents, possibly behind unnamed ones (the null section).
\<close>

definition elf_reads :: "bytes \<Rightarrow> ElfView \<Rightarrow> bool" where
  "elf_reads b v \<longleftrightarrow> ev_flags v = Some (rd32 b 48) \<and>
     (\<exists>pre secs. ev_sections v = pre @ secs \<and> list_all (\<lambda>s. es_name s = Ok []) pre \<and>
        list_all2 (\<lambda>i s. es_name s = Ok (bytes_str (section_name b i)) \<and> es_data s = Ok (section_bytes b i))
          [1..<unat (rd16 b 60)] secs)"

lemma bytes_str_bytes [simp]: "bytes_str (str_bytes s) = s"
proof -
  have "char_of (unat (of_char c :: u8)) = c" for c
  proof -
    have "(of_char c :: nat) < 2 ^ 8" using nat_of_char_less_256 [of c] by simp
    then have "unat (of_nat (of_char c) :: u8) = of_char c"
      by (simp only: unsigned_of_nat) (simp add: take_bit_nat_eq_self)
    then have "unat (of_char c :: u8) = of_char c" by (simp only: of_nat_of_char)
    then show ?thesis by simp
  qed
  then show ?thesis by (simp add: bytes_str_def str_bytes_def comp_def)
qed

lemma elf_sections:
  assumes v: "elf_reads b v" and n: "unat (rd16 b 60) = Suc (length L)"
    and sec: "\<And>i. i < length L \<Longrightarrow> section_name b (Suc i) = str_bytes (fst (L ! i)) \<and> section_bytes b (Suc i) = snd (L ! i)"
    and d: "distinct (map fst L)" "[] \<notin> fst ` set L"
  shows "\<exists>ss. parse_sections (ev_sections v) [] = Ok ss \<and> section_data ss = L"
proof -
  obtain pre secs where s: "ev_sections v = pre @ secs" "list_all (\<lambda>s. es_name s = Ok []) pre"
    "list_all2 (\<lambda>i s. es_name s = Ok (bytes_str (section_name b i)) \<and> es_data s = Ok (section_bytes b i))
       [1..<Suc (length L)] secs"
    using v by (auto simp: elf_reads_def n)
  then have "list_all2 (\<lambda>e s. es_name s = Ok (fst e) \<and> es_data s = Ok (snd e)) L secs"
    using sec by (auto simp: list_all2_conv_all_nth simp del: upt_Suc)
  then show ?thesis
    using parse_sections_new [of L secs "[]"] d s(1) parse_sections_unnamed [OF s(2), of secs "[]"] by simp
qed

lemma sm_flags: "10 \<le> sm \<Longrightarrow> sm \<le> 255 \<Longrightarrow> sm_version_from_elf_flags sm = Some sm"
proof -
  assume a: "10 \<le> sm" "sm \<le> 255"
  have "unat sm < 2 ^ 8" using a(2) by (simp add: word_le_nat_alt)
  then have "take_bit 8 sm = sm"
    by (simp add: word_unat_eq_iff unsigned_take_bit_eq take_bit_nat_eq_self)
  then have "sm AND 0xff = sm" by (simp add: take_bit_eq_mask mask_eq_exp_minus_1)
  then show ?thesis using a by (simp add: sm_version_from_elf_flags_def)
qed

lemma is_cubin_header:
  assumes "64 \<le> length b" "subslice 0 4 b = [0x7F, 0x45, 0x4C, 0x46]" "subslice 4 5 b = [2]" "subslice 5 6 b = [1]" "rd16 b 18 = 190"
  shows "is_cubin b = Ok True"
proof -
  have one: "b ! i = x" if "subslice i (Suc i) b = [x]" "i < length b" for i x
    using that by (simp add: subslice_def take_Suc hd_drop_conv_nth split: if_splits)
  have "b ! 4 = 2" "b ! 5 = 1" using one [of 4] one [of 5] assms by (simp_all add: eval_nat_numeral)
  moreover have "subslice 18 20 b = [b ! 18, b ! 19]"
    using assms(1) by (intro nth_equalityI) (auto simp: subslice_def less_Suc_eq numeral_2_eq_2)
  ultimately show ?thesis using assms by (simp add: is_cubin_def rd16_def)
qed

lemma parse_built:
  assumes b: "build_cubin_from_module m = Ok b" and small: "length b < 2 ^ 32" "length (kernels m) < 21000"
    and names: "list_all nul_free (kernels m)" "distinct (map kname (kernels m))"
    and sm: "10 \<le> sm_version m" "sm_version m \<le> 255"
    and elf: "elf_parse b = Ok v" "elf_reads b v" and order: "\<And>xs. mset (order xs) = mset xs"
  shows "\<exists>p enc. cb_build (cb_with_data b cb_new) = Ok b \<and> parse_cubin elf_parse order b = Ok p \<and>
    encode_kernels m = Ok enc \<and> pc_sm_version p = sm_version m \<and>
    mset (map summary (pc_kernels p)) =
      mset (map (written_kernel m enc) (filter (\<lambda>i. enc ! i \<noteq> []) [0..<length (kernels m)]))"
proof -
  note h = cubin_header [OF b]
  obtain enc sh st sy where enc: "encode_kernels m = Ok enc"
    and sec: "\<And>i. i < length (module_section_list m enc sh st sy) \<Longrightarrow>
       section_name b (Suc i) = str_bytes (fst (module_section_list m enc sh st sy ! i)) \<and>
       section_bytes b (Suc i) = snd (module_section_list m enc sh st sy ! i)"
    using cubin_table [OF b small(1) names(1)] by metis
  define L where "L = module_section_list m enc sh st sy"
  have r: "rd16 b 60 = of_nat (5 + 3 * length (kernels m))" using h by blast
  have "5 + 3 * length (kernels m) < 2 ^ LENGTH(16)" using small(2) by simp
  then have "unat (rd16 b 60) = Suc (length L)"
    unfolding r unsigned_of_nat L_def length_module_section_list by (simp only: take_bit_nat_eq_self) simp
  from elf_sections [OF elf(2) this] obtain ss where ss: "parse_sections (ev_sections v) [] = Ok ss" "section_data ss = L"
    using sec module_sections_distinct [OF names(2), of enc sh st sy] unfolding L_def by blast
  have smv: "extract_sm_version v = sm_version m"
    using elf(2) h sm_flags [OF sm] by (simp add: extract_sm_version_def elf_reads_def)
  obtain p where p: "parse_cubin elf_parse order b = Ok p" "pc_sm_version p = sm_version m"
    "pc_kernels p = extract_kernels order ss (sm_version m)"
    using elf(1) ss(1) smv by (simp add: parse_cubin_def Let_def)
  have "mset (map summary (pc_kernels p)) = mset (List.map_filter (kernel_entry L (sm_version m)) L)"
    unfolding p(3) extract_kernels_mset [of order ss "sm_version m", OF order] ss(2) ..
  also have "\<dots> = mset (map (written_kernel m enc) (filter (\<lambda>i. enc ! i \<noteq> []) [0..<length (kernels m)]))"
    unfolding module_kernel_entries [OF names(2) L_def] ..
  finally have ks: "mset (map summary (pc_kernels p)) =
    mset (map (written_kernel m enc) (filter (\<lambda>i. enc ! i \<noteq> []) [0..<length (kernels m)]))" .
  have "cb_build (cb_with_data b cb_new) = Ok b"
    using h is_cubin_header [of b] by (simp add: cb_build_def cb_with_data_def cb_new_def ok_or_def)
  with p enc ks show ?thesis by blast
qed

subsection \<open>Properties\<close>

text \<open>
  C9. Reading back what the writer produced: for a module of any size whose kernel names are distinct,
  and whatever order the section map is visited in, the built file is accepted, it parses, the SM
  version is the module's, and the kernels are exactly the written kernels that have code, each with
  its name, its encoded instructions, its shared and local memory sizes and its thread limit. The
  register count alone is not read back: it is always 32.
\<close>

theorem parse_built_cubin:
  assumes "build_cubin_from_module m = Ok b" "length b < 2 ^ 32" "length (kernels m) < 21000"
    and "list_all nul_free (kernels m)" "distinct (map kname (kernels m))"
    and "10 \<le> sm_version m" "sm_version m \<le> 255"
    and "elf_parse b = Ok v" "elf_reads b v" and "\<And>xs. mset (order xs) = mset xs"
  shows "\<exists>p enc. cb_build (cb_with_data b cb_new) = Ok b \<and> parse_cubin elf_parse order b = Ok p \<and>
    encode_kernels m = Ok enc \<and> pc_sm_version p = sm_version m \<and>
    mset (map summary (pc_kernels p)) =
      mset (map (written_kernel m enc) (filter (\<lambda>i. enc ! i \<noteq> []) [0..<length (kernels m)]))"
  using assms by (rule parse_built)

definition plain_view :: "bytes \<Rightarrow> ElfView" where
  "plain_view b =
     \<lparr>ev_flags = Some (rd32 b 48),
      ev_sections = map (\<lambda>i. \<lparr>es_name = Ok (bytes_str (section_name b i)), es_data = Ok (section_bytes b i),
        es_address = 0, es_size = of_nat (length (section_bytes b i))\<rparr>) [1..<unat (rd16 b 60)],
      ev_symbols = [], ev_section_by_index = (\<lambda>i. None)\<rparr>"

lemma plain_view_reads: "elf_reads b (plain_view b)"
  unfolding elf_reads_def plain_view_def
  by (rule conjI, simp, rule exI [of _ "[]"], rule exI) (auto simp: list_all2_conv_all_nth)

theorem parse_built_cubin_witness:
  "\<exists>b p. build_cubin_from_module example_module = Ok b \<and> parse_cubin (\<lambda>b. Ok (plain_view b)) rev b = Ok p \<and>
     map summary (pc_kernels p) = [written_kernel example_module
       [concat (replicate 2 [4, 2, 0xFB, 0x0F, 0, 0, 0, 0x30, 0xEF, 7, 0, 0, 0, 0, 0, 0])] 0]"
proof -
  obtain b where b: "build_cubin_from_module example_module = Ok b" and small: "length b < 2 ^ 32"
    by (rule example_module_builds)
  have nul: "list_all nul_free (kernels example_module)" by code_simp
  let ?c = "concat (replicate 2 [4, 2, 0xFB, 0x0F, 0, 0, 0, 0x30, 0xEF, 7, 0, 0, 0, 0, 0, 0]) :: bytes"
  have hyps: "length (kernels example_module) < 21000" "distinct (map kname (kernels example_module))"
    "10 \<le> sm_version example_module" "sm_version example_module \<le> 255" "length (kernels example_module) = 1" by simp_all
  have c: "?c \<noteq> []" by code_simp
  obtain p enc where p: "parse_cubin (\<lambda>b. Ok (plain_view b)) rev b = Ok p" "encode_kernels example_module = Ok enc"
    and ks: "mset (map summary (pc_kernels p)) =
      mset (map (written_kernel example_module enc) (filter (\<lambda>i. enc ! i \<noteq> []) [0..<1]))"
    using parse_built_cubin [where order = rev and elf_parse = "\<lambda>b. Ok (plain_view b)",
        OF b small hyps(1) nul hyps(2-4) refl plain_view_reads mset_rev] unfolding hyps(5) by blast
  have "enc = [?c]" using p(2) unfolding example_module_encodes by (rule outcome.inject(1) [THEN iffD1, symmetric])
  then have "mset (map summary (pc_kernels p)) = mset [written_kernel example_module [?c] 0]"
    using ks c by simp
  then have "map summary (pc_kernels p) = [written_kernel example_module [?c] 0]"
    by (simp only: mset_single_iff_right mset.simps add_mset_eq_single mset_single_iff)
  with b p(1) show ?thesis by (intro exI [of _ b] exI [of _ p] conjI)
qed

text \<open>
  The attributes that the writer emits for a kernel, read by the attribute loop, give back the memory
  sizes and the thread limit of every kernel, however many exits it has; the register count is lost,
  because the writer's attribute number \<open>0x2F04\<close> is not the \<open>0x0401\<close> the reader looks for.
\<close>

theorem nv_info_roundtrip:
  "parse_nv_info (build_nv_info_for_kernel k i) =
     \<lparr>ni_num_regs = 32, ni_shared_mem = shared_mem_bytes k, ni_const_mem = 0, ni_local_mem = local_mem_bytes k,
      ni_max_threads = max_threads k\<rparr>"
  by (rule nv_info_of_kernel)

text \<open>
  File recognition fails on short files: data of 16 to 19 bytes that starts like a 64-bit
  little-endian ELF file makes \<open>is_cubin\<close> panic, since only 16 bytes are required before bytes 18 and
  19 are read; no other input does.
\<close>

theorem is_cubin_panics_iff:
  "is_cubin data = Panic \<longleftrightarrow>
     16 \<le> length data \<and> length data < 20 \<and> take 6 data = [0x7F, 0x45, 0x4C, 0x46, 2, 1]"
proof -
  have "take 6 data = take 4 data @ [data ! 4, data ! 5]" if "16 \<le> length data"
    using that by (intro nth_equalityI) (auto simp: nth_append less_Suc_eq eval_nat_numeral)
  then show ?thesis by (auto simp: is_cubin_def subslice_def)
qed

end
