(* ===== verification/Tmatmul_Asm.thy ===== *)
theory Tmatmul_Asm
  imports Rust_Str "HOL-Library.AList" "HOL-Library.Multiset"
begin

text \<open>
  The assembly generator for the ternary-matmul accelerator (\<open>ptx/src/pass/emit_tmatmul_asm.rs\<close>): the
  register allocator with spilling, memory locations, instructions and their text, and the code
  generator \<open>TMatmulCodegen\<close>. Hash maps whose iteration order matters are association lists, visited
  in the order given by the argument \<open>order\<close>.
\<close>

subsection \<open>Register allocator\<close>

abbreviation (input) NUM_REGISTERS :: nat where "NUM_REGISTERS \<equiv> 8"

record SpillSlot =
  slot_memory_name :: string
  slot_ssa_value :: string

record RegisterAllocator =
  value_to_reg :: "(string \<times> string) list"
  allocated_regs :: "bool list"
  next_reg :: nat
  spill_slots :: "string \<rightharpoonup> SpillSlot"
  next_spill_slot :: nat
  pending_spills :: "(string \<times> string) list"
  pending_reloads :: "(string \<times> string) list"

type_synonym map_order = "(string \<times> string) list \<Rightarrow> (string \<times> string) list"

definition ra_new :: RegisterAllocator where
  "ra_new = \<lparr>value_to_reg = [], allocated_regs = replicate NUM_REGISTERS False, next_reg = 0,
     spill_slots = Map.empty, next_spill_slot = 0, pending_spills = [], pending_reloads = []\<rparr>"

definition reg_name :: "nat \<Rightarrow> string" where
  "reg_name i = ''v'' @ show_nat i"

text \<open>The victim's part of \<open>allocate_physical_register\<close>: queue the spill and forget the mapping.\<close>

definition spill_victim :: "map_order \<Rightarrow> string \<Rightarrow> RegisterAllocator \<Rightarrow> RegisterAllocator" where
  "spill_victim order victim_reg ra =
     (case map_option fst (List.find (\<lambda>(_, r). r = victim_reg) (order (value_to_reg ra))) of
        None \<Rightarrow> ra
      | Some victim_ssa \<Rightarrow>
          (let spill_name = ''SPILL_'' @ show_nat (next_spill_slot ra) in
           ra\<lparr>next_spill_slot := next_spill_slot ra + 1,
              pending_spills := pending_spills ra @ [(victim_reg, spill_name)],
              spill_slots := (spill_slots ra)(victim_ssa \<mapsto>
                \<lparr>slot_memory_name = spill_name, slot_ssa_value = victim_ssa\<rparr>),
              value_to_reg := AList.delete victim_ssa (value_to_reg ra)\<rparr>))"

definition take_register :: "string \<Rightarrow> nat \<Rightarrow> RegisterAllocator \<Rightarrow> RegisterAllocator" where
  "take_register ssa_value reg_idx ra =
     ra\<lparr>allocated_regs := (allocated_regs ra)[reg_idx := True],
        value_to_reg := AList.update ssa_value (reg_name reg_idx) (value_to_reg ra),
        next_reg := (reg_idx + 1) mod NUM_REGISTERS\<rparr>"

definition allocate_physical_register :: "map_order \<Rightarrow> RegisterAllocator \<Rightarrow> string \<Rightarrow> string \<times> RegisterAllocator" where
  "allocate_physical_register order ra ssa_value =
     (case List.find (\<lambda>i. \<not> allocated_regs ra ! i) [0..<NUM_REGISTERS] of
        Some reg_idx \<Rightarrow> (reg_name reg_idx, take_register ssa_value reg_idx ra)
      | None \<Rightarrow>
          (let victim_idx = (next_reg ra + NUM_REGISTERS - 1) mod NUM_REGISTERS;
               victim_reg = reg_name victim_idx in
           (victim_reg, take_register ssa_value victim_idx (spill_victim order victim_reg ra))))"

definition ra_allocate :: "map_order \<Rightarrow> RegisterAllocator \<Rightarrow> string \<Rightarrow> string \<times> RegisterAllocator" where
  "ra_allocate order ra ssa_value =
     (case map_of (value_to_reg ra) ssa_value of
        Some reg \<Rightarrow> (reg, ra)
      | None \<Rightarrow>
          (case spill_slots ra ssa_value of
             Some slot \<Rightarrow>
               (let (reg, ra) = allocate_physical_register order ra ssa_value in
                (reg, ra\<lparr>pending_reloads := pending_reloads ra @ [(slot_memory_name slot, reg)],
                         spill_slots := (spill_slots ra)(ssa_value := None)\<rparr>))
           | None \<Rightarrow> allocate_physical_register order ra ssa_value))"

definition ra_free :: "string \<Rightarrow> RegisterAllocator \<Rightarrow> RegisterAllocator" where
  "ra_free ssa_value ra =
     (let ra = (case map_of (value_to_reg ra) ssa_value of
                  None \<Rightarrow> ra
                | Some reg \<Rightarrow>
                    (let ra = ra\<lparr>value_to_reg := AList.delete ssa_value (value_to_reg ra)\<rparr> in
                     case Option.bind (strip_prefix ''v'' reg) (\<lambda>s. outcome_ok (parse_usize s)) of
                       None \<Rightarrow> ra
                     | Some idx \<Rightarrow>
                         if idx < NUM_REGISTERS then ra\<lparr>allocated_regs := (allocated_regs ra)[idx := False]\<rparr> else ra))
      in ra\<lparr>spill_slots := (spill_slots ra)(ssa_value := None)\<rparr>)"

definition get_register :: "RegisterAllocator \<Rightarrow> string \<Rightarrow> string option" where
  "get_register ra ssa_value = map_of (value_to_reg ra) ssa_value"

definition is_spilled :: "RegisterAllocator \<Rightarrow> string \<Rightarrow> bool" where
  "is_spilled ra ssa_value \<longleftrightarrow> spill_slots ra ssa_value \<noteq> None"

definition take_pending_spills :: "RegisterAllocator \<Rightarrow> (string \<times> string) list \<times> RegisterAllocator" where
  "take_pending_spills ra = (pending_spills ra, ra\<lparr>pending_spills := []\<rparr>)"

definition take_pending_reloads :: "RegisterAllocator \<Rightarrow> (string \<times> string) list \<times> RegisterAllocator" where
  "take_pending_reloads ra = (pending_reloads ra, ra\<lparr>pending_reloads := []\<rparr>)"

definition spill_count :: "RegisterAllocator \<Rightarrow> usize" where
  "spill_count ra = next_spill_slot ra"

subsection \<open>Instructions and their text\<close>

datatype MemoryLocation =
    Loc_X | Loc_WG | Loc_WF | Loc_WC | Loc_WO | Loc_WU1 | Loc_WU2 | Loc_WN | Loc_OH | Loc_B | Loc_O | TempVec
  | Custom string

fun location_text :: "MemoryLocation \<Rightarrow> string" where
  "location_text Loc_X = ''X''"
| "location_text Loc_WG = ''WG''"
| "location_text Loc_WF = ''WF''"
| "location_text Loc_WC = ''WC''"
| "location_text Loc_WO = ''WO''"
| "location_text Loc_WU1 = ''WU1''"
| "location_text Loc_WU2 = ''WU2''"
| "location_text Loc_WN = ''WN''"
| "location_text Loc_OH = ''oH''"
| "location_text Loc_B = ''B''"
| "location_text Loc_O = ''O''"
| "location_text TempVec = ''TEMP_VEC''"
| "location_text (Custom name) = name"

datatype TMatmulInstruction =
    T_LoadVector string MemoryLocation
  | T_StoreVector string MemoryLocation
  | T_Add string string string
  | T_Sub string string string
  | T_Mul string string string
  | T_Div string string string
  | T_Sigmoid string string
  | T_ComplementSigmoid string string
  | T_SiLU string string
  | T_Norm string string
  | T_Import string
  | T_Go MemoryLocation
  | T_Export string
  | T_Comment string
  | T_Label string

fun instruction_text :: "TMatmulInstruction \<Rightarrow> string" where
  "instruction_text (T_LoadVector d s) = ''    ldv    '' @ d @ '','' @ location_text s"
| "instruction_text (T_StoreVector s d) = ''    sv    '' @ s @ '','' @ location_text d"
| "instruction_text (T_Add d a b) = ''    add    '' @ d @ '','' @ a @ '','' @ b"
| "instruction_text (T_Sub d a b) = ''    sub    '' @ d @ '','' @ a @ '','' @ b"
| "instruction_text (T_Mul d a b) = ''    mul    '' @ d @ '','' @ a @ '','' @ b"
| "instruction_text (T_Div d a b) = ''    div    '' @ d @ '','' @ a @ '','' @ b"
| "instruction_text (T_Sigmoid d a) = ''    sig    '' @ d @ '','' @ a"
| "instruction_text (T_ComplementSigmoid d a) = ''    csig    '' @ d @ '','' @ a"
| "instruction_text (T_SiLU d a) = ''    silu    '' @ d @ '','' @ a"
| "instruction_text (T_Norm d a) = ''    norm    '' @ d @ '','' @ a"
| "instruction_text (T_Import s) = ''    tmatmul_import    '' @ s"
| "instruction_text (T_Go w) = ''    tmatmul_go    '' @ location_text w"
| "instruction_text (T_Export d) = ''    tmatmul_export    '' @ d"
| "instruction_text (T_Comment t) = ''    ; '' @ t"
| "instruction_text (T_Label n) = n @ '':''"

type_synonym TMatmulProgram = "TMatmulInstruction list"

definition add_comment :: "string \<Rightarrow> TMatmulProgram \<Rightarrow> TMatmulProgram" where
  "add_comment comment p = p @ [T_Comment comment]"

definition dash_line :: string where
  "dash_line = ''-------------------------------------------------------''"

definition add_section_separator :: "string \<Rightarrow> TMatmulProgram \<Rightarrow> TMatmulProgram" where
  "add_section_separator section_name p =
     p @ [T_Comment [], T_Comment dash_line, T_Comment ('' '' @ section_name), T_Comment dash_line, T_Comment []]"

definition assembly_header :: "string list" where
  "assembly_header =
     ['';'' @ dash_line,
      ''; vector registers: v0..v7'',
      '';'',
      ''; DDR: X, WG, WF, WC, WO, WU1, WU2, WN, oH, B, O, TEMP_VEC'',
      '';'',
      ''; instructions:'',
      ''; memory: ldv sv'',
      ''; operations: add sub mul div sig csig silu'',
      ''; misc: norm tmatmul_import tmatmul_go tmatmul_export'',
      '';'' @ dash_line,
      []]"

definition to_assembly :: "TMatmulProgram \<Rightarrow> string" where
  "to_assembly p = concat (map (\<lambda>l. l @ [CHR 0x0A]) (assembly_header @ map instruction_text p))"

subsection \<open>Code generator\<close>

record TMatmulCodegen =
  cg_program :: TMatmulProgram
  cg_alloc :: RegisterAllocator
  cg_mem :: "string \<rightharpoonup> MemoryLocation"

definition cg_new :: TMatmulCodegen where
  "cg_new = \<lparr>cg_program = [], cg_alloc = ra_new, cg_mem = Map.empty\<rparr>"

definition map_memory :: "string \<Rightarrow> MemoryLocation \<Rightarrow> TMatmulCodegen \<Rightarrow> TMatmulCodegen" where
  "map_memory symbol location cg = cg\<lparr>cg_mem := (cg_mem cg)(symbol \<mapsto> location)\<rparr>"

definition add_instruction :: "TMatmulInstruction \<Rightarrow> TMatmulCodegen \<Rightarrow> TMatmulCodegen" where
  "add_instruction inst cg = cg\<lparr>cg_program := cg_program cg @ [inst]\<rparr>"

definition emit_pending_spills :: "TMatmulCodegen \<Rightarrow> TMatmulCodegen" where
  "emit_pending_spills cg =
     (let (spills, ra) = take_pending_spills (cg_alloc cg) in
      cg\<lparr>cg_alloc := ra,
         cg_program := cg_program cg @ concat (map (\<lambda>(reg, mem_name).
           [T_Comment (''Spill '' @ reg @ '' to '' @ mem_name), T_StoreVector reg (Custom mem_name)]) spills)\<rparr>)"

definition emit_pending_reloads :: "TMatmulCodegen \<Rightarrow> TMatmulCodegen" where
  "emit_pending_reloads cg =
     (let (reloads, ra) = take_pending_reloads (cg_alloc cg) in
      cg\<lparr>cg_alloc := ra,
         cg_program := cg_program cg @ concat (map (\<lambda>(mem_name, reg).
           [T_Comment (''Reload '' @ reg @ '' from '' @ mem_name), T_LoadVector reg (Custom mem_name)]) reloads)\<rparr>)"

definition cg_allocate :: "map_order \<Rightarrow> string \<Rightarrow> TMatmulCodegen \<Rightarrow> string \<times> TMatmulCodegen" where
  "cg_allocate order ssa_value cg =
     (let (reg, ra) = ra_allocate order (cg_alloc cg) ssa_value in (reg, cg\<lparr>cg_alloc := ra\<rparr>))"

definition ensure_in_register :: "map_order \<Rightarrow> string \<Rightarrow> TMatmulCodegen \<Rightarrow> string \<times> TMatmulCodegen" where
  "ensure_in_register order ssa_value cg =
     (let (reg, cg) = cg_allocate order ssa_value cg in (reg, emit_pending_reloads cg))"

definition mem_location :: "TMatmulCodegen \<Rightarrow> string \<Rightarrow> MemoryLocation" where
  "mem_location cg symbol = (case cg_mem cg symbol of Some l \<Rightarrow> l | None \<Rightarrow> Custom symbol)"

definition nth_str :: "string list \<Rightarrow> nat \<Rightarrow> (string, string) outcome" where
  "nth_str xs i = (if i < length xs then Ok (xs ! i) else Panic)"

text \<open>The branches of \<open>emit_operation\<close> with two sources, with one source, and the others.\<close>

definition emit_binary ::
  "map_order \<Rightarrow> (string \<Rightarrow> string \<Rightarrow> string \<Rightarrow> TMatmulInstruction) \<Rightarrow> string list \<Rightarrow> string list \<Rightarrow> TMatmulCodegen \<Rightarrow>
   (TMatmulCodegen, string) outcome" where
  "emit_binary order mk operands results cg =
     obind (nth_str operands 0) (\<lambda>a.
     let (src1, cg) = ensure_in_register order a cg in
     obind (nth_str operands 1) (\<lambda>b.
     let (src2, cg) = ensure_in_register order b cg;
         cg = emit_pending_spills cg in
     obind (nth_str results 0) (\<lambda>r.
     let (dst, cg) = cg_allocate order r cg in
     Ok (add_instruction (mk dst src1 src2) (emit_pending_spills cg)))))"

definition emit_unary ::
  "map_order \<Rightarrow> (string \<Rightarrow> string \<Rightarrow> TMatmulInstruction) \<Rightarrow> string list \<Rightarrow> string list \<Rightarrow> TMatmulCodegen \<Rightarrow>
   (TMatmulCodegen, string) outcome" where
  "emit_unary order mk operands results cg =
     obind (nth_str operands 0) (\<lambda>a.
     let (src, cg) = ensure_in_register order a cg;
         cg = emit_pending_spills cg in
     obind (nth_str results 0) (\<lambda>r.
     let (dst, cg) = cg_allocate order r cg in
     Ok (add_instruction (mk dst src) (emit_pending_spills cg))))"

definition emit_load :: "map_order \<Rightarrow> string list \<Rightarrow> string list \<Rightarrow> TMatmulCodegen \<Rightarrow> (TMatmulCodegen, string) outcome" where
  "emit_load order operands results cg =
     (let cg = emit_pending_spills cg in
     obind (nth_str results 0) (\<lambda>r.
     let (dst, cg) = cg_allocate order r cg;
         cg = emit_pending_spills cg in
     obind (nth_str operands 0) (\<lambda>s.
     Ok (add_instruction (T_LoadVector dst (mem_location cg s)) cg))))"

definition emit_store :: "map_order \<Rightarrow> string list \<Rightarrow> TMatmulCodegen \<Rightarrow> (TMatmulCodegen, string) outcome" where
  "emit_store order operands cg =
     obind (nth_str operands 0) (\<lambda>a.
     let (src, cg) = ensure_in_register order a cg;
         cg = emit_pending_spills cg in
     obind (nth_str operands 1) (\<lambda>d.
     Ok (add_instruction (T_StoreVector src (mem_location cg d)) cg)))"

definition emit_import :: "map_order \<Rightarrow> string list \<Rightarrow> TMatmulCodegen \<Rightarrow> (TMatmulCodegen, string) outcome" where
  "emit_import order operands cg =
     obind (nth_str operands 0) (\<lambda>a.
     let (src, cg) = ensure_in_register order a cg in
     Ok (add_instruction (T_Import src) (emit_pending_spills cg)))"

definition emit_go :: "string list \<Rightarrow> TMatmulCodegen \<Rightarrow> (TMatmulCodegen, string) outcome" where
  "emit_go operands cg =
     obind (nth_str operands 0) (\<lambda>w. Ok (add_instruction (T_Go (mem_location cg w)) cg))"

definition emit_export :: "map_order \<Rightarrow> string list \<Rightarrow> TMatmulCodegen \<Rightarrow> (TMatmulCodegen, string) outcome" where
  "emit_export order results cg =
     (let cg = emit_pending_spills cg in
     obind (nth_str results 0) (\<lambda>r.
     let (dst, cg) = cg_allocate order r cg in
     Ok (add_instruction (T_Export dst) (emit_pending_spills cg))))"

definition emit_matmul :: "map_order \<Rightarrow> string list \<Rightarrow> string list \<Rightarrow> TMatmulCodegen \<Rightarrow> (TMatmulCodegen, string) outcome" where
  "emit_matmul order operands results cg =
     obind (nth_str operands 0) (\<lambda>a.
     let (input_reg, cg) = ensure_in_register order a cg;
         cg = emit_pending_spills cg in
     obind (nth_str operands 1) (\<lambda>w.
     let weights = mem_location cg w in
     obind (nth_str results 0) (\<lambda>r.
     let (output_reg, cg) = cg_allocate order r cg;
         cg = emit_pending_spills cg in
     Ok (add_instruction (T_Export output_reg)
          (add_instruction (T_Go weights) (add_instruction (T_Import input_reg) cg))))))"

definition emit_operation ::
  "map_order \<Rightarrow> string \<Rightarrow> string list \<Rightarrow> string list \<Rightarrow> TMatmulCodegen \<Rightarrow> (TMatmulCodegen, string) outcome" where
  "emit_operation order op operands results cg =
     (if op = ''tmatmul.ldv'' then emit_load order operands results cg
      else if op = ''tmatmul.sv'' then emit_store order operands cg
      else if op = ''tmatmul.add'' then emit_binary order T_Add operands results cg
      else if op = ''tmatmul.mul'' then emit_binary order T_Mul operands results cg
      else if op = ''tmatmul.sub'' then emit_binary order T_Sub operands results cg
      else if op = ''tmatmul.div'' then emit_binary order T_Div operands results cg
      else if op = ''tmatmul.sig'' then emit_unary order T_Sigmoid operands results cg
      else if op = ''tmatmul.csig'' then emit_unary order T_ComplementSigmoid operands results cg
      else if op = ''tmatmul.silu'' then emit_unary order T_SiLU operands results cg
      else if op = ''tmatmul.norm'' then emit_unary order T_Norm operands results cg
      else if op = ''tmatmul.tmatmul_import'' then emit_import order operands cg
      else if op = ''tmatmul.tmatmul_go'' then emit_go operands cg
      else if op = ''tmatmul.tmatmul_export'' then emit_export order results cg
      else if op = ''tmatmul.matmul'' then emit_matmul order operands results cg
      else Err (''Unknown operation: '' @ op))"

definition cg_add_comment :: "string \<Rightarrow> TMatmulCodegen \<Rightarrow> TMatmulCodegen" where
  "cg_add_comment comment cg = cg\<lparr>cg_program := add_comment comment (cg_program cg)\<rparr>"

definition add_section :: "string \<Rightarrow> TMatmulCodegen \<Rightarrow> TMatmulCodegen" where
  "add_section section_name cg = cg\<lparr>cg_program := add_section_separator section_name (cg_program cg)\<rparr>"

definition get_assembly :: "TMatmulCodegen \<Rightarrow> string" where
  "get_assembly cg = to_assembly (cg_program cg)"

end
