(* ===== verification/Tmatmul_Interp.thy ===== *)
theory Tmatmul_Interp
  imports Tmatmul_Asm Persistent_Queue
begin

text \<open>
  The interpreter of the accelerator's assembly (\<open>zluda/src/impl/tmatmul_interpreter.rs\<close>): the parser
  of the text, the resolution of kernel parameters through host memory, and the element loop with its
  optional RMS pass. Floating-point arithmetic is the argument \<open>fo\<close> (bit patterns to bit patterns),
  host memory a map from addresses to bytes, and the allocation table of \<open>memory.rs\<close> the argument of
  \<open>get_alloc_size\<close>.

  The lemmas show that a run writes nowhere but into tracked allocations.
\<close>

subsection \<open>Instructions\<close>

datatype MemRef = Param usize | Spill string | Const u32

datatype Instruction =
    I_LoadVector u8 MemRef
  | I_StoreVector u8 MemRef
  | I_Add u8 u8 u8
  | I_Sub u8 u8 u8
  | I_Mul u8 u8 u8
  | I_Div u8 u8 u8
  | I_Sigmoid u8 u8
  | I_ComplementSigmoid u8 u8
  | I_SiLU u8 u8
  | I_ReLU u8 u8
  | I_Norm u8 u8
  | I_Import u8
  | I_Go MemRef
  | I_Export u8
  | I_Nop

text \<open>Arithmetic: single precision, the double precision of the RMS pass, and \<open>str::parse::<f32>\<close>.\<close>

record interp_ops = f32_ops +
  f_ne :: "u32 \<Rightarrow> u32 \<Rightarrow> bool"
  f_parse :: "string \<Rightarrow> u32 option"
  d_of_f32 :: "u32 \<Rightarrow> u64"
  d_of_nat :: "nat \<Rightarrow> u64"
  d_add :: "u64 \<Rightarrow> u64 \<Rightarrow> u64"
  d_mul :: "u64 \<Rightarrow> u64 \<Rightarrow> u64"
  d_div :: "u64 \<Rightarrow> u64 \<Rightarrow> u64"
  d_sqrt :: "u64 \<Rightarrow> u64"
  d_epsilon :: u64
  f_of_d :: "u64 \<Rightarrow> u32"

subsection \<open>Parsing\<close>

definition parse_register :: "string \<Rightarrow> u8 option" where
  "parse_register s =
     (let s = trim s in
      if starts_with ''v'' s then outcome_ok (parse_u8 (drop 1 s)) else None)"

definition parse_u32_hex :: "string \<Rightarrow> (u32, int_error) outcome" where
  "parse_u32_hex s = obind (parse_int 16 0 (2 ^ 32 - 1) s) (\<lambda>n. Ok (of_int n))"

definition parse_const :: "interp_ops \<Rightarrow> string \<Rightarrow> u32" where
  "parse_const fo v =
     (if v = ''0'' \<or> v = ''0.0'' \<or> v = ''0f00000000'' then F32_ZERO
      else if v = ''1'' \<or> v = ''1.0'' \<or> v = ''0f3f800000'' then F32_ONE
      else case f_parse fo v of
             Some x \<Rightarrow> x
           | None \<Rightarrow>
               if starts_with ''0f'' v \<or> starts_with ''0F'' v then
                 (case parse_u32_hex (drop 2 v) of Ok bits \<Rightarrow> bits | _ \<Rightarrow> F32_ZERO)
               else F32_ZERO)"

definition parse_memref :: "interp_ops \<Rightarrow> string \<Rightarrow> MemRef" where
  "parse_memref fo s =
     (let s = trim s in
      case (if starts_with ''PARAM_'' s then outcome_ok (parse_usize (drop 6 s)) else None) of
        Some idx \<Rightarrow> Param idx
      | None \<Rightarrow>
          if starts_with ''SPILL_'' s then Spill s
          else if starts_with ''CONST_'' s then Const (parse_const fo (drop 6 s))
          else case parse_usize s of Ok idx \<Rightarrow> Param idx | _ \<Rightarrow> Spill s)"

definition reg3 :: "(u8 \<Rightarrow> u8 \<Rightarrow> u8 \<Rightarrow> Instruction) \<Rightarrow> string list \<Rightarrow> Instruction option" where
  "reg3 mk operands =
     (if length operands \<ge> 3 then
        Option.bind (parse_register (operands ! 0)) (\<lambda>d.
        Option.bind (parse_register (operands ! 1)) (\<lambda>a.
        Option.bind (parse_register (operands ! 2)) (\<lambda>b. Some (mk d a b))))
      else None)"

definition reg2 :: "(u8 \<Rightarrow> u8 \<Rightarrow> Instruction) \<Rightarrow> string list \<Rightarrow> Instruction option" where
  "reg2 mk operands =
     (if length operands \<ge> 2 then
        Option.bind (parse_register (operands ! 0)) (\<lambda>d.
        Option.bind (parse_register (operands ! 1)) (\<lambda>a. Some (mk d a)))
      else None)"

definition reg_mem :: "interp_ops \<Rightarrow> (u8 \<Rightarrow> MemRef \<Rightarrow> Instruction) \<Rightarrow> string list \<Rightarrow> Instruction option" where
  "reg_mem fo mk operands =
     (if length operands \<ge> 2 then
        Option.bind (parse_register (operands ! 0)) (\<lambda>d. Some (mk d (parse_memref fo (operands ! 1))))
      else None)"

definition reg1 :: "(u8 \<Rightarrow> Instruction) \<Rightarrow> string list \<Rightarrow> Instruction option" where
  "reg1 mk operands =
     (if length operands \<ge> 1 then Option.bind (parse_register (operands ! 0)) (\<lambda>d. Some (mk d)) else None)"

definition parse_opcode :: "interp_ops \<Rightarrow> string \<Rightarrow> string list \<Rightarrow> Instruction option" where
  "parse_opcode fo op operands =
     (if op = ''ldv'' then reg_mem fo I_LoadVector operands
      else if op = ''sv'' then reg_mem fo I_StoreVector operands
      else if op = ''add'' then reg3 I_Add operands
      else if op = ''sub'' then reg3 I_Sub operands
      else if op = ''mul'' then reg3 I_Mul operands
      else if op = ''div'' then reg3 I_Div operands
      else if op = ''sig'' then reg2 I_Sigmoid operands
      else if op = ''csig'' then reg2 I_ComplementSigmoid operands
      else if op = ''silu'' then reg2 I_SiLU operands
      else if op = ''relu'' then reg2 I_ReLU operands
      else if op = ''norm'' then reg2 I_Norm operands
      else if op = ''tmatmul_import'' then reg1 I_Import operands
      else if op = ''tmatmul_go'' then
        (if length operands \<ge> 1 then Some (I_Go (parse_memref fo (operands ! 0))) else None)
      else if op = ''tmatmul_export'' then reg1 I_Export operands
      else None)"

definition parse_line :: "interp_ops \<Rightarrow> string \<Rightarrow> Instruction option" where
  "parse_line fo line =
     (let trimmed = trim line in
      if trimmed = [] \<or> starts_with '';'' trimmed then None
      else if ends_with '':'' trimmed then None
      else
        (let (op, operands_str) =
               (case split_once_char is_ws trimmed of Some (a, b) \<Rightarrow> (trim a, trim b) | None \<Rightarrow> (trim trimmed, []));
             operands = (if operands_str = [] then [] else map trim (split_char (CHR '','') operands_str)) in
         parse_opcode fo op operands))"

definition parse_assembly :: "interp_ops \<Rightarrow> string \<Rightarrow> Instruction list" where
  "parse_assembly fo asm = List.map_filter (parse_line fo) (str_lines asm)"

definition bind_line :: "string \<Rightarrow> (usize \<times> string) option" where
  "bind_line line =
     (let trimmed = trim line in
      if starts_with ''; BIND PARAM_'' trimmed then
        (case split_once '' '' (drop (length ''; BIND PARAM_'') trimmed) of
           Some (n, name) \<Rightarrow> (case parse_usize n of Ok idx \<Rightarrow> Some (idx, name) | _ \<Rightarrow> None)
         | None \<Rightarrow> None)
      else None)"

definition extract_bindings :: "string \<Rightarrow> (usize \<rightharpoonup> string)" where
  "extract_bindings asm =
     foldl (\<lambda>m line. case bind_line line of Some (idx, name) \<Rightarrow> m(idx \<mapsto> name) | None \<Rightarrow> m) Map.empty (str_lines asm)"

fun is_norm :: "Instruction \<Rightarrow> bool" where
  "is_norm (I_Norm _ _) = True"
| "is_norm _ = False"

definition has_norm :: "Instruction list \<Rightarrow> bool" where
  "has_norm instructions = list_ex is_norm instructions"

fun inst_memref :: "Instruction \<Rightarrow> MemRef option" where
  "inst_memref (I_LoadVector _ mem) = Some mem"
| "inst_memref (I_StoreVector _ mem) = Some mem"
| "inst_memref (I_Go weights) = Some weights"
| "inst_memref _ = None"

definition count_step :: "bool \<times> usize \<Rightarrow> Instruction \<Rightarrow> bool \<times> usize" where
  "count_step acc inst =
     (case inst_memref inst of
        Some (Param idx) \<Rightarrow> (True, if idx \<ge> snd acc then (idx + 1) mod 2 ^ 64 else snd acc)
      | _ \<Rightarrow> acc)"

definition count_param_refs :: "Instruction list \<Rightarrow> usize" where
  "count_param_refs instructions =
     (let (found_any, max_param) = foldl count_step (False, 0) instructions in if found_any then max_param else 0)"

subsection \<open>Execution\<close>

record machine =
  registers :: "u32 list"
  spill_memory :: "string \<rightharpoonup> u32"
  host_mem :: devmem

definition get_reg :: "machine \<Rightarrow> u8 \<Rightarrow> (u32, string) outcome" where
  "get_reg s r = (if unat r < length (registers s) then Ok (registers s ! unat r) else Panic)"

definition set_reg :: "machine \<Rightarrow> u8 \<Rightarrow> u32 \<Rightarrow> (machine, string) outcome" where
  "set_reg s r v = (if unat r < length (registers s) then Ok (s\<lparr>registers := (registers s)[unat r := v]\<rparr>) else Panic)"

definition param_cell :: "u64 list \<Rightarrow> usize list \<Rightarrow> usize \<Rightarrow> usize \<Rightarrow> u64 option" where
  "param_cell param_ptrs param_sizes idx byte_offset =
     (if idx \<ge> length param_ptrs then None
      else if param_ptrs ! idx = 0 then None
      else if byte_offset + 4 > param_sizes ! idx then None
      else Some (param_ptrs ! idx + of_nat byte_offset))"

definition read_memory :: "machine \<Rightarrow> u64 list \<Rightarrow> usize list \<Rightarrow> usize \<Rightarrow> MemRef \<Rightarrow> u32" where
  "read_memory s param_ptrs param_sizes byte_offset mem =
     (case mem of
        Param idx \<Rightarrow>
          (case param_cell param_ptrs param_sizes idx byte_offset of
             None \<Rightarrow> F32_ZERO
           | Some addr \<Rightarrow> from_le (load_bytes (host_mem s) addr 4))
      | Spill name \<Rightarrow> (case spill_memory s name of None \<Rightarrow> F32_ZERO | Some v \<Rightarrow> v)
      | Const v \<Rightarrow> v)"

definition write_memory :: "u64 list \<Rightarrow> usize list \<Rightarrow> usize \<Rightarrow> MemRef \<Rightarrow> u32 \<Rightarrow> machine \<Rightarrow> machine" where
  "write_memory param_ptrs param_sizes byte_offset mem v s =
     (case mem of
        Param idx \<Rightarrow>
          (case param_cell param_ptrs param_sizes idx byte_offset of
             None \<Rightarrow> s
           | Some addr \<Rightarrow> s\<lparr>host_mem := store_bytes addr (le_u32 v) (host_mem s)\<rparr>)
      | Spill name \<Rightarrow> s\<lparr>spill_memory := (spill_memory s)(name \<mapsto> v)\<rparr>
      | Const _ \<Rightarrow> s)"

definition f_sigmoid :: "interp_ops \<Rightarrow> u32 \<Rightarrow> u32" where
  "f_sigmoid fo x = f_div fo F32_ONE (f_add fo F32_ONE (f_exp fo (f_neg fo x)))"

definition f_safe_div :: "interp_ops \<Rightarrow> u32 \<Rightarrow> u32 \<Rightarrow> u32" where
  "f_safe_div fo x divisor = (if f_ne fo divisor F32_ZERO then f_div fo x divisor else F32_ZERO)"

definition f_relu :: "interp_ops \<Rightarrow> u32 \<Rightarrow> u32" where
  "f_relu fo x = (if f_gt fo x F32_ZERO then x else F32_ZERO)"

definition f_normalise :: "interp_ops \<Rightarrow> u32 \<Rightarrow> u32 \<Rightarrow> u32" where
  "f_normalise fo rms_value x = (if f_ne fo rms_value F32_ZERO then f_div fo x rms_value else x)"

definition alu2 :: "(u32 \<Rightarrow> u32 \<Rightarrow> u32) \<Rightarrow> u8 \<Rightarrow> u8 \<Rightarrow> u8 \<Rightarrow> machine \<Rightarrow> (machine, string) outcome" where
  "alu2 f d a b s = obind (get_reg s a) (\<lambda>x. obind (get_reg s b) (\<lambda>y. set_reg s d (f x y)))"

definition alu1 :: "(u32 \<Rightarrow> u32) \<Rightarrow> u8 \<Rightarrow> u8 \<Rightarrow> machine \<Rightarrow> (machine, string) outcome" where
  "alu1 f d a s = obind (get_reg s a) (\<lambda>x. set_reg s d (f x))"

fun execute_instruction ::
  "interp_ops \<Rightarrow> u64 list \<Rightarrow> usize list \<Rightarrow> usize \<Rightarrow> u32 \<Rightarrow> Instruction \<Rightarrow> machine \<Rightarrow> (machine, string) outcome" where
  "execute_instruction fo pp ps off rms (I_LoadVector d mem) s = set_reg s d (read_memory s pp ps off mem)"
| "execute_instruction fo pp ps off rms (I_StoreVector r mem) s =
     obind (get_reg s r) (\<lambda>v. Ok (write_memory pp ps off mem v s))"
| "execute_instruction fo pp ps off rms (I_Add d a b) s = alu2 (f_add fo) d a b s"
| "execute_instruction fo pp ps off rms (I_Sub d a b) s = alu2 (f_sub fo) d a b s"
| "execute_instruction fo pp ps off rms (I_Mul d a b) s = alu2 (f_mul fo) d a b s"
| "execute_instruction fo pp ps off rms (I_Div d a b) s = alu2 (f_safe_div fo) d a b s"
| "execute_instruction fo pp ps off rms (I_Sigmoid d a) s = alu1 (f_sigmoid fo) d a s"
| "execute_instruction fo pp ps off rms (I_ComplementSigmoid d a) s =
     alu1 (\<lambda>x. f_sub fo F32_ONE (f_sigmoid fo x)) d a s"
| "execute_instruction fo pp ps off rms (I_SiLU d a) s = alu1 (\<lambda>x. f_mul fo x (f_sigmoid fo x)) d a s"
| "execute_instruction fo pp ps off rms (I_ReLU d a) s = alu1 (f_relu fo) d a s"
| "execute_instruction fo pp ps off rms (I_Norm d a) s = alu1 (f_normalise fo rms) d a s"
| "execute_instruction fo pp ps off rms (I_Import _) s = Ok s"
| "execute_instruction fo pp ps off rms (I_Go _) s = Ok s"
| "execute_instruction fo pp ps off rms (I_Export _) s = Ok s"
| "execute_instruction fo pp ps off rms I_Nop s = Ok s"

fun run_instructions ::
  "interp_ops \<Rightarrow> u64 list \<Rightarrow> usize list \<Rightarrow> usize \<Rightarrow> u32 \<Rightarrow> Instruction list \<Rightarrow> machine \<Rightarrow> (machine, string) outcome" where
  "run_instructions fo pp ps off rms [] s = Ok s"
| "run_instructions fo pp ps off rms (i # is) s =
     obind (execute_instruction fo pp ps off rms i s) (run_instructions fo pp ps off rms is)"

fun run_elements ::
  "interp_ops \<Rightarrow> u64 list \<Rightarrow> usize list \<Rightarrow> u32 \<Rightarrow> Instruction list \<Rightarrow> usize list \<Rightarrow> machine \<Rightarrow> (machine, string) outcome" where
  "run_elements fo pp ps rms is [] s = Ok s"
| "run_elements fo pp ps rms is (elem # elems) s =
     obind (run_instructions fo pp ps (elem * 4) rms is s) (run_elements fo pp ps rms is elems)"

definition initial_machine :: "devmem \<Rightarrow> machine" where
  "initial_machine m = \<lparr>registers = replicate 8 F32_ZERO, spill_memory = Map.empty, host_mem = m\<rparr>"

definition execute_single_pass ::
  "interp_ops \<Rightarrow> Instruction list \<Rightarrow> u64 list \<Rightarrow> usize list \<Rightarrow> usize \<Rightarrow> devmem \<Rightarrow> (devmem, string) outcome" where
  "execute_single_pass fo is pp ps num_elements m =
     obind (run_elements fo pp ps F32_ZERO is [0..<num_elements] (initial_machine m)) (\<lambda>s. Ok (host_mem s))"

definition trace_norm ::
  "(usize option list \<times> usize option) \<Rightarrow> Instruction \<Rightarrow> (usize option list \<times> usize option, string) outcome" where
  "trace_norm acc inst =
     (let (reg_source, norm_src_param) = acc in
      case inst of
        I_LoadVector d (Param idx) \<Rightarrow>
          (if unat d < length reg_source then Ok (reg_source[unat d := Some idx], norm_src_param) else Panic)
      | I_Norm d src \<Rightarrow>
          (if unat src < length reg_source then Ok (reg_source, reg_source ! unat src) else Panic)
      | _ \<Rightarrow> Ok acc)"

fun trace_norms ::
  "(usize option list \<times> usize option) \<Rightarrow> Instruction list \<Rightarrow> (usize option list \<times> usize option, string) outcome" where
  "trace_norms acc [] = Ok acc"
| "trace_norms acc (i # is) = obind (trace_norm acc i) (\<lambda>acc. trace_norms acc is)"

definition rms_of :: "interp_ops \<Rightarrow> u32 list \<Rightarrow> u32" where
  "rms_of fo vals =
     (let sum_sq = foldl (\<lambda>acc v. d_add fo acc (d_mul fo (d_of_f32 fo v) (d_of_f32 fo v))) (d_of_nat fo 0) vals;
          mean_sq = d_div fo sum_sq (d_of_nat fo (length vals)) in
      f_of_d fo (d_sqrt fo (d_add fo mean_sq (d_epsilon fo))))"

definition norm_rms ::
  "interp_ops \<Rightarrow> usize option \<Rightarrow> u64 list \<Rightarrow> usize list \<Rightarrow> usize \<Rightarrow> devmem \<Rightarrow> (u32, string) outcome" where
  "norm_rms fo norm_src_param pp ps num_elements m =
     (case norm_src_param of
        None \<Rightarrow> Ok F32_ONE
      | Some param_idx \<Rightarrow>
          if param_idx \<ge> length pp then Panic
          else if pp ! param_idx = 0 then Err (''Norm source PARAM_'' @ show_nat param_idx @ '' is null'')
          else
            (let count = min num_elements (ps ! param_idx div 4) in
             Ok (rms_of fo (map (\<lambda>k. from_le (load_bytes m (pp ! param_idx + of_nat (4 * k)) 4)) [0..<count]))))"

definition execute_two_pass ::
  "interp_ops \<Rightarrow> Instruction list \<Rightarrow> u64 list \<Rightarrow> usize list \<Rightarrow> usize \<Rightarrow> devmem \<Rightarrow> (devmem, string) outcome" where
  "execute_two_pass fo is pp ps num_elements m =
     obind (trace_norms (replicate 8 None, None) is) (\<lambda>(_, norm_src_param).
     obind (norm_rms fo norm_src_param pp ps num_elements m) (\<lambda>rms_value.
     obind (run_elements fo pp ps rms_value is [0..<num_elements] (initial_machine m)) (\<lambda>s. Ok (host_mem s))))"

subsection \<open>Kernel parameters\<close>

text \<open>\<open>memory::get_alloc_size\<close>: the table is \<open>None\<close> when its lock is poisoned.\<close>

definition get_alloc_size :: "(usize \<times> usize) list option \<Rightarrow> usize \<Rightarrow> usize option" where
  "get_alloc_size allocs addr =
     (case allocs of
        None \<Rightarrow> None
      | Some table \<Rightarrow>
          (case map_of table addr of
             Some n \<Rightarrow> Some n
           | None \<Rightarrow>
               map_option (\<lambda>(base, n). n - (addr - base))
                 (List.find (\<lambda>(base, n). addr \<ge> base \<and> addr < (base + n) mod 2 ^ 64) table)))"

definition user_address :: "u64 \<Rightarrow> bool" where
  "user_address a \<longleftrightarrow> \<not> (a < 0x1000 \<or> a > 0x7FFFFFFFFFFF)"

definition resolve_param :: "(usize \<times> usize) list option \<Rightarrow> devmem \<Rightarrow> u64 \<Rightarrow> usize \<Rightarrow> u64 \<times> usize" where
  "resolve_param allocs m kernel_params i =
     (let param_slot = kernel_params + of_nat (8 * i) in
      if \<not> user_address param_slot then (0, 0)
      else
        (let param_addr = from_le (load_bytes m param_slot 8) in
         if param_addr = 0 then (0, 0)
         else if \<not> user_address param_addr then (0, 0)
         else
           (let ptr_value = from_le (load_bytes m param_addr 8) in
            case get_alloc_size allocs (unat ptr_value) of
              Some n \<Rightarrow> (ptr_value, n)
            | None \<Rightarrow> (0, 0))))"

definition total_elements :: "u32 \<times> u32 \<times> u32 \<Rightarrow> u32 \<times> u32 \<times> u32 \<Rightarrow> u64" where
  "total_elements grid block =
     (let (gx, gy, gz) = grid; (bx, by', bz) = block in
      ucast gx * ucast bx * max (ucast gy) 1 * max (ucast by') 1 * max (ucast gz) 1 * max (ucast bz) 1)"

definition execute_assembly ::
  "interp_ops \<Rightarrow> (usize \<times> usize) list option \<Rightarrow> string \<Rightarrow> u64 \<Rightarrow> u32 \<times> u32 \<times> u32 \<Rightarrow> u32 \<times> u32 \<times> u32 \<Rightarrow> devmem \<Rightarrow>
   (devmem, string) outcome" where
  "execute_assembly fo allocs asm kernel_params grid block m =
     (let instructions = parse_assembly fo asm in
      if instructions = [] then Err ''No executable instructions found''
      else
        (let total = total_elements grid block in
         if total = 0 then Ok m
         else
           (let num_params_needed = count_param_refs instructions in
            if num_params_needed = 0 then Err ''No PARAM references found in assembly''
            else if kernel_params = 0 then Err ''kernel_params is null''
            else
              (let params = map (resolve_param allocs m kernel_params) [0..<num_params_needed];
                   pp = map fst params; ps = map snd params in
               if filter (\<lambda>p. p \<noteq> 0) pp = [] then
                 Err (''No valid pointer params found (needed '' @ show_nat num_params_needed @ '', all null/scalar)'')
               else
                 (let sizes = map (\<lambda>n. n div 4) (filter (\<lambda>n. n > 0) ps);
                      min_alloc = (if sizes = [] then unat total else foldl min (hd sizes) (tl sizes));
                      actual = min (unat total) min_alloc in
                  if actual = 0 then Err ''Computed 0 elements to process''
                  else
                    (let actual = min actual (64 * 1024 * 1024) in
                     if has_norm instructions then execute_two_pass fo instructions pp ps actual m
                     else execute_single_pass fo instructions pp ps actual m))))))"

subsection \<open>Execution writes only into tracked allocations\<close>

definition in_params :: "u64 list \<Rightarrow> usize list \<Rightarrow> u64 \<Rightarrow> bool" where
  "in_params pp ps a \<longleftrightarrow> (\<exists>i < length pp. pp ! i \<noteq> 0 \<and> (\<exists>k < ps ! i. a = pp ! i + of_nat k))"

lemma store_bytes_frame: "(\<And>k. k < length bs \<Longrightarrow> a \<noteq> p + of_nat k) \<Longrightarrow> store_bytes p bs m a = m a"
proof (induction bs arbitrary: p m)
  case (Cons b bs)
  have "a \<noteq> p + 1 + of_nat k" if "k < length bs" for k
    using Cons.prems [of "Suc k"] that by (simp add: add.assoc)
  then show ?case using Cons.IH [of "p + 1" "m(p := b)"] Cons.prems [of 0] by (simp add: fun_upd_def)
qed simp

lemma write_memory_frame:
  assumes "\<not> in_params pp ps a"
  shows "host_mem (write_memory pp ps off mem v s) a = host_mem s a"
proof (cases mem)
  case (Param idx)
  show ?thesis
  proof (cases "param_cell pp ps idx off")
    case None
    then show ?thesis by (simp add: write_memory_def Param)
  next
    case (Some addr)
    then have c: "idx < length pp" "pp ! idx \<noteq> 0" "off + 4 \<le> ps ! idx" "addr = pp ! idx + of_nat off"
      by (auto simp: param_cell_def split: if_splits)
    have "a \<noteq> addr + of_nat k" if "k < 4" for k
    proof
      assume "a = addr + of_nat k"
      then have "a = pp ! idx + of_nat (off + k)" by (simp add: c(4) add.assoc)
      moreover have "off + k < ps ! idx" using that c(3) by simp
      ultimately show False using assms c(1,2) unfolding in_params_def by blast
    qed
    then show ?thesis
      by (simp add: write_memory_def Param Some) (rule store_bytes_frame, simp)
  qed
qed (simp_all add: write_memory_def)

lemma set_reg_mem: "set_reg s r v = Ok s' \<Longrightarrow> host_mem s' = host_mem s"
  by (auto simp: set_reg_def split: if_splits)

lemma execute_frame:
  "\<not> in_params pp ps a \<Longrightarrow> execute_instruction fo pp ps off rms i s = Ok s' \<Longrightarrow> host_mem s' a = host_mem s a"
  by (cases i) (auto simp: alu2_def alu1_def dest!: set_reg_mem intro: write_memory_frame)

lemma run_instructions_frame:
  "\<not> in_params pp ps a \<Longrightarrow> run_instructions fo pp ps off rms is s = Ok s' \<Longrightarrow> host_mem s' a = host_mem s a"
  by (induction "is" arbitrary: s) (auto dest!: execute_frame)

lemma elements_frame:
  "\<not> in_params pp ps a \<Longrightarrow> run_elements fo pp ps rms is es s = Ok s' \<Longrightarrow> host_mem s' a = host_mem s a"
  by (induction es arbitrary: s) (auto dest!: run_instructions_frame)

lemma resolve_param_tracked:
  "resolve_param allocs m kp i = (p, n) \<Longrightarrow> p = 0 \<or> get_alloc_size allocs (unat p) = Some n"
  by (auto simp: resolve_param_def Let_def split: if_splits option.splits)


text \<open>A concrete arithmetic, on the bit patterns, and a parameter block with one pointer.\<close>

definition word_floats :: interp_ops where
  "word_floats = \<lparr>f_add = (+), f_sub = (-), f_mul = (*), f_div = (\<lambda>x y. x div y), f_neg = uminus, f_exp = (\<lambda>x. x + 1),
     f_gt = (\<lambda>x y. y < x), f_ne = (\<noteq>), f_parse = (\<lambda>_. None), d_of_f32 = ucast, d_of_nat = of_nat, d_add = (+),
     d_mul = (*), d_div = (\<lambda>x y. x div y), d_sqrt = id, d_epsilon = 1, f_of_d = ucast\<rparr>"

definition example_mem :: devmem where
  "example_mem = (\<lambda>a. if a = 0x1000 then 8 else if a = 0x1001 then 0x10 else if a = 0x1008 then 16 else if a = 16 then 5 else 0)"

abbreviation example_asm :: string where
  "example_asm \<equiv> ''ldv v0,PARAM_0'' @ [CHR 0x0A] @ ''add v0,v0,v0'' @ [CHR 0x0A] @ ''sv v0,PARAM_0''"


end
