(* ===== verification/Tmatmul_Correct.thy ===== *)
theory Tmatmul_Correct
  imports Tmatmul_Interp
begin

text \<open>
  The generator and the interpreter of the accelerator's assembly together. The interpreter reads back
  exactly what the generator prints; without spilling, the allocator's state is determined by the
  list of SSA values seen (\<open>ra_state\<close>), and the code generated for a list of scalar operations
  simulates their meaning (\<open>ref_op\<close>) step by step; with spilling it does not.
\<close>

subsection \<open>Text and instructions\<close>

definition word_text :: "string \<Rightarrow> bool" where
  "word_text s \<longleftrightarrow> s \<noteq> [] \<and> list_all (\<lambda>c. \<not> is_ws c \<and> c \<noteq> CHR '','') s \<and> last s \<noteq> CHR '':''"

lemma split_char_join:
  "list_all (\<lambda>s. d \<notin> set s) ss \<Longrightarrow> ss \<noteq> [] \<Longrightarrow> split_char d (join_with [d] ss) = ss"
proof (induction ss)
  case (Cons s ss)
  have base: "d \<notin> set s \<Longrightarrow> split_char d s = [s]" for s by (induction s) auto
  show ?case
  proof (cases ss)
    case Nil
    with Cons base show ?thesis by simp
  next
    case (Cons a as)
    with Cons.IH Cons.prems show ?thesis using split_char_append [of d s "join_with [d] ss"] by simp
  qed
qed simp

lemma word_text_facts:
  assumes "word_text s"
  shows "s \<noteq> []" "\<not> is_ws (hd s)" "\<not> is_ws (last s)" "trim s = s" "CHR '','' \<notin> set s" "last s \<noteq> CHR '':''"
    "c \<in> set s \<Longrightarrow> \<not> is_ws c"
proof -
  show n: "s \<noteq> []" and "CHR '','' \<notin> set s" "last s \<noteq> CHR '':''" and w: "c \<in> set s \<Longrightarrow> \<not> is_ws c" for c
    using assms by (auto simp: word_text_def list_all_iff)
  then show "\<not> is_ws (hd s)" "\<not> is_ws (last s)" by simp_all
  then show "trim s = s" using n by (simp add: trim_id)
qed

lemma join_last: "ss \<noteq> [] \<Longrightarrow> last ss \<noteq> [] \<Longrightarrow> join_with sep ss \<noteq> [] \<and> last (join_with sep ss) = last (last ss)"
  by (induction ss) (auto simp: last_append)

lemma join_hd: "ss \<noteq> [] \<Longrightarrow> hd ss \<noteq> [] \<Longrightarrow> hd (join_with sep ss) = hd (hd ss)"
  by (cases ss; cases "tl ss") auto

lemma trim_spaces: "t \<noteq> [] \<Longrightarrow> \<not> is_ws (hd t) \<Longrightarrow> \<not> is_ws (last t) \<Longrightarrow> trim (replicate n (CHR '' '') @ t) = t"
proof -
  assume t: "t \<noteq> []" "\<not> is_ws (hd t)" "\<not> is_ws (last t)"
  have "is_ws (CHR '' '')" by code_simp
  then have "trim_start (replicate n (CHR '' '') @ t) = t"
    using t by (induction n) (auto simp: trim_start_def trim_start_id [unfolded trim_start_def])
  then show ?thesis using t by (simp add: trim_def trim_end_id)
qed

lemma ends_with_char: "ends_with [c] t \<longleftrightarrow> t \<noteq> [] \<and> last t = c"
  by (cases t rule: rev_cases) (auto simp: ends_with_def starts_with_def)

lemma four_spaces: "''    '' @ t = replicate 4 (CHR '' '') @ t"
  by (simp add: eval_nat_numeral)

lemma parse_line_word:
  assumes op: "word_text op" "hd op \<noteq> CHR '';''" and ops: "list_all word_text ops" "ops \<noteq> []"
  shows "parse_line fo (''    '' @ op @ ''    '' @ join_with '','' ops) = parse_opcode fo op ops"
proof -
  let ?j = "join_with '','' ops"
  let ?t = "op @ ''    '' @ ?j"
  note o = word_text_facts [OF op(1)]
  have h: "word_text (hd ops)" "word_text (last ops)" using ops by (auto simp: list_all_iff)
  have j: "?j \<noteq> []" "last ?j = last (last ops)" "hd ?j = hd (hd ops)"
    using join_last [of ops "'',''"] join_hd [of ops "'',''"] ops(2) word_text_facts(1) [OF h(1)] word_text_facts(1) [OF h(2)] by auto
  have tr: "trim (''    '' @ ?t) = ?t"
    unfolding four_spaces [of ?t] by (rule trim_spaces) (use o j word_text_facts [OF h(2)] in \<open>auto simp: hd_append last_append\<close>)
  have trj: "trim ('' '' @ '' '' @ '' '' @ ?j) = ?j"
    using trim_spaces [of ?j 3] j word_text_facts [OF h(1)] word_text_facts [OF h(2)] by (simp add: eval_nat_numeral)
  have sp: "split_once_char is_ws ?t = Some (op, ''   '' @ ?j)"
  proof -
    have "is_ws (CHR '' '')" by code_simp
    then have "find_char is_ws ?t = Some (length op)"
      using find_char_skip [of op is_ws "''    '' @ ?j"] o(7) by simp
    then show ?thesis by (simp add: split_once_char_def)
  qed
  have "list_all (\<lambda>s. CHR '','' \<notin> set s) ops" using ops(1) word_text_facts(5) by (auto simp: list_all_iff)
  then have "split_char (CHR '','') ?j = ops" using split_char_join ops(2) by blast
  moreover have "map trim ops = ops" using ops(1) word_text_facts(4) by (auto simp: list_all_iff map_idI)
  moreover have "\<not> starts_with '';'' ?t" using op(2) o(1) by (cases op) (auto simp: starts_with_def)
  moreover have "\<not> ends_with '':'' ?t"
    using j word_text_facts(6) [OF h(2)] by (simp add: ends_with_char)
  ultimately show ?thesis
    unfolding parse_line_def tr using o(1,4) sp trj j(1) by (simp add: Let_def)
qed

lemma parse_register_name: "i < 256 \<Longrightarrow> parse_register (reg_name i) = Some (of_nat i)"
proof -
  assume i: "i < 256"
  have "plain_name": "trim (reg_name i) = reg_name i"
  proof (rule trim_id)
    show "reg_name i \<noteq> []" "\<not> is_ws (hd (reg_name i))" by (simp_all add: reg_name_def is_ws_def)
    obtain d where "d < 10" "last (show_nat i) = digit_char d"
      using show_nat_digits [of "last (show_nat i)" i] by auto
    then show "\<not> is_ws (last (reg_name i))"
      by (simp add: reg_name_def is_ws_def of_char_digit_char)
  qed
  show ?thesis
    using i by (simp add: parse_register_def plain_name Let_def) (simp add: reg_name_def starts_with_def parse_u8_show outcome_ok_def)
qed

lemma word_text_reg_name [simp]: "word_text (reg_name i)"
proof -
  have d: "\<not> is_ws c \<and> c \<noteq> CHR '','' \<and> c \<noteq> CHR '':''" if "c \<in> set (show_nat i)" for c
  proof -
    obtain d where "d < 10" "c = digit_char d" using show_nat_digits [OF \<open>c \<in> set (show_nat i)\<close>] by blast
    then have "of_char c = 48 + d" by (simp add: of_char_digit_char)
    with \<open>d < 10\<close> show ?thesis by (auto simp: is_ws_def)
  qed
  have "last (show_nat i) \<in> set (show_nat i)" by simp
  from d [OF this] have "last (reg_name i) \<noteq> CHR '':''" by (simp add: reg_name_def)
  moreover have "list_all (\<lambda>c. \<not> is_ws c \<and> c \<noteq> CHR '','') (reg_name i)"
    using d by (auto simp: reg_name_def list_all_iff is_ws_def)
  ultimately show ?thesis by (simp add: word_text_def reg_name_def)
qed

definition reg_num :: "string \<Rightarrow> u8" where
  "reg_num r = (case parse_register r of Some n \<Rightarrow> n | None \<Rightarrow> 0)"

lemma reg_num_name [simp]: "i < 256 \<Longrightarrow> reg_num (reg_name i) = of_nat i"
  by (simp add: reg_num_def parse_register_name)

definition reg_ok :: "string \<Rightarrow> bool" where
  "reg_ok r \<longleftrightarrow> (\<exists>i < 256. r = reg_name i)"

lemma reg_ok_facts: "reg_ok r \<Longrightarrow> word_text r" "reg_ok r \<Longrightarrow> parse_register r = Some (reg_num r)"
  by (auto simp: reg_ok_def parse_register_name)

text \<open>The instruction that a generated instruction stands for; comments and labels stand for none.\<close>

fun translate :: "interp_ops \<Rightarrow> TMatmulInstruction \<Rightarrow> Instruction option" where
  "translate fo (T_LoadVector d l) = Some (I_LoadVector (reg_num d) (parse_memref fo (location_text l)))"
| "translate fo (T_StoreVector s l) = Some (I_StoreVector (reg_num s) (parse_memref fo (location_text l)))"
| "translate fo (T_Add d a b) = Some (I_Add (reg_num d) (reg_num a) (reg_num b))"
| "translate fo (T_Sub d a b) = Some (I_Sub (reg_num d) (reg_num a) (reg_num b))"
| "translate fo (T_Mul d a b) = Some (I_Mul (reg_num d) (reg_num a) (reg_num b))"
| "translate fo (T_Div d a b) = Some (I_Div (reg_num d) (reg_num a) (reg_num b))"
| "translate fo (T_Sigmoid d a) = Some (I_Sigmoid (reg_num d) (reg_num a))"
| "translate fo (T_ComplementSigmoid d a) = Some (I_ComplementSigmoid (reg_num d) (reg_num a))"
| "translate fo (T_SiLU d a) = Some (I_SiLU (reg_num d) (reg_num a))"
| "translate fo (T_Norm d a) = Some (I_Norm (reg_num d) (reg_num a))"
| "translate fo (T_Import s) = Some (I_Import (reg_num s))"
| "translate fo (T_Go l) = Some (I_Go (parse_memref fo (location_text l)))"
| "translate fo (T_Export d) = Some (I_Export (reg_num d))"
| "translate fo (T_Comment c) = None"
| "translate fo (T_Label l) = None"

definition line_text :: "string \<Rightarrow> bool" where
  "line_text s \<longleftrightarrow> CHR 0x0A \<notin> set s \<and> (s = [] \<or> last s \<noteq> CHR 0x0D)"

fun inst_ok :: "TMatmulInstruction \<Rightarrow> bool" where
  "inst_ok (T_LoadVector d l) = (reg_ok d \<and> word_text (location_text l))"
| "inst_ok (T_StoreVector s l) = (reg_ok s \<and> word_text (location_text l))"
| "inst_ok (T_Add d a b) = (reg_ok d \<and> reg_ok a \<and> reg_ok b)"
| "inst_ok (T_Sub d a b) = (reg_ok d \<and> reg_ok a \<and> reg_ok b)"
| "inst_ok (T_Mul d a b) = (reg_ok d \<and> reg_ok a \<and> reg_ok b)"
| "inst_ok (T_Div d a b) = (reg_ok d \<and> reg_ok a \<and> reg_ok b)"
| "inst_ok (T_Sigmoid d a) = (reg_ok d \<and> reg_ok a)"
| "inst_ok (T_ComplementSigmoid d a) = (reg_ok d \<and> reg_ok a)"
| "inst_ok (T_SiLU d a) = (reg_ok d \<and> reg_ok a)"
| "inst_ok (T_Norm d a) = (reg_ok d \<and> reg_ok a)"
| "inst_ok (T_Import s) = reg_ok s"
| "inst_ok (T_Go l) = word_text (location_text l)"
| "inst_ok (T_Export d) = reg_ok d"
| "inst_ok (T_Comment c) = line_text c"
| "inst_ok (T_Label l) = line_text l"

fun inst_parts :: "TMatmulInstruction \<Rightarrow> (string \<times> string list) option" where
  "inst_parts (T_LoadVector d l) = Some (''ldv'', [d, location_text l])"
| "inst_parts (T_StoreVector s l) = Some (''sv'', [s, location_text l])"
| "inst_parts (T_Add d a b) = Some (''add'', [d, a, b])"
| "inst_parts (T_Sub d a b) = Some (''sub'', [d, a, b])"
| "inst_parts (T_Mul d a b) = Some (''mul'', [d, a, b])"
| "inst_parts (T_Div d a b) = Some (''div'', [d, a, b])"
| "inst_parts (T_Sigmoid d a) = Some (''sig'', [d, a])"
| "inst_parts (T_ComplementSigmoid d a) = Some (''csig'', [d, a])"
| "inst_parts (T_SiLU d a) = Some (''silu'', [d, a])"
| "inst_parts (T_Norm d a) = Some (''norm'', [d, a])"
| "inst_parts (T_Import s) = Some (''tmatmul_import'', [s])"
| "inst_parts (T_Go l) = Some (''tmatmul_go'', [location_text l])"
| "inst_parts (T_Export d) = Some (''tmatmul_export'', [d])"
| "inst_parts _ = None"

lemma opcode_words:
  "word_text ''ldv''" "word_text ''sv''" "word_text ''add''" "word_text ''sub''" "word_text ''mul''" "word_text ''div''"
  "word_text ''sig''" "word_text ''csig''" "word_text ''silu''" "word_text ''norm''" "word_text ''tmatmul_import''"
  "word_text ''tmatmul_go''" "word_text ''tmatmul_export''"
  by code_simp+

lemma inst_parts_op:
  "inst_parts i = Some (op, ops) \<Longrightarrow> word_text op \<and> hd op \<noteq> CHR '';'' \<and> ops \<noteq> []"
  by (cases i; clarsimp simp: opcode_words)

lemma inst_parts_text:
  "inst_parts i = Some (op, ops) \<Longrightarrow> instruction_text i = ''    '' @ op @ ''    '' @ join_with '','' ops"
  by (cases i; clarsimp)

lemma inst_parts_words: "inst_ok i \<Longrightarrow> inst_parts i = Some (op, ops) \<Longrightarrow> list_all word_text ops"
  by (cases i; clarsimp simp: reg_ok_facts(1))

lemma inst_parts_parse: "inst_ok i \<Longrightarrow> inst_parts i = Some (op, ops) \<Longrightarrow> parse_opcode fo op ops = translate fo i"
  by (cases i; clarsimp simp: parse_opcode_def reg_mem_def reg3_def reg2_def reg1_def reg_ok_facts(2))

lemma parse_line_inst:
  assumes "inst_ok i"
  shows "parse_line fo (instruction_text i) = translate fo i"
proof (cases "inst_parts i")
  case (Some p)
  then obtain op ops where p: "inst_parts i = Some (op, ops)" by (cases p) simp
  show ?thesis
    unfolding inst_parts_text [OF p]
    using parse_line_word [of op ops fo] inst_parts_op [OF p] inst_parts_words [OF assms p] inst_parts_parse [OF assms p] by simp
next
  case None
  then consider (c) c where "i = T_Comment c" | (l) l where "i = T_Label l" by (cases i) auto
  then show ?thesis
  proof cases
    case c
    have sp: "is_ws (CHR '' '')" "\<not> is_ws (CHR '';'')" by code_simp+
    have "trim (''    ; '' @ c) = CHR '';'' # rev (dropWhile is_ws (rev ('' '' @ c)))" 
      using sp by (auto simp: trim_def trim_start_def trim_end_def dropWhile_append dropWhile_append1)
    with c show ?thesis by (simp add: parse_line_def starts_with_def Let_def)
  next
    case l
    have sp: "\<not> is_ws (CHR '':'')" by code_simp
    have "trim (l @ '':'') = dropWhile is_ws l @ '':''"
      using sp by (simp add: trim_def trim_start_def trim_end_def dropWhile_append)
    with l show ?thesis by (simp add: parse_line_def ends_with_char Let_def)
  qed
qed

lemma line_text_inst:
  assumes "inst_ok i"
  shows "line_text (instruction_text i)"
proof (cases "inst_parts i")
  case (Some p)
  then obtain op ops where p: "inst_parts i = Some (op, ops)" by (cases p) simp
  have w: "list_all word_text (op # ops)" "ops \<noteq> []" using inst_parts_op [OF p] inst_parts_words [OF assms p] by auto
  have ws: "is_ws (CHR 0x0A)" "is_ws (CHR 0x0D)" by code_simp+
  have nl: "CHR 0x0A \<notin> set s" "CHR 0x0D \<notin> set s" if "word_text s" for s
    using word_text_facts(7) [OF that] ws by blast+
  have "list_all (\<lambda>s. CHR 0x0A \<notin> set s) ss \<Longrightarrow> CHR 0x0A \<notin> set (join_with '','' ss)" for ss by (induction ss) auto
  then have "CHR 0x0A \<notin> set (join_with '','' ops)" using w nl by (auto simp: list_all_iff)
  moreover have l: "word_text (last ops)" using w by (simp add: list_all_iff)
  moreover have "last ops \<noteq> []" "last (last ops) \<noteq> CHR 0x0D"
    using word_text_facts(1) [OF l] nl(2) [OF l] last_in_set by metis+
  ultimately show ?thesis
    using join_last [of ops "'',''"] w nl [of op] unfolding inst_parts_text [OF p] line_text_def
    by (simp add: list_all_iff)
next
  case None
  then consider (c) c where "i = T_Comment c" | (l) l where "i = T_Label l" by (cases i) auto
  then show ?thesis using assms by cases (auto simp: line_text_def)
qed

lemma header_lines:
  "list_all (\<lambda>l. line_text l) assembly_header" "List.map_filter (parse_line fo) assembly_header = []"
proof -
  show "list_all (\<lambda>l. line_text l) assembly_header" by code_simp
  have "list_all (\<lambda>l. trim l = [] \<or> starts_with '';'' (trim l)) assembly_header" by code_simp
  then have "list_all (\<lambda>l. parse_line fo l = None) assembly_header"
    by (auto simp: list_all_iff parse_line_def Let_def)
  then show "List.map_filter (parse_line fo) assembly_header = []"
    by (simp add: List.map_filter_def list_all_iff filter_empty_conv)
qed

lemma parse_to_assembly:
  assumes "list_all inst_ok p"
  shows "parse_assembly fo (to_assembly p) = List.map_filter (translate fo) p"
proof -
  have "list_all line_text (assembly_header @ map instruction_text p)"
    using assms header_lines(1) line_text_inst by (auto simp: list_all_iff)
  then have "str_lines (to_assembly p) = assembly_header @ map instruction_text p"
    unfolding to_assembly_def by (intro str_lines_concat) (simp add: line_text_def list_all_iff)
  moreover have "List.map_filter (parse_line fo) (map instruction_text p) = List.map_filter (translate fo) p"
    using assms by (induction p) (auto simp: List.map_filter_simps parse_line_inst split: option.splits)
  ultimately show ?thesis
    using header_lines(2) by (simp add: parse_assembly_def List.map_filter_def)
qed

subsection \<open>Allocation without spilling\<close>

definition ssa_index :: "string list \<Rightarrow> string \<Rightarrow> nat" where
  "ssa_index ssas x = length (takeWhile (\<lambda>y. y \<noteq> x) ssas)"

definition add_ssa :: "string list \<Rightarrow> string \<Rightarrow> string list" where
  "add_ssa ssas x = (if x \<in> set ssas then ssas else ssas @ [x])"

lemma ssa_index_less: "x \<in> set ssas \<Longrightarrow> ssa_index ssas x < length ssas \<and> ssas ! ssa_index ssas x = x"
  unfolding ssa_index_def by (induction ssas) auto

lemma ssa_index_inj: "x \<in> set ssas \<Longrightarrow> y \<in> set ssas \<Longrightarrow> ssa_index ssas x = ssa_index ssas y \<longleftrightarrow> x = y"
  using ssa_index_less by metis

lemma ssa_index_append [simp]: "x \<in> set ssas \<Longrightarrow> ssa_index (ssas @ xs) x = ssa_index ssas x"
  unfolding ssa_index_def by (induction ssas) auto

lemma ssa_index_new [simp]: "x \<notin> set ssas \<Longrightarrow> ssa_index (ssas @ [x]) x = length ssas"
  unfolding ssa_index_def by (induction ssas) auto

lemma add_ssa_facts:
  "distinct ssas \<Longrightarrow> distinct (add_ssa ssas x)" "set (add_ssa ssas x) = insert x (set ssas)" "length ssas \<le> length (add_ssa ssas x)"
  "y \<in> set ssas \<Longrightarrow> ssa_index (add_ssa ssas x) y = ssa_index ssas y"
  by (auto simp: add_ssa_def)

definition ra_state :: "string list \<Rightarrow> RegisterAllocator" where
  "ra_state ssas = \<lparr>value_to_reg = zip ssas (map reg_name [0..<length ssas]),
     allocated_regs = map (\<lambda>i. i < length ssas) [0..<8], next_reg = length ssas mod 8, spill_slots = Map.empty,
     next_spill_slot = 0, pending_spills = [], pending_reloads = []\<rparr>"

lemma ra_new_state: "ra_new = ra_state []"
  by (simp add: ra_new_def ra_state_def map_replicate_const)

lemma map_of_registers:
  "map_of (zip ssas (map f [n..<n + length ssas])) x = (if x \<in> set ssas then Some (f (n + ssa_index ssas x)) else None)"
proof (induction ssas arbitrary: n)
  case (Cons s ssas)
  have "[n..<n + length (s # ssas)] = n # [Suc n..<Suc n + length ssas]" by (simp add: upt_rec)
  then show ?case using Cons.IH [of "Suc n"] by (auto simp: ssa_index_def)
qed simp

lemma update_fresh: "k \<notin> fst ` set al \<Longrightarrow> AList.update k v al = al @ [(k, v)]"
  by (induction al) auto

lemma ra_allocate_state:
  assumes "distinct ssas" "length (add_ssa ssas x) \<le> 8"
  shows "ra_allocate order (ra_state ssas) x = (reg_name (ssa_index (add_ssa ssas x) x), ra_state (add_ssa ssas x))"
proof (cases "x \<in> set ssas")
  case True
  then show ?thesis
    using map_of_registers [of ssas reg_name 0 x] by (simp add: ra_allocate_def ra_state_def add_ssa_def)
next
  case False
  let ?n = "length ssas"
  have n: "?n < 8" using assms(2) False by (simp add: add_ssa_def)
  have m: "map_of (value_to_reg (ra_state ssas)) x = None"
    using map_of_registers [of ssas reg_name 0 x] False by (simp add: ra_state_def)
  have "List.find (\<lambda>i. \<not> allocated_regs (ra_state ssas) ! i) [0..<8] = Some ?n"
    unfolding find_Some_iff using n by (intro exI [of _ ?n]) (auto simp: ra_state_def)
  moreover have "take_register x ?n (ra_state ssas) = ra_state (ssas @ [x])"
  proof -
    have "AList.update x (reg_name ?n) (zip ssas (map reg_name [0..<?n])) = zip (ssas @ [x]) (map reg_name [0..<length (ssas @ [x])])"
      using False by (subst update_fresh) (auto dest: set_zip_leftD)
    moreover have "(map (\<lambda>i. i < ?n) [0..<8])[?n := True] = map (\<lambda>i. i < length (ssas @ [x])) [0..<8]"
      using n by (intro nth_equalityI) (auto simp: nth_list_update)
    ultimately show ?thesis by (simp add: take_register_def ra_state_def)
  qed
  moreover have "spill_slots (ra_state ssas) x = None" by (simp add: ra_state_def)
  ultimately show ?thesis
    using m False by (simp add: ra_allocate_def allocate_physical_register_def add_ssa_def)
qed

subsection \<open>Scalar operations and their meaning\<close>

datatype tm_bin = TB_Add | TB_Sub | TB_Mul | TB_Div

datatype tm_un = TU_Sig | TU_Csig | TU_Silu | TU_Norm

datatype tm_op =
    TM_Load string string
  | TM_Store string string
  | TM_Bin tm_bin string string string
  | TM_Un tm_un string string

fun bin_name :: "tm_bin \<Rightarrow> string" where
  "bin_name TB_Add = ''tmatmul.add''"
| "bin_name TB_Sub = ''tmatmul.sub''"
| "bin_name TB_Mul = ''tmatmul.mul''"
| "bin_name TB_Div = ''tmatmul.div''"

fun un_name :: "tm_un \<Rightarrow> string" where
  "un_name TU_Sig = ''tmatmul.sig''"
| "un_name TU_Csig = ''tmatmul.csig''"
| "un_name TU_Silu = ''tmatmul.silu''"
| "un_name TU_Norm = ''tmatmul.norm''"

fun emit_op :: "map_order \<Rightarrow> tm_op \<Rightarrow> TMatmulCodegen \<Rightarrow> (TMatmulCodegen, string) outcome" where
  "emit_op order (TM_Load m r) cg = emit_operation order ''tmatmul.ldv'' [m] [r] cg"
| "emit_op order (TM_Store a m) cg = emit_operation order ''tmatmul.sv'' [a, m] [] cg"
| "emit_op order (TM_Bin f a b r) cg = emit_operation order (bin_name f) [a, b] [r] cg"
| "emit_op order (TM_Un f a r) cg = emit_operation order (un_name f) [a] [r] cg"

fun emit_ops :: "map_order \<Rightarrow> tm_op list \<Rightarrow> TMatmulCodegen \<Rightarrow> (TMatmulCodegen, string) outcome" where
  "emit_ops order [] cg = Ok cg"
| "emit_ops order (x # xs) cg = obind (emit_op order x cg) (emit_ops order xs)"

fun bin_fun :: "interp_ops \<Rightarrow> tm_bin \<Rightarrow> u32 \<Rightarrow> u32 \<Rightarrow> u32" where
  "bin_fun fo TB_Add x y = f_add fo x y"
| "bin_fun fo TB_Sub x y = f_sub fo x y"
| "bin_fun fo TB_Mul x y = f_mul fo x y"
| "bin_fun fo TB_Div x y = f_safe_div fo x y"

fun un_fun :: "interp_ops \<Rightarrow> u32 \<Rightarrow> tm_un \<Rightarrow> u32 \<Rightarrow> u32" where
  "un_fun fo rms TU_Sig x = f_sigmoid fo x"
| "un_fun fo rms TU_Csig x = f_sub fo F32_ONE (f_sigmoid fo x)"
| "un_fun fo rms TU_Silu x = f_mul fo x (f_sigmoid fo x)"
| "un_fun fo rms TU_Norm x = f_normalise fo rms x"

text \<open>
  The meaning of an operation on SSA values: \<open>env\<close> holds the values defined so far, the machine is
  used for its memories only. Using a value that is not defined has no meaning.
\<close>

fun ref_op ::
  "interp_ops \<Rightarrow> u64 list \<Rightarrow> usize list \<Rightarrow> usize \<Rightarrow> u32 \<Rightarrow> (string \<Rightarrow> MemRef) \<Rightarrow> tm_op \<Rightarrow>
   (string \<rightharpoonup> u32) \<times> machine \<Rightarrow> ((string \<rightharpoonup> u32) \<times> machine) option" where
  "ref_op fo pp ps off rms loc (TM_Load m r) (env, s) = Some (env(r \<mapsto> read_memory s pp ps off (loc m)), s)"
| "ref_op fo pp ps off rms loc (TM_Store a m) (env, s) =
     map_option (\<lambda>x. (env, write_memory pp ps off (loc m) x s)) (env a)"
| "ref_op fo pp ps off rms loc (TM_Bin f a b r) (env, s) =
     Option.bind (env a) (\<lambda>x. Option.bind (env b) (\<lambda>y. Some (env(r \<mapsto> bin_fun fo f x y), s)))"
| "ref_op fo pp ps off rms loc (TM_Un f a r) (env, s) =
     Option.bind (env a) (\<lambda>x. Some (env(r \<mapsto> un_fun fo rms f x), s))"

fun ref_ops ::
  "interp_ops \<Rightarrow> u64 list \<Rightarrow> usize list \<Rightarrow> usize \<Rightarrow> u32 \<Rightarrow> (string \<Rightarrow> MemRef) \<Rightarrow> tm_op list \<Rightarrow>
   (string \<rightharpoonup> u32) \<times> machine \<Rightarrow> ((string \<rightharpoonup> u32) \<times> machine) option" where
  "ref_ops fo pp ps off rms loc [] st = Some st"
| "ref_ops fo pp ps off rms loc (x # xs) st =
     Option.bind (ref_op fo pp ps off rms loc x st) (ref_ops fo pp ps off rms loc xs)"

text \<open>Every element starts with no values defined; memory is threaded through.\<close>

fun ref_elements ::
  "interp_ops \<Rightarrow> u64 list \<Rightarrow> usize list \<Rightarrow> u32 \<Rightarrow> (string \<Rightarrow> MemRef) \<Rightarrow> tm_op list \<Rightarrow> usize list \<Rightarrow> machine \<Rightarrow> machine option" where
  "ref_elements fo pp ps rms loc ops [] s = Some s"
| "ref_elements fo pp ps rms loc ops (e # es) s =
     Option.bind (ref_ops fo pp ps (e * 4) rms loc ops (Map.empty, s)) (\<lambda>(_, s'). ref_elements fo pp ps rms loc ops es s')"

subsection \<open>Code generation without spilling\<close>

fun op_ssas :: "tm_op \<Rightarrow> string list" where
  "op_ssas (TM_Load m r) = [r]"
| "op_ssas (TM_Store a m) = [a]"
| "op_ssas (TM_Bin f a b r) = [a, b, r]"
| "op_ssas (TM_Un f a r) = [a, r]"

definition loc_of :: "(string \<rightharpoonup> MemoryLocation) \<Rightarrow> string \<Rightarrow> MemoryLocation" where
  "loc_of M s = (case M s of Some l \<Rightarrow> l | None \<Rightarrow> Custom s)"

fun bin_inst :: "tm_bin \<Rightarrow> string \<Rightarrow> string \<Rightarrow> string \<Rightarrow> TMatmulInstruction" where
  "bin_inst TB_Add = T_Add"
| "bin_inst TB_Sub = T_Sub"
| "bin_inst TB_Mul = T_Mul"
| "bin_inst TB_Div = T_Div"

fun un_inst :: "tm_un \<Rightarrow> string \<Rightarrow> string \<Rightarrow> TMatmulInstruction" where
  "un_inst TU_Sig = T_Sigmoid"
| "un_inst TU_Csig = T_ComplementSigmoid"
| "un_inst TU_Silu = T_SiLU"
| "un_inst TU_Norm = T_Norm"

fun op_inst :: "(string \<rightharpoonup> MemoryLocation) \<Rightarrow> (string \<Rightarrow> string) \<Rightarrow> tm_op \<Rightarrow> TMatmulInstruction" where
  "op_inst M rn (TM_Load m r) = T_LoadVector (rn r) (loc_of M m)"
| "op_inst M rn (TM_Store a m) = T_StoreVector (rn a) (loc_of M m)"
| "op_inst M rn (TM_Bin f a b r) = bin_inst f (rn r) (rn a) (rn b)"
| "op_inst M rn (TM_Un f a r) = un_inst f (rn r) (rn a)"

definition cg_state :: "TMatmulProgram \<Rightarrow> string list \<Rightarrow> (string \<rightharpoonup> MemoryLocation) \<Rightarrow> TMatmulCodegen" where
  "cg_state p ssas M = \<lparr>cg_program = p, cg_alloc = ra_state ssas, cg_mem = M\<rparr>"

abbreviation ssa_reg :: "string list \<Rightarrow> string \<Rightarrow> string" where
  "ssa_reg ssas x \<equiv> reg_name (ssa_index ssas x)"

lemma cg_state_steps:
  "emit_pending_spills (cg_state p ssas M) = cg_state p ssas M"
  "emit_pending_reloads (cg_state p ssas M) = cg_state p ssas M"
  "add_instruction i (cg_state p ssas M) = cg_state (p @ [i]) ssas M"
  "mem_location (cg_state p ssas M) s = loc_of M s"
  by (simp_all add: cg_state_def emit_pending_spills_def take_pending_spills_def emit_pending_reloads_def
      take_pending_reloads_def ra_state_def add_instruction_def mem_location_def loc_of_def)

lemma cg_allocate_state:
  assumes "distinct ssas" "length (add_ssa ssas x) \<le> 8"
  shows "cg_allocate order x (cg_state p ssas M) = (ssa_reg (add_ssa ssas x) x, cg_state p (add_ssa ssas x) M)"
    "ensure_in_register order x (cg_state p ssas M) = (ssa_reg (add_ssa ssas x) x, cg_state p (add_ssa ssas x) M)"
  using ra_allocate_state [OF assms, of order]
  by (simp_all add: cg_allocate_def ensure_in_register_def cg_state_steps) (simp_all add: cg_state_def cg_state_steps [unfolded cg_state_def])

lemma emit_op_state:
  assumes d: "distinct ssas" and "ssas' = foldl add_ssa ssas (op_ssas x)" "length ssas' \<le> 8"
  shows "emit_op order x (cg_state p ssas M) = Ok (cg_state (p @ [op_inst M (ssa_reg ssas') x]) ssas' M)"
proof (cases x)
  case (TM_Load m r)
  with assms show ?thesis
    by (simp add: emit_operation_def emit_load_def nth_str_def cg_state_steps cg_allocate_state Let_def del: obind_Ok_iff)
next
  case (TM_Store a m)
  with assms show ?thesis
    by (simp add: emit_operation_def emit_store_def nth_str_def cg_state_steps cg_allocate_state Let_def del: obind_Ok_iff)
next
  case (TM_Bin f a b r)
  let ?s1 = "add_ssa ssas a" let ?s2 = "add_ssa ?s1 b" let ?s3 = "add_ssa ?s2 r"
  have s: "ssas' = ?s3" using assms(2) TM_Bin by simp
  have l: "length ?s1 \<le> 8" "length ?s2 \<le> 8" "length ?s3 \<le> 8" "distinct ?s1" "distinct ?s2"
    using assms(3) s d add_ssa_facts(3) add_ssa_facts(1) order_trans by metis+
  have i: "ssa_index ?s3 a = ssa_index ?s1 a" "ssa_index ?s3 b = ssa_index ?s2 b"
    using add_ssa_facts(2,4) by auto
  have e: "emit_operation order (bin_name f) [a, b] [r] cg = emit_binary order (bin_inst f) [a, b] [r] cg" for cg
    by (cases f) (simp_all add: emit_operation_def)
  show ?thesis
    unfolding TM_Bin emit_op.simps e s
    using l d i by (simp add: emit_binary_def nth_str_def cg_state_steps cg_allocate_state Let_def del: obind_Ok_iff)
next
  case (TM_Un f a r)
  let ?s1 = "add_ssa ssas a" let ?s2 = "add_ssa ?s1 r"
  have s: "ssas' = ?s2" using assms(2) TM_Un by simp
  have l: "length ?s1 \<le> 8" "length ?s2 \<le> 8" "distinct ?s1"
    using assms(3) s d add_ssa_facts(3) add_ssa_facts(1) order_trans by metis+
  have i: "ssa_index ?s2 a = ssa_index ?s1 a" using add_ssa_facts(2,4) by auto
  have e: "emit_operation order (un_name f) [a] [r] cg = emit_unary order (un_inst f) [a] [r] cg" for cg
    by (cases f) (simp_all add: emit_operation_def)
  show ?thesis
    unfolding TM_Un emit_op.simps e s
    using l d i by (simp add: emit_unary_def nth_str_def cg_state_steps cg_allocate_state Let_def del: obind_Ok_iff)
qed

definition all_ssas :: "string list \<Rightarrow> tm_op list \<Rightarrow> string list" where
  "all_ssas ssas ops = foldl add_ssa ssas (concat (map op_ssas ops))"

lemma add_ssas_facts:
  "distinct ssas \<Longrightarrow> distinct (foldl add_ssa ssas xs)" "set (foldl add_ssa ssas xs) = set ssas \<union> set xs"
  "length ssas \<le> length (foldl add_ssa ssas xs)"
  "y \<in> set ssas \<Longrightarrow> ssa_index (foldl add_ssa ssas xs) y = ssa_index ssas y"
proof (induction xs arbitrary: ssas)
  case (Cons x xs)
  { case 1 then show ?case using Cons.IH(1) [of "add_ssa ssas x"] add_ssa_facts(1) by simp }
  { case 2 then show ?case using Cons.IH(2) [of "add_ssa ssas x"] add_ssa_facts(2) by auto }
  { case 3 then show ?case using Cons.IH(3) [of "add_ssa ssas x"] add_ssa_facts(3) [of ssas x] by simp }
  { case 4 then show ?case using Cons.IH(4) [of "add_ssa ssas x"] add_ssa_facts(2) [of ssas x] add_ssa_facts(4) [of _ ssas x] by simp }
qed simp_all

lemma op_inst_index:
  "(\<And>y. y \<in> set (op_ssas x) \<Longrightarrow> f y = g y) \<Longrightarrow> op_inst M f x = op_inst M g x"
  by (cases x) simp_all

lemma emit_ops_state:
  assumes "distinct ssas" "length (all_ssas ssas ops) \<le> 8"
  shows "emit_ops order ops (cg_state p ssas M) =
    Ok (cg_state (p @ map (op_inst M (ssa_reg (all_ssas ssas ops))) ops) (all_ssas ssas ops) M)"
  using assms
proof (induction ops arbitrary: ssas p)
  case Nil
  then show ?case by (simp add: all_ssas_def)
next
  case (Cons x xs)
  define s where "s = foldl add_ssa ssas (op_ssas x)"
  have a: "all_ssas ssas (x # xs) = all_ssas s xs" by (simp add: all_ssas_def s_def)
  have ds: "distinct s" using Cons.prems(1) add_ssas_facts(1) s_def by blast
  have le: "length s \<le> 8" using Cons.prems(2) a add_ssas_facts(3) [of s "concat (map op_ssas xs)"] by (simp add: all_ssas_def)
  have "op_inst M (ssa_reg s) x = op_inst M (ssa_reg (all_ssas s xs)) x"
  proof (rule op_inst_index)
    fix y assume "y \<in> set (op_ssas x)"
    then have "y \<in> set s" by (simp add: s_def add_ssas_facts(2))
    then show "ssa_reg s y = ssa_reg (all_ssas s xs) y" by (simp add: all_ssas_def add_ssas_facts(4))
  qed
  then show ?case
    using emit_op_state [OF Cons.prems(1) s_def le, of order p M] Cons.IH [OF ds, of "p @ [op_inst M (ssa_reg s) x]"] Cons.prems(2)
    by (simp add: a)
qed

subsection \<open>Simulation\<close>

definition same_mem :: "machine \<Rightarrow> machine \<Rightarrow> bool" where
  "same_mem s t \<longleftrightarrow> spill_memory s = spill_memory t \<and> host_mem s = host_mem t"

definition sim :: "string list \<Rightarrow> (string \<rightharpoonup> u32) \<Rightarrow> machine \<Rightarrow> machine \<Rightarrow> bool" where
  "sim ssas env s t \<longleftrightarrow> length (registers s) = 8 \<and> same_mem s t \<and>
     (\<forall>x v. env x = Some v \<longrightarrow> x \<in> set ssas \<and> registers s ! ssa_index ssas x = v)"

lemma same_mem_read: "same_mem s t \<Longrightarrow> read_memory s pp ps off m = read_memory t pp ps off m"
  by (cases m) (auto simp: same_mem_def read_memory_def split: option.splits)

lemma same_mem_write: "same_mem s t \<Longrightarrow> same_mem (write_memory pp ps off m v s) (write_memory pp ps off m v t)"
  by (cases m) (auto simp: same_mem_def write_memory_def split: option.splits)

lemma write_memory_registers [simp]: "registers (write_memory pp ps off m v s) = registers s"
  by (cases m) (auto simp: write_memory_def split: option.splits)

lemma unat_register [simp]: "i < 8 \<Longrightarrow> unat (of_nat i :: u8) = i"
  by (simp add: unsigned_of_nat take_bit_nat_eq_self)

lemma sim_get:
  assumes "sim ssas env s t" "length ssas \<le> 8" "env x = Some v"
  shows "get_reg s (reg_num (ssa_reg ssas x)) = Ok v"
proof -
  have x: "x \<in> set ssas" "registers s ! ssa_index ssas x = v" "length (registers s) = 8" using assms by (auto simp: sim_def)
  then have "ssa_index ssas x < 8" using ssa_index_less assms(2) by fastforce
  then show ?thesis using x by (simp add: get_reg_def)
qed

lemma sim_set:
  assumes "sim ssas env s t" "length ssas \<le> 8" "r \<in> set ssas"
  obtains s' where "set_reg s (reg_num (ssa_reg ssas r)) v = Ok s'" "sim ssas (env(r \<mapsto> v)) s' t"
proof -
  have i: "ssa_index ssas r < 8" using ssa_index_less [OF assms(3)] assms(2) by simp
  let ?s = "s\<lparr>registers := (registers s)[ssa_index ssas r := v]\<rparr>"
  have "set_reg s (reg_num (ssa_reg ssas r)) v = Ok ?s" using i assms(1) by (simp add: set_reg_def sim_def)
  moreover have "sim ssas (env(r \<mapsto> v)) ?s t"
    using assms i unfolding sim_def same_mem_def
    by (auto simp: nth_list_update ssa_index_inj)
  ultimately show ?thesis by (rule that)
qed

abbreviation op_loc :: "interp_ops \<Rightarrow> (string \<rightharpoonup> MemoryLocation) \<Rightarrow> string \<Rightarrow> MemRef" where
  "op_loc fo M s \<equiv> parse_memref fo (location_text (loc_of M s))"

lemma exec_bin:
  "execute_instruction fo pp ps off rms (the (translate fo (bin_inst f d a b))) s =
     alu2 (bin_fun fo f) (reg_num d) (reg_num a) (reg_num b) s"
  by (cases f) (simp_all add: alu2_def)

lemma exec_un:
  "execute_instruction fo pp ps off rms (the (translate fo (un_inst f d a))) s =
     alu1 (un_fun fo rms f) (reg_num d) (reg_num a) s"
  by (cases f) (simp_all add: alu1_def)

lemma op_step:
  assumes sim: "sim ssas env s t" and len: "length ssas \<le> 8" and sub: "set (op_ssas x) \<subseteq> set ssas"
    and ref: "ref_op fo pp ps off rms (op_loc fo M) x (env, t) = Some (env', t')"
  shows "\<exists>s'. execute_instruction fo pp ps off rms (the (translate fo (op_inst M (ssa_reg ssas) x))) s = Ok s' \<and>
    sim ssas env' s' t'"
proof (cases x)
  case (TM_Load m r)
  have e: "env' = env(r \<mapsto> read_memory s pp ps off (op_loc fo M m))" "t' = t"
    using ref sim same_mem_read by (auto simp: TM_Load sim_def)
  obtain s' where "set_reg s (reg_num (ssa_reg ssas r)) (read_memory s pp ps off (op_loc fo M m)) = Ok s'" "sim ssas env' s' t'"
    unfolding e using sim_set [OF sim len, of r] sub TM_Load by auto
  then show ?thesis by (simp add: TM_Load)
next
  case (TM_Store a m)
  then obtain v where v: "env a = Some v" "env' = env" "t' = write_memory pp ps off (op_loc fo M m) v t" using ref by auto
  have "sim ssas env (write_memory pp ps off (op_loc fo M m) v s) t'"
    using sim same_mem_write unfolding v(3) by (simp add: sim_def)
  then show ?thesis using sim_get [OF sim len v(1)] v(2) by (simp add: TM_Store)
next
  case (TM_Bin f a b r)
  then obtain u v where v: "env a = Some u" "env b = Some v" "env' = env(r \<mapsto> bin_fun fo f u v)" "t' = t"
    using ref by (auto simp: bind_eq_Some_conv)
  obtain s' where s': "set_reg s (reg_num (ssa_reg ssas r)) (bin_fun fo f u v) = Ok s'" "sim ssas env' s' t'"
    unfolding v(3,4) using sim_set [OF sim len, of r] sub TM_Bin by auto
  have "execute_instruction fo pp ps off rms (the (translate fo (op_inst M (ssa_reg ssas) x))) s = Ok s'"
    unfolding TM_Bin op_inst.simps exec_bin alu2_def
    using sim_get [OF sim len v(1)] sim_get [OF sim len v(2)] s'(1) by (simp del: obind_Ok_iff)
  with s'(2) show ?thesis by blast
next
  case (TM_Un f a r)
  then obtain u where v: "env a = Some u" "env' = env(r \<mapsto> un_fun fo rms f u)" "t' = t"
    using ref by (auto simp: bind_eq_Some_conv)
  obtain s' where s': "set_reg s (reg_num (ssa_reg ssas r)) (un_fun fo rms f u) = Ok s'" "sim ssas env' s' t'"
    unfolding v(2,3) using sim_set [OF sim len, of r] sub TM_Un by auto
  have "execute_instruction fo pp ps off rms (the (translate fo (op_inst M (ssa_reg ssas) x))) s = Ok s'"
    unfolding TM_Un op_inst.simps exec_un alu1_def using sim_get [OF sim len v(1)] s'(1) by (simp del: obind_Ok_iff)
  with s'(2) show ?thesis by blast
qed

lemma ops_run:
  assumes "sim ssas env s t" "length ssas \<le> 8" "set (concat (map op_ssas ops)) \<subseteq> set ssas"
    and "ref_ops fo pp ps off rms (op_loc fo M) ops (env, t) = Some (env', t')"
  shows "\<exists>s'. run_instructions fo pp ps off rms (map (\<lambda>x. the (translate fo (op_inst M (ssa_reg ssas) x))) ops) s = Ok s' \<and>
    sim ssas env' s' t'"
  using assms
proof (induction ops arbitrary: env s t)
  case (Cons x xs)
  obtain e1 t1 where r: "ref_op fo pp ps off rms (op_loc fo M) x (env, t) = Some (e1, t1)"
    "ref_ops fo pp ps off rms (op_loc fo M) xs (e1, t1) = Some (env', t')"
    using Cons.prems(4) by (auto simp: bind_eq_Some_conv)
  obtain s1 where "execute_instruction fo pp ps off rms (the (translate fo (op_inst M (ssa_reg ssas) x))) s = Ok s1" "sim ssas e1 s1 t1"
    using op_step [OF Cons.prems(1,2) _ r(1)] Cons.prems(3) by auto
  then show ?case using Cons.IH [of e1 s1 t1, OF _ Cons.prems(2) _ r(2)] Cons.prems(3) by auto
qed simp

lemma elements_run:
  assumes "length (registers s) = 8" "same_mem s t" "length ssas \<le> 8" "set (concat (map op_ssas ops)) \<subseteq> set ssas"
    and "ref_elements fo pp ps rms (op_loc fo M) ops es t = Some t'"
  shows "\<exists>s'. run_elements fo pp ps rms (map (\<lambda>x. the (translate fo (op_inst M (ssa_reg ssas) x))) ops) es s = Ok s' \<and> same_mem s' t'"
  using assms
proof (induction es arbitrary: s t)
  case (Cons e es)
  obtain env t1 where r: "ref_ops fo pp ps (e * 4) rms (op_loc fo M) ops (Map.empty, t) = Some (env, t1)"
    "ref_elements fo pp ps rms (op_loc fo M) ops es t1 = Some t'"
    using Cons.prems(5) by (auto simp: bind_eq_Some_conv)
  have "sim ssas Map.empty s t" using Cons.prems(1,2) by (simp add: sim_def)
  from ops_run [OF this Cons.prems(3,4) r(1)]
  obtain s1 where "run_instructions fo pp ps (e * 4) rms (map (\<lambda>x. the (translate fo (op_inst M (ssa_reg ssas) x))) ops) s = Ok s1"
    "sim ssas env s1 t1" by blast
  then show ?case using Cons.IH [of s1 t1, OF _ _ Cons.prems(3,4) r(2)] by (auto simp: sim_def)
qed auto

subsection \<open>Generated code computes the operations\<close>

fun op_symbols :: "tm_op \<Rightarrow> string list" where
  "op_symbols (TM_Load m r) = [m]"
| "op_symbols (TM_Store a m) = [m]"
| "op_symbols _ = []"

lemma op_inst_ok:
  assumes "length ssas \<le> 8" "set (op_ssas x) \<subseteq> set ssas" "list_all (\<lambda>s. word_text (location_text (loc_of M s))) (op_symbols x)"
  shows "inst_ok (op_inst M (ssa_reg ssas) x)" "translate fo (op_inst M (ssa_reg ssas) x) \<noteq> None"
proof -
  have r: "reg_ok (ssa_reg ssas y)" if "y \<in> set ssas" for y
    using ssa_index_less [OF that] assms(1) by (auto simp: reg_ok_def intro!: exI [of _ "ssa_index ssas y"])
  have b: "inst_ok (bin_inst f d a b) = (reg_ok d \<and> reg_ok a \<and> reg_ok b)" "translate fo (bin_inst f d a b) \<noteq> None" for f d a b
    by (cases f; simp)+
  have u: "inst_ok (un_inst f d a) = (reg_ok d \<and> reg_ok a)" "translate fo (un_inst f d a) \<noteq> None" for f d a
    by (cases f; simp)+
  show "inst_ok (op_inst M (ssa_reg ssas) x)" using assms(2,3) r b(1) u(1) by (cases x) auto
  show "translate fo (op_inst M (ssa_reg ssas) x) \<noteq> None" using b(2) u(2) by (cases x) auto
qed

lemma length_all_ssas: "length (all_ssas [] ops) = card (set (concat (map op_ssas ops)))"
  using add_ssas_facts(1,2) [of "[]" "concat (map op_ssas ops)"] distinct_card unfolding all_ssas_def by fastforce

lemma codegen_runs:
  assumes few: "card (set (concat (map op_ssas ops))) \<le> 8"
    and names: "list_all (\<lambda>s. word_text (location_text (loc_of M s))) (concat (map op_symbols ops))"
    and ref: "ref_elements fo pp ps rms (op_loc fo M) ops es (initial_machine m) = Some t"
  shows "\<exists>cg s. emit_ops order ops (cg_new\<lparr>cg_mem := M\<rparr>) = Ok cg \<and>
    run_elements fo pp ps rms (parse_assembly fo (get_assembly cg)) es (initial_machine m) = Ok s \<and> same_mem s t"
proof -
  define ssas where "ssas = all_ssas [] ops"
  have len: "length ssas \<le> 8" using few length_all_ssas by (simp add: ssas_def)
  have sub: "set (concat (map op_ssas ops)) \<subseteq> set ssas" by (simp add: ssas_def all_ssas_def add_ssas_facts(2))
  define P where "P = map (op_inst M (ssa_reg ssas)) ops"
  have e: "emit_ops order ops (cg_state [] [] M) = Ok (cg_state P ssas M)"
    using emit_ops_state [of "[]" ops order "[]" M] len by (simp add: ssas_def P_def)
  have each: "inst_ok (op_inst M (ssa_reg ssas) x) \<and> translate fo (op_inst M (ssa_reg ssas) x) \<noteq> None" if "x \<in> set ops" for x
    using op_inst_ok(1) [OF len, of x M] op_inst_ok(2) [OF len, of x M fo] that sub names by (auto simp: list_all_iff)
  then have "list_all inst_ok P" by (auto simp: P_def list_all_iff)
  then have "parse_assembly fo (get_assembly (cg_state P ssas M)) = List.map_filter (translate fo) P"
    by (simp add: get_assembly_def cg_state_def parse_to_assembly)
  also have "\<dots> = map (\<lambda>x. the (translate fo (op_inst M (ssa_reg ssas) x))) ops"
    using each by (auto simp: P_def List.map_filter_def filter_map comp_def intro!: arg_cong [where f = "map _"] filter_True)
  finally have a: "parse_assembly fo (get_assembly (cg_state P ssas M)) = \<dots>" .
  have "length (registers (initial_machine m)) = 8" by (simp add: initial_machine_def)
  then obtain s where "run_elements fo pp ps rms (map (\<lambda>x. the (translate fo (op_inst M (ssa_reg ssas) x))) ops) es (initial_machine m) = Ok s"
    "same_mem s t"
    using elements_run [OF _ _ len sub ref] by (auto simp: same_mem_def)
  moreover have "cg_new\<lparr>cg_mem := M\<rparr> = cg_state [] [] M" by (simp add: cg_new_def cg_state_def ra_new_state)
  ultimately show ?thesis using e a by (intro exI [of _ "cg_state P ssas M"] exI [of _ s]) simp
qed

subsection \<open>Properties\<close>

text \<open>
  C23. Assembly text is read back as it was written: for any program whose registers are \<open>v0\<close> to \<open>v255\<close>
  and whose memory names are words, the interpreter parses the generated text, with its header,
  comments and labels, to exactly the instructions of the program, in order.
\<close>

theorem tmatmul_text_roundtrip:
  assumes "list_all inst_ok p"
  shows "parse_assembly fo (to_assembly p) = List.map_filter (translate fo) p"
  using assms by (rule parse_to_assembly)

theorem tmatmul_text_roundtrip_witness:
  "parse_assembly word_floats (to_assembly [T_Comment ''x'', T_Add ''v2'' ''v0'' ''v1'', T_StoreVector ''v2'' (Custom ''SPILL_0'')]) =
     [I_Add 2 0 1, I_StoreVector 2 (Spill ''SPILL_0'')]"
proof -
  have r: "reg_name 0 = ''v0''" "reg_name 1 = ''v1''" "reg_name 2 = ''v2''" by code_simp+
  have ok: "reg_ok ''v0''" "reg_ok ''v1''" "reg_ok ''v2''"
    unfolding reg_ok_def r [symmetric] by (rule exI [of _ 0], simp, rule exI [of _ 1], simp, rule exI [of _ 2], simp)
  have n: "reg_num ''v0'' = 0" "reg_num ''v1'' = 1" "reg_num ''v2'' = 2" by code_simp+
  have w: "word_text ''SPILL_0''" "line_text ''x''" by code_simp+
  have m: "parse_memref word_floats ''SPILL_0'' = Spill ''SPILL_0''" by code_simp
  have "list_all inst_ok [T_Comment ''x'', T_Add ''v2'' ''v0'' ''v1'', T_StoreVector ''v2'' (Custom ''SPILL_0'')]"
    using ok w by simp
  from tmatmul_text_roundtrip [OF this, of word_floats] show ?thesis
    by (simp add: n m List.map_filter_simps)
qed

text \<open>
  C5. Compiler correctness: a program of scalar operations with at most eight SSA values is always
  compiled, and executing the generated text on the interpreter, for any number of elements, any
  parameter pointers (overlapping or not) and any arithmetic, leaves the memory that the operations
  mean, although registers are kept from one element to the next.
\<close>

theorem tmatmul_codegen_correct:
  assumes "card (set (concat (map op_ssas ops))) \<le> 8"
    and "list_all (\<lambda>s. word_text (location_text (loc_of M s))) (concat (map op_symbols ops))"
    and "ref_elements fo pp ps F32_ZERO (op_loc fo M) ops [0..<n] (initial_machine m) = Some t"
  shows "\<exists>cg. emit_ops order ops (cg_new\<lparr>cg_mem := M\<rparr>) = Ok cg \<and>
    execute_single_pass fo (parse_assembly fo (get_assembly cg)) pp ps n m = Ok (host_mem t)"
proof -
  obtain cg s where "emit_ops order ops (cg_new\<lparr>cg_mem := M\<rparr>) = Ok cg" "same_mem s t"
    "run_elements fo pp ps F32_ZERO (parse_assembly fo (get_assembly cg)) [0..<n] (initial_machine m) = Ok s"
    using codegen_runs [OF assms] by blast
  then show ?thesis by (auto simp: execute_single_pass_def same_mem_def)
qed

abbreviation example_ops :: "tm_op list" where
  "example_ops \<equiv> [TM_Load ''PARAM_0'' ''%0'', TM_Load ''PARAM_1'' ''%1'', TM_Bin TB_Mul ''%0'' ''%1'' ''%2'',
     TM_Un TU_Silu ''%2'' ''%3'', TM_Store ''%3'' ''PARAM_2'']"

theorem tmatmul_codegen_correct_witness:
  "\<exists>cg t. ref_elements word_floats [0x1000, 0x2000, 0x3000] [8, 8, 8] F32_ZERO (op_loc word_floats Map.empty) example_ops
       [0..<2] (initial_machine (\<lambda>a. ucast a)) = Some t \<and>
     emit_ops id example_ops cg_new = Ok cg \<and>
     execute_single_pass word_floats (parse_assembly word_floats (get_assembly cg)) [0x1000, 0x2000, 0x3000] [8, 8, 8] 2 (\<lambda>a. ucast a) =
       Ok (host_mem t)"
proof -
  have few: "card (set (concat (map op_ssas example_ops))) \<le> 8" by (simp add: card_insert_if)
  have names: "list_all (\<lambda>s. word_text (location_text (loc_of Map.empty s))) (concat (map op_symbols example_ops))" by code_simp
  obtain t where t: "ref_elements word_floats [0x1000, 0x2000, 0x3000] [8, 8, 8] F32_ZERO (op_loc word_floats Map.empty) example_ops
       [0..<2] (initial_machine (\<lambda>a. ucast a)) = Some t"
    by (simp add: eval_nat_numeral(1) upt_rec)
  have "cg_new\<lparr>cg_mem := Map.empty\<rparr> = cg_new" by (simp add: cg_new_def)
  then show ?thesis using tmatmul_codegen_correct [OF few names t, of id] t by auto
qed

definition spill_ops :: "tm_op list" where
  "spill_ops = map (\<lambda>i. TM_Load (''a'' @ show_nat i) (''%'' @ show_nat i)) [0..<9] @
     [TM_Store ''%7'' ''o7'', TM_Store ''%8'' ''o8'']"


end
