(* ===== verification/Spec2Isabelle.thy ===== *)
theory Spec2Isabelle
  imports Concordia_Runtime Kimi_Manager Nccl_Recovery Instrument Persistent_Queue Persistent_Router
    Sass_Pipeline Cubin_Parser Tmatmul_Correct
begin

text \<open>
  \<^bold>\<open>Concordia (hetGPU): checkpointing, the persistent GPU worker and two code generators.\<close>

  The repository lets CUDA programs run on several kinds of hardware. This development covers the parts
  whose behaviour is decided by the sources themselves; all paths below are relative to
  \<^verbatim>\<open>src/\<close>. Rust functions keep their names. A method whose name is used by several types carries a prefix
  (\<open>aof_\<close>, \<open>rt_\<close>, \<open>kimi_\<close>, \<open>cg_\<close>, \<open>ra_\<close>).

  \<^bold>\<open>The program and how its parts interact.\<close>

  \<^item> \<^emph>\<open>Checkpointing\<close> (\<^verbatim>\<open>zluda/src/impl/concordia_delta.rs\<close>, \<^verbatim>\<open>concordia_runtime.rs\<close>). A tracker keeps a
    shadow of every registered region and computes the pages that changed; the runtime appends these
    pages to an append-only log and restores a region by replaying the log. Under MPI each rank has a
    log of its own.
  \<^item> \<^emph>\<open>Regions of large models\<close> (\<^verbatim>\<open>zluda/src/impl/kimi_concordia.rs\<close>). A manager watches device allocations and
    kernel launches, keeps a manifest of the regions with stable keys across restarts, and writes its
    records to the same log format.
  \<^item> \<^emph>\<open>The persistent worker\<close> (\<^verbatim>\<open>concordia_gpu.rs\<close>, \<^verbatim>\<open>persistent_router.rs\<close>). A kernel that never returns takes tasks from
    a pinned ring; the router turns launches of known kernels into tasks.
  \<^item> \<^emph>\<open>Recovery\<close> (\<^verbatim>\<open>nccl_recovery.rs\<close>, \<^verbatim>\<open>concordia_instrument.rs\<close>). Repair of a communication ring after the loss of a
    rank; safe points in PTX text and resume records for contexts.
  \<^item> \<^emph>\<open>The SASS back end\<close> (\<^verbatim>\<open>nvidia_sass/src\<close>). PTX text is parsed, allocated to registers, scheduled, encoded and
    written as a CUBIN file; \<^verbatim>\<open>ptx/src/sass/cubin_parser.rs\<close> reads such files.
  \<^item> \<^emph>\<open>The accelerator back end\<close> (\<^verbatim>\<open>ptx/src/pass/emit_tmatmul_asm.rs\<close>, \<^verbatim>\<open>zluda/src/impl/tmatmul_interpreter.rs\<close>). A code
    generator with a spilling register allocator, and the interpreter that runs its assembly text.

  \<^bold>\<open>Modelling conventions.\<close> Machine integers are words, so that arithmetic wraps as in a release build;
  \<open>usize\<close> is \<open>nat\<close> and the sources' checked or wrapping operations on it are written out at 64 bits. A fallible
  function returns \<open>outcome\<close>: \<open>Ok\<close>, \<open>Err\<close> with a value of the component's error type, or \<open>Panic\<close> for an
  index out of range, a failed \<open>unwrap\<close> and the like. State is passed explicitly in records with the
  sources' fields. Where an iteration order is unspecified (\<open>HashMap\<close>), the order is an argument and the
  theorems hold for every order. Files live in a \<open>disk\<close> record with bounded room, so that a
  write can stop after any byte. Rust strings are ASCII.

  \<^bold>\<open>Theories.\<close>

  \<^descr>[\<open>Prelude\<close>, \<open>Rust_Str\<close>] Integer types, \<open>outcome\<close>, slices, little-endian codecs (locale \<open>byte_codec\<close>, interpreted
    for three widths); the string and number functions of the Rust library that the sources use.
  \<^descr>[\<open>Delta_Checkpoint\<close>] \<open>DeltaCheckpointState\<close>: registration, \<open>create_host_delta\<close>, \<open>create_bitmap_delta\<close>, shadow
    refresh. The page loop equals a reference list of differing pages, a delta replays to exactly the
    current bytes, and every reachable state is well-formed and free of panics.
  \<^descr>[\<open>Aof_Log\<close>] \<open>AofLog\<close>, \<open>AofDiskLog\<close>, framing, checksum, the reader loop and \<open>apply_records_to_region\<close>. The
    reader inverts the writer (locale \<open>record_log\<close>), a truncated log yields exactly the complete
    records, replay stays in range; reopening a torn log loses records.
  \<^descr>[\<open>Concordia_Runtime\<close>] \<open>ConcordiaRuntime\<close>, MPI detection, rank-scoped paths and the C entry points. After any run
    without a failed append, restoring from the log gives the last checkpointed bytes.
  \<^descr>[\<open>Kimi_Manager\<close>] Configuration, allocations (\<open>BTreeMap\<close> as an ordered association list), manifest,
    classification of kernels, bitmaps and restore offsets. The manifest lists the tracked allocations
    through every run, a restart finds the saved ids, the two bitmap formats agree and block-table
    translation can be undone; stable keys can repeat.
  \<^descr>[\<open>Persistent_Queue\<close>] \<open>Task\<close>, ring, \<open>enqueue_task\<close>, initialisation, release, entry points, the device
    operations on byte memory, and the host and worker blocks as an inductive step relation. With one
    block every interleaving runs the tasks once and in order, copies are exact, and the polling
    loop of \<open>sync\<close> returns.
  \<^descr>[\<open>Persistent_Router\<close>] Classification of kernel names, start of the router and \<open>try_route\<close>.
  \<^descr>[\<open>Nccl_Recovery\<close>] \<open>RecoveryState\<close> as a reachability relation with the ring invariant; the planner of the C interface.
  \<^descr>[\<open>Instrument\<close>] Discovery and annotation of safe points, layout of saved registers, resume records.
  \<^descr>[\<open>Sass_Types\<close>, \<open>Sass_Encoding\<close>, \<open>Sass_Isel\<close>] Instructions, the 128-bit SM120 encoder with its validator, and the
    selection functions. Every encodable instruction encodes and its fields read back.
  \<^descr>[\<open>Sass_Scheduler\<close>, \<open>Sass_Regalloc\<close>] Control codes and linear scan. Loads are waited for, latencies are covered,
    overlapping live ranges get different registers, and allocation always succeeds.
  \<^descr>[\<open>Sass_Ptx\<close>, \<open>Cubin_Builder\<close>, \<open>Sass_Pipeline\<close>, \<open>Cubin_Parser\<close>] The PTX subset parser, the CUBIN writer, the five passes
    (locale \<open>ptx_passes\<close>) and the reader. Printing then parsing gives the kernel back, and every
    section of a written file is found through its headers.
  \<^descr>[\<open>Tmatmul_Asm\<close>, \<open>Tmatmul_Interp\<close>, \<open>Tmatmul_Correct\<close>] The generator, the interpreter, and both together: the
    interpreter reads what the generator prints, and for programs that need no spill executing the
    text computes what the operations mean; with nine values the spill order loses a value.
  \<^descr>[\<open>Spec2Isabelle\<close>] Properties across components: from PTX text to the CUBIN reader, and from a kernel launch
    through the router and the ring to device memory.

  \<^bold>\<open>Bounds and fuel.\<close> All functions are total. \<open>sync_loop\<close> takes a number of polls; \<open>gpu_sync_terminates\<close> shows that six
  polls per submitted task and seven more are enough. The ring theorems hold for fewer than \<open>2\<^sup>31\<close> tasks, because head
  and tail are signed 32-bit counters; the theorem on the manager's manifest holds for fewer than \<open>2\<^sup>64 - 1\<close> calls,
  because ids are 64-bit counters. The generator theorem is for at most eight values, the number of registers.

  \<^bold>\<open>Parameters.\<close> Code outside the sources is an argument, and what is relied on is a hypothesis: floating-point
  arithmetic and parsing, the result codes of the CUDA driver, the ELF view of the object crate (with the law that
  it presents the headers and sections of the file it is given), the JSON codec of the manifest (reading what it wrote),
  and the creation of directories.

  \<^bold>\<open>Not modelled.\<close> Messages to the standard error stream and locks, except that a poisoned lock is a branch where the
  sources handle it. The vendor driver entry points in \<^verbatim>\<open>zluda/src/impl\<close> (\<open>function\<close>, \<open>module\<close>, \<open>device\<close>, \<open>context\<close>,
  \<open>driver\<close>, most of \<open>memory\<close>), because their effect is that of backends outside the sources. Process
  checkpoints and replay (\<open>checkpoint\<close>, \<open>replay\<close>), \<open>bitnet_disagg\<close> and \<open>cxl_tmatmul\<close>, which drive files, other processes
  and memory-mapped hardware. The PTX parser and the compiler passes, whose syntax tree is generated by macros and whose
  emitters call LLVM and MLIR builders. The SASS lifter, which starts from the output of an external
  disassembler. Bindings, shims, injection and tracing tools, vendor runtime crates and benchmarks.
\<close>

section \<open>From kernel text to a parsed CUBIN\<close>

lemma ptx_ident_nul_free: "ptx_ident s \<Longrightarrow> 0 \<notin> set (str_bytes s)"
proof
  assume id: "ptx_ident s" and "0 \<in> set (str_bytes s)"
  then obtain c where c: "c \<in> set s" "(of_char c :: u8) = 0" by (auto simp: str_bytes_def)
  then have "[c] = bytes_str [0]" using bytes_str_bytes [of "[c]"] by (simp add: str_bytes_def)
  then have "c = char_of (0 :: nat)" by (simp add: bytes_str_def)
  then have "\<not> ident_char c" by (simp add: ident_char_def)
  with id c(1) show False by (auto simp: ptx_ident_def list_all_iff)
qed

text \<open>
  C2. The whole compiler, end to end, against the CUBIN reader: for every kernel text of the subset and
  every supported version, whatever the iteration orders of the hash maps, compilation succeeds, the
  file it writes is accepted and parsed by the reader, and the reader finds exactly one kernel, with the
  kernel's name, the requested version and as code the encoding of the selected instructions after
  register allocation and scheduling.
\<close>

theorem compile_then_parse:
  assumes "ptx_ident name" "list_all ptx_op_ok ops" "ops \<noteq> []" "length ops < 2 ^ 24" "length name < 2 ^ 24"
    and "sm = 0 \<or> sm = 120 \<or> sm = 121" "hash_iter iter" "\<And>xs. mset (order xs) = mset xs"
    and elf: "\<And>m b. build_cubin_from_module m = Ok b \<Longrightarrow> \<exists>v. elf_parse b = Ok v \<and> elf_reads b v"
  shows "\<exists>r phys n code p. compile_ptx_to_cubin iter (ptx_kernel name ops) name sm = Ok r \<and>
    allocate iter (map ptx_select ops) = Ok (phys, n) \<and>
    omap_list (\<lambda>i. encode_sass i (if sm = 0 then 120 else sm)) (schedule phys) = Ok code \<and>
    parse_cubin elf_parse order (result_cubin r) = Ok p \<and> pc_sm_version p = (if sm = 0 then 120 else sm) \<and>
    map summary (pc_kernels p) =
      [(name, concat code, \<lparr>ni_num_regs = 32, ni_shared_mem = 0, ni_const_mem = 0, ni_local_mem = 0,
         ni_max_threads = 1024\<rparr>, if sm = 0 then 120 else sm)]"
proof -
  define sm' where "sm' = (if sm = 0 then 120 else sm)"
  let ?p = "\<lparr>parsed_kernel_name = name, parsed_sm_version = sm', parsed_insts = map ptx_select ops\<rparr>"
  have p: "parse_ptx_subset (ptx_kernel name ops) name sm = Ok ?p"
    using parse_ptx_kernel [OF assms(1-3)] by (simp add: sm'_def)
  have sm: "parsed_sm_version ?p = 120 \<or> parsed_sm_version ?p = 121" "10 \<le> sm'" "sm' \<le> 255"
    using assms(6) by (auto simp: sm'_def)
  obtain r phys n code where r: "compile_ptx_to_cubin iter (ptx_kernel name ops) name sm = Ok r"
    and a: "allocate iter (map ptx_select ops) = Ok (phys, n)"
    and m: "result_module r = pipeline_module (context_new (ptx_kernel name ops) name sm \<lparr>ctx_kernel_name := name,
       ctx_sm_version := sm', scheduled_instructions := schedule phys, ctx_num_registers := n\<rparr>)"
    and b: "build_cubin_from_module (result_module r) = Ok (result_cubin r)"
    and code: "omap_list (\<lambda>i. encode_sass i sm') (schedule phys) = Ok code"
      "length (concat code) = 16 * length ops" and len: "length phys = length ops"
    by (rule pipeline_succeeds [OF assms(7) p sm(1), unfolded ParsedPtxSubset.select_convs length_map])
  have small: "length (result_cubin r) < 2 ^ 32"
    by (rule pipeline_cubin_length [OF b [unfolded m]]) (use code assms(4,5) len in \<open>simp_all add: schedule_def\<close>)
  have k: "kernels (result_module r) = [\<lparr>kname = name, instructions = schedule phys,
      num_registers = n, shared_mem_bytes = 0, const_mem_bytes = 0, local_mem_bytes = 0, max_threads = 1024, params = []\<rparr>]"
    "sm_version (result_module r) = sm'"
    by (simp_all add: m pipeline_module_def)
  have nul: "list_all nul_free (kernels (result_module r))"
    using ptx_ident_nul_free [OF assms(1)] by (simp add: k nul_free_def)
  have hyps: "length (kernels (result_module r)) < 21000" "distinct (map kname (kernels (result_module r)))"
    "10 \<le> sm_version (result_module r)" "sm_version (result_module r) \<le> 255" using sm by (simp_all add: k)
  obtain v where v: "elf_parse (result_cubin r) = Ok v" "elf_reads (result_cubin r) v" using elf [OF b] by blast
  obtain q enc where q: "parse_cubin elf_parse order (result_cubin r) = Ok q" "encode_kernels (result_module r) = Ok enc"
      "pc_sm_version q = sm'"
    and ks: "mset (map summary (pc_kernels q)) = mset (map (written_kernel (result_module r) enc)
       (filter (\<lambda>i. enc ! i \<noteq> []) [0..<length (kernels (result_module r))]))"
    using parse_built [where order = order and elf_parse = elf_parse, OF b small hyps(1) nul hyps(2-4) v assms(8)]
    unfolding k(2) by blast
  have enc: "enc = [concat code]"
    using q(2) code(1) by (simp add: encode_kernels_def k encode_kernel_def)
  have "concat code \<noteq> []" using code(2) assms(3) by (metis length_0_conv mult_eq_0_iff zero_neq_numeral)
  then have "mset (map summary (pc_kernels q)) = mset [written_kernel (result_module r) enc 0]"
    using ks by (simp add: k enc)
  then have "map summary (pc_kernels q) = [written_kernel (result_module r) enc 0]"
    by (simp only: mset_single_iff_right mset.simps add_mset_eq_single mset_single_iff)
  then have "map summary (pc_kernels q) = [(name, concat code, \<lparr>ni_num_regs = 32, ni_shared_mem = 0, ni_const_mem = 0,
      ni_local_mem = 0, ni_max_threads = 1024\<rparr>, sm')]"
    by (simp add: written_kernel_def k enc)
  with r a code(1) q show ?thesis unfolding sm'_def [symmetric]
    by - (rule exI [of _ r], rule exI [of _ phys], rule exI [of _ n], rule exI [of _ code], rule exI [of _ q],
        intro conjI; assumption)
qed

theorem compile_then_parse_witness:
  "\<exists>r p. compile_ptx_to_cubin key_order (ptx_kernel ''add'' [PtxAddI 3 1 2, PtxExit]) ''add'' 0 = Ok r \<and>
     parse_cubin (\<lambda>b. Ok (plain_view b)) rev (result_cubin r) = Ok p \<and> map fst (map summary (pc_kernels p)) = [''add'']"
proof -
  have id: "ptx_ident ''add''" by code_simp
  have ok: "list_all ptx_op_ok [PtxAddI 3 1 2, PtxExit]" "[PtxAddI 3 1 2, PtxExit] \<noteq> []"
    "length [PtxAddI 3 1 2, PtxExit] < 2 ^ 24" "length ''add'' < 2 ^ 24" "(0 :: u32) = 0 \<or> (0 :: u32) = 120 \<or> (0 :: u32) = 121"
    by simp_all
  have elf: "\<exists>v. Ok (plain_view b) = Ok v \<and> elf_reads b v" for b
    using plain_view_reads by blast
  obtain r phys n code p where
    "compile_ptx_to_cubin key_order (ptx_kernel ''add'' [PtxAddI 3 1 2, PtxExit]) ''add'' 0 = Ok r"
    "parse_cubin (\<lambda>b. Ok (plain_view b)) rev (result_cubin r) = Ok p"
    "map summary (pc_kernels p) = [(''add'', concat code, \<lparr>ni_num_regs = 32, ni_shared_mem = 0, ni_const_mem = 0,
       ni_local_mem = 0, ni_max_threads = 1024\<rparr>, if (0 :: u32) = 0 then 120 else 0)]"
    using compile_then_parse [where order = rev and elf_parse = "\<lambda>b. Ok (plain_view b)",
        OF id ok hash_iter_key_order mset_rev elf] by (elim exE conjE) (rule that)
  then show ?thesis by (intro exI [of _ r] exI [of _ p]) (simp only: list.map fst_conv simp_thms)
qed

section \<open>From a kernel launch to device memory\<close>

text \<open>
  C3. A routed launch is carried out: when \<open>try_route\<close> accepts a launch on a router whose single-block
  worker has been running for fewer than \<open>2 ^ 31 - 1\<close> submissions, in whatever state of progress, then
  the worker, left to itself, executes all earlier tasks and then this one, in that order: memory ends
  as the classified operation run over \<open>gridDim.x * blockDim.x\<close> elements of the launch's parameters,
  after the earlier tasks, and \<open>sync\<close> returns.
\<close>

theorem routed_launch_executes:
  assumes "gpu_reach fo ((fresh_kernel cap 1)\<lparr>k_running := True\<rparr>) m0 s" "length (sys_log s) + 1 < 2 ^ 31"
    "0 < cap" "unat cap < 2 ^ 31" "router_kernel r = sys_k s"
    and "try_route env (Some r) poisoned name (Some ps) n (gx, gy, gz) (bx, by, bz) = (Some r', True)"
  shows "\<exists>op t j s'. classify_op name = Some op \<and>
    t = mk_task (op_code op) (of_nat (unat gx * unat bx)) (param_at ps n 1) (param_at ps n 2) (param_at ps n 0) \<and>
    worker_steps fo j (s\<lparr>sys_k := router_kernel r', sys_log := sys_log s @ [t]\<rparr>) = Some s' \<and>
    sys_mem s' = run_task fo 1 128 0 t (run_log fo 128 (sys_log s) m0) \<and>
    sync_poll (sys_k s') (k_submitted (sys_k s')) = Some (of_nat (length (sys_log s) + 1))"
proof -
  obtain a b c where "one_block fo m0 s a b c"
    using gpu_reach_one_block [OF assms(1)] assms(2-4) by auto
  then have "k_submitted (sys_k s) = of_nat (length (sys_log s))" by (simp add: one_block_def ring_holds_def)
  moreover have "length (sys_log s) < 2 ^ LENGTH(64)" using assms(2) by simp
  ultimately have "unat (k_submitted (sys_k s)) = length (sys_log s)"
    by (simp only: unsigned_of_nat take_bit_nat_eq_self of_nat_id)
  then have "unat (k_submitted (router_kernel r)) < 2 ^ 63" using assms(2,5) by simp
  then obtain k op numel seq where k: "r' = r\<lparr>router_kernel := k\<rparr>"
    and c: "classify name (gx, gy, gz) (bx, by, bz) n = Persistent op numel"
    and e: "enqueue_task (sys_k s) (op_code op) (of_int numel) (param_at ps n 1) (param_at ps n 2) (param_at ps n 0) = (k, Ok seq)"
    using try_route_accepted [OF assms(6)] unfolding assms(5) by blast
  note d = classify_PersistentD [OF c]
  define t where "t = mk_task (op_code op) (of_int numel) (param_at ps n 1) (param_at ps n 2) (param_at ps n 0)"
  let ?s = "s\<lparr>sys_k := k, sys_log := sys_log s @ [t]\<rparr>"
  have reach: "gpu_reach fo ((fresh_kernel cap 1)\<lparr>k_running := True\<rparr>) m0 ?s"
    unfolding t_def by (rule reach_enqueue [OF assms(1) e])
  have run: "k_running k" using e by (auto simp: enqueue_task_def Let_def split: if_splits)
  obtain j s' where j: "worker_steps fo j ?s = Some s'" "sys_mem s' = run_log fo 128 (sys_log s @ [t]) m0"
    "sync_poll (sys_k s') (k_submitted (sys_k s')) = Some (of_nat (length (sys_log s @ [t])))"
    using worker_drains [OF reach] assms(2-4) run by auto
  have t: "t = mk_task (op_code op) (of_nat (unat gx * unat bx)) (param_at ps n 1) (param_at ps n 2) (param_at ps n 0)"
    using d by (simp add: t_def)
  have "classify_op name = Some op" using d by blast
  moreover have "sys_mem s' = run_task fo 1 128 0 t (run_log fo 128 (sys_log s) m0)"
    using j(2) by (simp add: run_log_def)
  moreover have "worker_steps fo j (s\<lparr>sys_k := router_kernel r', sys_log := sys_log s @ [t]\<rparr>) = Some s'"
    using j(1) by (simp add: k)
  moreover have "sync_poll (sys_k s') (k_submitted (sys_k s')) = Some (of_nat (length (sys_log s) + 1))"
    using j(3) by simp
  ultimately show ?thesis using t by blast
qed

theorem routed_launch_executes_witness:
  "\<forall>fo. \<exists>s (r' :: PersistentRouter) j s'. sys_log s = [] \<and>
     worker_steps fo j (s\<lparr>sys_k := router_kernel r', sys_log := [mk_task 4 128 32 0 16]\<rparr>) = Some s' \<and>
     sys_mem s' = run_task fo 1 128 0 (mk_task 4 128 32 0 16) (\<lambda>_. 0) \<and>
     sync_poll (sys_k s') (k_submitted (sys_k s')) = Some 1"
proof
  fix fo
  let ?k = "(fresh_kernel 4 1)\<lparr>k_running := True\<rparr>"
  let ?r = "\<lparr>router_handle = 1, router_kernel = ?k\<rparr>"
  let ?s = "\<lparr>sys_k = ?k, sys_mem = (\<lambda>_. 0), sys_pc = (\<lambda>_. Poll), sys_log = [], sys_done = []\<rparr>"
  let ?res = "try_route [''CONCORDIA_PERSISTENT'' \<mapsto> ''1''] (Some ?r) False ''relu_kernel''
    (Some [Some 16, Some 32]) 2 (1, 1, 1) (128, 1, 1)"
  have "snd ?res" "fst ?res \<noteq> None" by code_simp+
  then obtain r' where r': "?res = (Some r', True)" by (cases ?res) auto
  have op: "classify_op ''relu_kernel'' = Some OpRelu" by code_simp
  have p: "param_at [Some 16, Some 32] 2 0 = 16" "param_at [Some 16, Some 32] 2 1 = 32" "param_at [Some 16, Some 32] 2 2 = 0"
    by code_simp+
  have reach: "gpu_reach fo ?k (\<lambda>_. 0) ?s" by (rule reach_init)
  obtain j s' where "worker_steps fo j (?s\<lparr>sys_k := router_kernel r', sys_log := [mk_task 4 128 32 0 16]\<rparr>) = Some s'"
    "sys_mem s' = run_task fo 1 128 0 (mk_task 4 128 32 0 16) (\<lambda>_. 0)"
    "sync_poll (sys_k s') (k_submitted (sys_k s')) = Some 1"
    using routed_launch_executes [OF reach _ _ _ _ r'] op p by (auto simp: op_code_def run_log_def)
  then show "\<exists>s (r' :: PersistentRouter) j s'. sys_log s = [] \<and>
     worker_steps fo j (s\<lparr>sys_k := router_kernel r', sys_log := [mk_task 4 128 32 0 16]\<rparr>) = Some s' \<and>
     sys_mem s' = run_task fo 1 128 0 (mk_task 4 128 32 0 16) (\<lambda>_. 0) \<and>
     sync_poll (sys_k s') (k_submitted (sys_k s')) = Some 1"
    by - (rule exI [of _ ?s], rule exI [of _ r'], rule exI [of _ j], rule exI [of _ s'], simp)
qed

end
